(* ===== verification/Prelude.thy ===== *)
theory Prelude
  imports Main "HOL-Library.Word"
begin

text \<open>
  What the component theories share: the result type that every fallible or
  panicking Rust function is translated to, the state-and-result combinator
  for methods on \<open>&mut self\<close>, checked and wrapping machine arithmetic, and
  generic facts on lists.

  Conventions.  A Rust \<open>Result<T, E>\<close> becomes \<open>(E, T) res\<close>: \<open>Ok\<close>, \<open>Err\<close>, a
  panic is the value \<open>Panic\<close>, and \<open>Hang\<close> is the value of a loop whose fuel ran
  out, so that "this call returns" is a statement with content.  A method that
  mutates its receiver and is fallible becomes a function
  \<open>'s \<Rightarrow> (E, T) res \<times> 's\<close>; the state is returned on every path, because the
  code may have changed it before an early return.
\<close>

section \<open>Results\<close>

datatype ('e, 'a) res = Ok 'a | Err 'e | Panic | Hang

fun res_bind :: "('e, 'a) res \<Rightarrow> ('a \<Rightarrow> ('e, 'b) res) \<Rightarrow> ('e, 'b) res" where
  "res_bind (Ok a) f = f a"
| "res_bind (Err e) f = Err e"
| "res_bind Panic f = Panic"
| "res_bind Hang f = Hang"

fun res_map :: "('a \<Rightarrow> 'b) \<Rightarrow> ('e, 'a) res \<Rightarrow> ('e, 'b) res" where
  "res_map f (Ok a) = Ok (f a)"
| "res_map f (Err e) = Err e"
| "res_map f Panic = Panic"
| "res_map f Hang = Hang"

fun is_ok :: "('e, 'a) res \<Rightarrow> bool" where
  "is_ok (Ok _) = True"
| "is_ok _ = False"

lemma is_ok_iff: "is_ok r \<longleftrightarrow> (\<exists>a. r = Ok a)"
  by (cases r) auto

lemma res_bind_Ok_iff: "res_bind r f = Ok b \<longleftrightarrow> (\<exists>a. r = Ok a \<and> f a = Ok b)"
  by (cases r) auto

lemma res_bind_Panic_iff: "res_bind r f = Panic \<longleftrightarrow> r = Panic \<or> (\<exists>a. r = Ok a \<and> f a = Panic)"
  by (cases r) auto

lemma res_bind_Hang_iff: "res_bind r f = Hang \<longleftrightarrow> r = Hang \<or> (\<exists>a. r = Ok a \<and> f a = Hang)"
  by (cases r) auto

text \<open>\<open>Option::ok_or\<close>.\<close>

fun ok_or :: "'e \<Rightarrow> 'a option \<Rightarrow> ('e, 'a) res" where
  "ok_or e None = Err e"
| "ok_or e (Some a) = Ok a"

lemma ok_or_Ok_iff: "ok_or e x = Ok a \<longleftrightarrow> x = Some a"
  by (cases x) auto

text \<open>The state-and-result combinator: \<open>?\<close> inside a method on \<open>&mut self\<close>.\<close>

type_synonym ('s, 'e, 'a) step = "'s \<Rightarrow> ('e, 'a) res \<times> 's"

definition step_bind ::
  "('e, 'a) res \<times> 's \<Rightarrow> ('a \<Rightarrow> 's \<Rightarrow> ('e, 'b) res \<times> 's) \<Rightarrow> ('e, 'b) res \<times> 's" where
  "step_bind rs f =
     (case fst rs of
        Ok a \<Rightarrow> f a (snd rs)
      | Err e \<Rightarrow> (Err e, snd rs)
      | Panic \<Rightarrow> (Panic, snd rs)
      | Hang \<Rightarrow> (Hang, snd rs))"

lemma step_bind_simps [simp]:
  "step_bind (Ok a, s) f = f a s"
  "step_bind (Err e, s) f = (Err e, s)"
  "step_bind (Panic, s) f = (Panic, s)"
  "step_bind (Hang, s) f = (Hang, s)"
  by (simp_all add: step_bind_def)

lemma step_bind_OkE:
  assumes "step_bind rs f = (Ok b, s')"
  obtains a s where "rs = (Ok a, s)" and "f a s = (Ok b, s')"
  using assms by (cases rs; cases "fst rs") (auto simp: step_bind_def)

section \<open>Machine arithmetic\<close>

text \<open>
  Counters that wrap (\<open>wrapping_add\<close>) are words.  Offsets and lengths are
  \<open>nat\<close>: they measure allocations, which Rust bounds by \<open>isize::MAX\<close>, so plain
  sums of two of them cannot pass \<open>usize::MAX\<close>; wherever the code itself uses
  checked arithmetic the bound is written out.
\<close>

type_synonym u64 = "64 word"

definition u64_bound :: nat where
  "u64_bound = 2 ^ 64"

definition checked_add :: "nat \<Rightarrow> nat \<Rightarrow> nat option" where
  "checked_add a b = (if a + b < u64_bound then Some (a + b) else None)"

definition checked_sub :: "nat \<Rightarrow> nat \<Rightarrow> nat option" where
  "checked_sub a b = (if b \<le> a then Some (a - b) else None)"

definition checked_add_signed :: "nat \<Rightarrow> int \<Rightarrow> nat option" where
  "checked_add_signed a d =
     (if 0 \<le> int a + d \<and> int a + d < int u64_bound then Some (nat (int a + d)) else None)"

lemma checked_add_Some_iff: "checked_add a b = Some c \<longleftrightarrow> c = a + b \<and> a + b < u64_bound"
  by (auto simp: checked_add_def)

lemma checked_sub_Some_iff: "checked_sub a b = Some c \<longleftrightarrow> c = a - b \<and> b \<le> a"
  by (auto simp: checked_sub_def)

lemma checked_sub_0 [simp]: "checked_sub 0 (Suc 0) = None" "checked_sub (Suc n) (Suc 0) = Some n"
  by (simp_all add: checked_sub_def)

section \<open>Lists\<close>

text \<open>\<open>slice::get\<close>.\<close>

definition get :: "'a list \<Rightarrow> nat \<Rightarrow> 'a option" where
  "get xs i = (if i < length xs then Some (xs ! i) else None)"

lemma get_simps [simp]:
  "get [] i = None" "get (x # xs) 0 = Some x" "get (x # xs) (Suc i) = get xs i"
  by (simp_all add: get_def)

lemma get_None [simp]: "length xs \<le> i \<Longrightarrow> get xs i = None"
  by (simp add: get_def)

lemma get_Some_iff: "get xs i = Some x \<longleftrightarrow> i < length xs \<and> xs ! i = x"
  by (auto simp: get_def)

lemma get_append: "get (xs @ ys) i = (if i < length xs then get xs i else get ys (i - length xs))"
  by (auto simp: get_def nth_append)

definition first_of :: "'a list \<Rightarrow> 'a option" where
  "first_of xs = (case xs of [] \<Rightarrow> None | x # _ \<Rightarrow> Some x)"

definition last_of :: "'a list \<Rightarrow> 'a option" where
  "last_of xs = (if xs = [] then None else Some (last xs))"

lemma first_of_simps [simp]: "first_of [] = None" "first_of (x # xs) = Some x"
  by (simp_all add: first_of_def)

lemma last_of_simps [simp]: "last_of [] = None" "last_of (xs @ [x]) = Some x"
  by (simp_all add: last_of_def)

lemma first_of_eq: "xs \<noteq> [] \<Longrightarrow> first_of xs = Some (hd xs)"
  by (cases xs) auto

lemma last_of_eq: "xs \<noteq> [] \<Longrightarrow> last_of xs = Some (last xs)"
  by (simp add: last_of_def)

text \<open>
  \<open>slice::partition_point\<close> on a slice that is partitioned by the predicate (the
  only use the code makes of it): the length of the prefix where it holds.
\<close>

definition partition_point :: "('a \<Rightarrow> bool) \<Rightarrow> 'a list \<Rightarrow> nat" where
  "partition_point p xs = length (takeWhile p xs)"

lemma partition_point_le: "partition_point p xs \<le> length xs"
  by (simp add: partition_point_def length_takeWhile_le)

lemma split_at_three:
  assumes "a \<le> b" and "b \<le> length xs"
  shows "xs = take a xs @ take (b - a) (drop a xs) @ drop b xs"
proof -
  have "drop a xs = take (b - a) (drop a xs) @ drop b xs"
    using assms by (metis append_take_drop_id drop_drop le_add_diff_inverse2)
  then show ?thesis
    by (metis append_take_drop_id)
qed

end
