(* ===== verification/Utf8_Text.thy ===== *)
theory Utf8_Text
  imports Prelude
begin

text \<open>
  Rust's \<open>char\<close> and \<open>str\<close>.  A \<open>char\<close> is its scalar value (a \<open>nat\<close>; the
  definitions follow the standard library on every value it can take), a
  \<open>str\<close> is the list of its chars, and byte positions are sums of UTF-8
  lengths.  The byte-level encoding is given too, for the code that walks bytes.
\<close>

type_synonym uchar = nat
type_synonym str = "uchar list"

section \<open>Lengths\<close>

definition len_utf8 :: "uchar \<Rightarrow> nat" where
  "len_utf8 c = (if c < 128 then 1 else if c < 2048 then 2 else if c < 65536 then 3 else 4)"

definition len_utf16 :: "uchar \<Rightarrow> nat" where
  "len_utf16 c = (if c < 65536 then 1 else 2)"

fun str_len :: "str \<Rightarrow> nat" where
  "str_len [] = 0"
| "str_len (c # cs) = len_utf8 c + str_len cs"

fun utf16_len :: "str \<Rightarrow> nat" where
  "utf16_len [] = 0"
| "utf16_len (c # cs) = len_utf16 c + utf16_len cs"

lemma len_utf8_pos [simp]: "0 < len_utf8 c" "len_utf8 c \<noteq> 0"
  by (simp_all add: len_utf8_def)

lemma len_utf8_le: "len_utf8 c \<le> 4"
  by (simp add: len_utf8_def)

lemma len_utf16_pos [simp]: "0 < len_utf16 c" "len_utf16 c \<noteq> 0"
  by (simp_all add: len_utf16_def)

lemma str_len_append [simp]: "str_len (xs @ ys) = str_len xs + str_len ys"
  by (induction xs) auto

lemma utf16_len_append [simp]: "utf16_len (xs @ ys) = utf16_len xs + utf16_len ys"
  by (induction xs) auto

lemma str_len_0_iff [simp]: "str_len xs = 0 \<longleftrightarrow> xs = []"
  by (cases xs) auto

lemma str_len_eq_0_iff [simp]: "0 = str_len xs \<longleftrightarrow> xs = []"
  by (cases xs) auto

lemma str_len_concat: "str_len (concat xss) = sum_list (map str_len xss)"
  by (induction xss) auto

lemma length_le_str_len: "length xs \<le> str_len xs"
proof (induction xs)
  case (Cons c cs)
  then show ?case using len_utf8_pos(1)[of c] by (simp del: len_utf8_pos)
qed simp

lemma str_len_le_4_length: "str_len xs \<le> 4 * length xs"
proof (induction xs)
  case (Cons c cs)
  then show ?case using len_utf8_le[of c] by simp
qed simp

section \<open>Bytes\<close>

text \<open>\<open>char::encode_utf8\<close>; bytes are numbers below 256.\<close>

definition encode_char :: "uchar \<Rightarrow> nat list" where
  "encode_char c =
     (if c < 128 then [c]
      else if c < 2048 then [192 + c div 64, 128 + c mod 64]
      else if c < 65536 then [224 + c div 4096, 128 + c div 64 mod 64, 128 + c mod 64]
      else [240 + c div 262144, 128 + c div 4096 mod 64, 128 + c div 64 mod 64, 128 + c mod 64])"

definition as_bytes :: "str \<Rightarrow> nat list" where
  "as_bytes s = concat (map encode_char s)"

lemma as_bytes_simps [simp]:
  "as_bytes [] = []" "as_bytes (c # cs) = encode_char c @ as_bytes cs"
  "as_bytes (xs @ ys) = as_bytes xs @ as_bytes ys"
  by (simp_all add: as_bytes_def)

lemma length_encode_char [simp]: "length (encode_char c) = len_utf8 c"
  by (simp add: encode_char_def len_utf8_def)

lemma length_as_bytes [simp]: "length (as_bytes s) = str_len s"
  by (induction s) auto

lemma as_bytes_concat: "as_bytes (concat xss) = concat (map as_bytes xss)"
  by (induction xss) auto

section \<open>Byte positions and char positions\<close>

text \<open>The byte position of the \<open>k\<close>-th char.\<close>

definition char_to_byte :: "str \<Rightarrow> nat \<Rightarrow> nat" where
  "char_to_byte s k = str_len (take k s)"

text \<open>The index of the char that byte \<open>b\<close> belongs to; the length for the end.\<close>

fun byte_to_char :: "str \<Rightarrow> nat \<Rightarrow> nat" where
  "byte_to_char [] b = 0"
| "byte_to_char (c # cs) b = (if b < len_utf8 c then 0 else Suc (byte_to_char cs (b - len_utf8 c)))"

definition is_boundary :: "str \<Rightarrow> nat \<Rightarrow> bool" where
  "is_boundary s b \<longleftrightarrow> b \<le> str_len s \<and> char_to_byte s (byte_to_char s b) = b"

lemma char_to_byte_simps [simp]:
  "char_to_byte s 0 = 0" "char_to_byte [] k = 0"
  "char_to_byte (c # cs) (Suc k) = len_utf8 c + char_to_byte cs k"
  by (simp_all add: char_to_byte_def)

lemma char_to_byte_length [simp]: "char_to_byte s (length s) = str_len s"
  by (simp add: char_to_byte_def)

lemma char_to_byte_add:
  "char_to_byte s (j + k) = char_to_byte s j + char_to_byte (drop j s) k"
  by (simp add: char_to_byte_def take_add)

lemma char_to_byte_append:
  "char_to_byte (xs @ ys) k =
     (if k \<le> length xs then char_to_byte xs k else str_len xs + char_to_byte ys (k - length xs))"
  by (simp add: char_to_byte_def)

lemma char_to_byte_append_left [simp]: "char_to_byte (xs @ ys) (length xs) = str_len xs"
  by (simp add: char_to_byte_def)

lemma char_to_byte_append_right [simp]:
  "char_to_byte (xs @ ys) (length xs + k) = str_len xs + char_to_byte ys k"
  by (simp add: char_to_byte_def)

lemma char_to_byte_mono: "j \<le> k \<Longrightarrow> char_to_byte s j \<le> char_to_byte s k"
  using char_to_byte_add[of s j "k - j"] by simp

lemma char_to_byte_le: "char_to_byte s k \<le> str_len s"
  unfolding char_to_byte_def by (metis append_take_drop_id le_add1 str_len_append)

lemma char_to_byte_strict: "j < k \<Longrightarrow> k \<le> length s \<Longrightarrow> char_to_byte s j < char_to_byte s k"
proof -
  assume "j < k" "k \<le> length s"
  then have "take (k - j) (drop j s) \<noteq> []" by auto
  then have "0 < char_to_byte (drop j s) (k - j)"
    unfolding char_to_byte_def by (metis gr0I str_len_0_iff)
  then show ?thesis
    using char_to_byte_add[of s j "k - j"] \<open>j < k\<close> by simp
qed

lemma char_to_byte_inj:
  "j \<le> length s \<Longrightarrow> k \<le> length s \<Longrightarrow> char_to_byte s j = char_to_byte s k \<longleftrightarrow> j = k"
  by (metis char_to_byte_strict less_irrefl linorder_neqE_nat)

lemma char_to_byte_less_iff:
  "j \<le> length s \<Longrightarrow> k \<le> length s \<Longrightarrow> char_to_byte s j < char_to_byte s k \<longleftrightarrow> j < k"
  by (metis char_to_byte_mono char_to_byte_strict leD linorder_le_less_linear)

lemma char_to_byte_le_iff:
  "j \<le> length s \<Longrightarrow> k \<le> length s \<Longrightarrow> char_to_byte s j \<le> char_to_byte s k \<longleftrightarrow> j \<le> k"
  by (meson char_to_byte_less_iff linorder_not_less)

lemma byte_to_char_char_to_byte [simp]:
  "k \<le> length s \<Longrightarrow> byte_to_char s (char_to_byte s k) = k"
proof (induction s arbitrary: k)
  case (Cons c cs)
  then show ?case by (cases k) auto
qed simp

lemma byte_to_char_le: "byte_to_char s b \<le> length s"
  by (induction s b rule: byte_to_char.induct) auto

lemma byte_to_char_0 [simp]: "byte_to_char s 0 = 0"
  by (cases s) auto

lemma byte_to_char_str_len [simp]: "byte_to_char s (str_len s) = length s"
  by (metis byte_to_char_char_to_byte char_to_byte_length order_refl)

lemma byte_to_char_append_left [simp]: "byte_to_char (xs @ ys) (str_len xs) = length xs"
  by (metis byte_to_char_char_to_byte char_to_byte_append_left le_add1 length_append)

lemma is_boundary_iff: "is_boundary s b \<longleftrightarrow> (\<exists>k \<le> length s. b = char_to_byte s k)"
  unfolding is_boundary_def
  by (metis byte_to_char_char_to_byte byte_to_char_le char_to_byte_le)

lemma is_boundaryI: "k \<le> length s \<Longrightarrow> is_boundary s (char_to_byte s k)"
  by (auto simp: is_boundary_iff)

lemma is_boundaryE:
  assumes "is_boundary s b"
  obtains k where "k \<le> length s" and "b = char_to_byte s k" and "byte_to_char s b = k"
  using assms by (auto simp: is_boundary_iff)

lemma is_boundary_0 [simp, intro]: "is_boundary s 0"
  by (simp add: is_boundary_def)

lemma is_boundary_len [simp, intro]: "is_boundary s (str_len s)"
  by (simp add: is_boundary_def)

lemma is_boundary_le: "is_boundary s b \<Longrightarrow> b \<le> str_len s"
  by (simp add: is_boundary_def)

lemma is_boundary_prefix [simp, intro]: "is_boundary (xs @ ys) (str_len xs)"
  by (simp add: is_boundary_def)

lemma is_boundary_split: "is_boundary s b \<longleftrightarrow> (\<exists>xs ys. s = xs @ ys \<and> b = str_len xs)"
proof
  assume "is_boundary s b"
  then obtain k where "k \<le> length s" "b = char_to_byte s k" by (auto simp: is_boundary_iff)
  then have "s = take k s @ drop k s \<and> b = str_len (take k s)" by (simp add: char_to_byte_def)
  then show "\<exists>xs ys. s = xs @ ys \<and> b = str_len xs" by blast
qed auto

lemma is_boundary_append_iff:
  "str_len xs \<le> b \<Longrightarrow> is_boundary (xs @ ys) b \<longleftrightarrow> is_boundary ys (b - str_len xs)"
proof
  assume le: "str_len xs \<le> b" and "is_boundary (xs @ ys) b"
  then obtain k where k: "k \<le> length (xs @ ys)" "b = char_to_byte (xs @ ys) k"
    by (auto simp: is_boundary_iff)
  have "length xs \<le> k"
  proof (rule ccontr)
    assume "\<not> length xs \<le> k"
    then have "b < str_len xs"
      using k char_to_byte_strict[of k "length xs" xs] by (simp add: char_to_byte_append)
    with le show False by simp
  qed
  then obtain j where "k = length xs + j" using le_Suc_ex by blast
  with k show "is_boundary ys (b - str_len xs)" by (auto simp: is_boundary_iff)
next
  assume "str_len xs \<le> b" and "is_boundary ys (b - str_len xs)"
  then obtain k where "k \<le> length ys" "b - str_len xs = char_to_byte ys k"
    by (auto simp: is_boundary_iff)
  with \<open>str_len xs \<le> b\<close> have "length xs + k \<le> length (xs @ ys)"
    "b = char_to_byte (xs @ ys) (length xs + k)" by simp_all
  then show "is_boundary (xs @ ys) b" unfolding is_boundary_iff by blast
qed

lemma str_len_take_mono: "i \<le> j \<Longrightarrow> str_len (take i t) \<le> str_len (take j t)"
  using char_to_byte_mono[of i j t] by (simp add: char_to_byte_def)

lemma str_len_take_less_iff:
  "i \<le> length t \<Longrightarrow> j \<le> length t \<Longrightarrow> str_len (take i t) < str_len (take j t) \<longleftrightarrow> i < j"
  using char_to_byte_less_iff[of i t j] by (simp add: char_to_byte_def)

lemma str_len_take_le_iff:
  "i \<le> length t \<Longrightarrow> j \<le> length t \<Longrightarrow> str_len (take i t) \<le> str_len (take j t) \<longleftrightarrow> i \<le> j"
  using char_to_byte_le_iff[of i t j] by (simp add: char_to_byte_def)

section \<open>Byte ranges of a text\<close>

text \<open>The text between two byte positions (boundaries).\<close>

definition byte_slice :: "str \<Rightarrow> nat \<Rightarrow> nat \<Rightarrow> str" where
  "byte_slice s a b = take (byte_to_char s b - byte_to_char s a) (drop (byte_to_char s a) s)"

text \<open>The text with the bytes \<open>a..b\<close> replaced.\<close>

definition splice :: "str \<Rightarrow> nat \<Rightarrow> nat \<Rightarrow> str \<Rightarrow> str" where
  "splice s a b r = take (byte_to_char s a) s @ r @ drop (byte_to_char s b) s"

lemma boundary_range_split:
  assumes "is_boundary s a" and "is_boundary s b" and "a \<le> b"
  obtains xs ys zs where "s = xs @ ys @ zs" and "a = str_len xs" and "b = str_len xs + str_len ys"
proof -
  from assms(1) obtain i where i: "i \<le> length s" "a = char_to_byte s i" by (auto simp: is_boundary_iff)
  from assms(2) obtain j where j: "j \<le> length s" "b = char_to_byte s j" by (auto simp: is_boundary_iff)
  from i j assms(3) have le: "i \<le> j" by (simp add: char_to_byte_le_iff)
  let ?xs = "take i s" and ?ys = "take (j - i) (drop i s)" and ?zs = "drop j s"
  have "s = ?xs @ ?ys @ ?zs" using split_at_three[OF le j(1)] .
  moreover have "a = str_len ?xs" using i by (simp add: char_to_byte_def)
  moreover have "b = str_len ?xs + str_len ?ys"
    using j le char_to_byte_add[of s i "j - i"] by (simp add: char_to_byte_def)
  ultimately show ?thesis by (rule that)
qed

lemma byte_to_char_middle [simp]:
  "byte_to_char (xs @ ys @ zs) (str_len xs + str_len ys) = length xs + length ys"
  by (metis append_assoc byte_to_char_append_left length_append str_len_append)

lemma byte_slice_middle [simp]:
  "byte_slice (xs @ ys @ zs) (str_len xs) (str_len xs + str_len ys) = ys"
  by (simp add: byte_slice_def)

lemma splice_middle [simp]:
  "splice (xs @ ys @ zs) (str_len xs) (str_len xs + str_len ys) r = xs @ r @ zs"
  by (simp add: splice_def)

lemma splice_empty_middle [simp]:
  "splice (xs @ zs) (str_len xs) (str_len xs) r = xs @ r @ zs"
  using splice_middle[of xs "[]" zs r] by simp

lemma byte_slice_same [simp]: "byte_slice s a a = []"
  by (simp add: byte_slice_def)

lemma byte_slice_full [simp]: "byte_slice s 0 (str_len s) = s"
  by (simp add: byte_slice_def)

lemma str_len_byte_slice:
  assumes "is_boundary s a" "is_boundary s b" "a \<le> b"
  shows "str_len (byte_slice s a b) = b - a"
  by (rule boundary_range_split[OF assms]) simp

lemma splice_inverse:
  assumes "is_boundary s a" "is_boundary s b" "a \<le> b"
  shows "splice (splice s a b r) a (a + str_len r) (byte_slice s a b) = s"
  by (rule boundary_range_split[OF assms]) simp

lemma str_len_splice:
  assumes "is_boundary s a" "is_boundary s b" "a \<le> b"
  shows "str_len (splice s a b r) = str_len s - (b - a) + str_len r"
  by (rule boundary_range_split[OF assms]) simp

lemma boundary_range_split3:
  assumes "is_boundary s a" "is_boundary s b" "is_boundary s c" "a \<le> b" "b \<le> c"
  obtains ws xs ys zs where "s = ws @ xs @ ys @ zs" and "a = str_len ws"
    and "b = str_len ws + str_len xs" and "c = str_len ws + str_len xs + str_len ys"
proof -
  obtain ws xs us where s: "s = ws @ xs @ us" "a = str_len ws" "b = str_len ws + str_len xs"
    by (rule boundary_range_split[OF assms(1,2,4)])
  have "is_boundary us (c - b)"
    using is_boundary_append_iff[of "ws @ xs" c us] assms(3,5) s by simp
  then obtain ys zs where "us = ys @ zs" "c - b = str_len ys" by (auto simp: is_boundary_split)
  with s assms(5) that[of ws xs ys zs] show ?thesis by simp
qed

lemma byte_slice_adjacent:
  assumes "is_boundary s a" "is_boundary s b" "is_boundary s c" "a \<le> b" "b \<le> c"
  shows "byte_slice s a b @ byte_slice s b c = byte_slice s a c"
proof -
  obtain ws xs ys zs where s: "s = ws @ xs @ ys @ zs" "a = str_len ws"
    "b = str_len ws + str_len xs" "c = str_len ws + str_len xs + str_len ys"
    by (rule boundary_range_split3[OF assms])
  have "byte_slice s b c = ys"
    using byte_slice_middle[of "ws @ xs" ys zs] s by simp
  moreover have "byte_slice s a c = xs @ ys"
    using byte_slice_middle[of ws "xs @ ys" zs] s by (simp add: add.assoc)
  ultimately show ?thesis using s by simp
qed

lemma is_boundary_splice_before:
  assumes "is_boundary s a" "is_boundary s b" "a \<le> b" "is_boundary s p" "p \<le> a"
  shows "is_boundary (splice s a b r) p"
proof -
  from assms(1-3) obtain xs ys zs where s: "s = xs @ ys @ zs" "a = str_len xs" "b = str_len xs + str_len ys"
    by (rule boundary_range_split)
  from assms(4) obtain k where k: "k \<le> length s" "p = char_to_byte s k" by (auto simp: is_boundary_iff)
  have "k \<le> length xs"
    using k assms(5) s char_to_byte_le_iff[of k s "length xs"] by simp
  then have "p = char_to_byte (xs @ r @ zs) k" "k \<le> length (xs @ r @ zs)"
    using k s by (simp_all add: char_to_byte_append)
  then show ?thesis unfolding is_boundary_iff s by auto
qed

lemma is_boundary_splice_after:
  assumes "is_boundary s a" "is_boundary s b" "a \<le> b" "is_boundary s p" "b \<le> p"
  shows "is_boundary (splice s a b r) (p - (b - a) + str_len r)"
proof -
  from assms(1-3) obtain xs ys zs where s: "s = xs @ ys @ zs" "a = str_len xs" "b = str_len xs + str_len ys"
    by (rule boundary_range_split)
  have "is_boundary zs (p - b)"
    using is_boundary_append_iff[of "xs @ ys" p zs] assms(4,5) s by (simp add: add.assoc)
  then have "is_boundary ((xs @ r) @ zs) (str_len (xs @ r) + (p - b))"
    by (subst is_boundary_append_iff) simp_all
  moreover have "str_len (xs @ r) + (p - b) = p - (b - a) + str_len r"
    using s assms(5) by simp
  ultimately have "is_boundary (xs @ r @ zs) (p - (b - a) + str_len r)"
    by (metis append_assoc)
  then show ?thesis by (simp only: s splice_middle)
qed

end
