(* ===== verification/Rope_Api.thy ===== *)
theory Rope_Api
  imports Utf8_Text
begin

text \<open>
  The two third-party crates the text layer stands on, as parameters: \<open>ropey\<close>
  (the rope under \<open>RopeBuffer\<close>) and \<open>unicode-segmentation\<close> (grapheme clusters and
  word boundaries).  Their sources are not in the repository, so nothing is
  defined for them: a record holds the functions the code calls, and a locale
  holds the documented behaviour the code relies on, relative to the sequence of
  chars a rope holds.  Each law is restricted to the arguments for which the
  crate documents a result (out of range the real functions panic), so every
  proof below also shows that the code never calls them out of range.

  The workspace builds \<open>ropey\<close> with \<open>default-features = false\<close>, without
  \<open>unicode_lines\<close> and \<open>cr_lines\<close> (\<open>src/Cargo.toml\<close>): its line index counts LF only.

  The last section instantiates both records with plain lists: this shows that
  the laws can hold, and it is what witnesses compute with.
\<close>

section \<open>Line feeds\<close>

definition LF :: uchar where "LF = 10"
definition CR :: uchar where "CR = 13"

lemma LF_neq_CR [simp]: "LF \<noteq> CR" "CR \<noteq> LF"
  by (simp_all add: LF_def CR_def)

definition count_lf :: "str \<Rightarrow> nat" where
  "count_lf s = length (filter (\<lambda>c. c = LF) s)"

text \<open>The char index after the \<open>l\<close>-th line feed.\<close>

fun after_lf :: "str \<Rightarrow> nat \<Rightarrow> nat" where
  "after_lf s 0 = 0"
| "after_lf [] (Suc l) = 0"
| "after_lf (c # cs) (Suc l) = Suc (if c = LF then after_lf cs l else after_lf cs (Suc l))"

lemma count_lf_simps [simp]:
  "count_lf [] = 0"
  "count_lf (c # cs) = (if c = LF then Suc (count_lf cs) else count_lf cs)"
  "count_lf (xs @ ys) = count_lf xs + count_lf ys"
  by (simp_all add: count_lf_def)

lemma after_lf_le: "after_lf s l \<le> length s"
  by (induction s l rule: after_lf.induct) auto

lemma count_lf_take_le: "count_lf (take k s) \<le> count_lf s"
  by (metis append_take_drop_id count_lf_simps(3) le_add1)

lemma count_lf_take_mono: "j \<le> k \<Longrightarrow> count_lf (take j s) \<le> count_lf (take k s)"
  by (metis count_lf_take_le min.absorb1 take_take)

lemma count_lf_take_after_lf: "l \<le> count_lf s \<Longrightarrow> count_lf (take (after_lf s l) s) = l"
  by (induction s l rule: after_lf.induct) auto

lemma after_lf_strict: "l < l' \<Longrightarrow> l' \<le> count_lf s \<Longrightarrow> after_lf s l < after_lf s l'"
proof -
  assume "l < l'" "l' \<le> count_lf s"
  then have "count_lf (take (after_lf s l) s) < count_lf (take (after_lf s l') s)"
    by (simp add: count_lf_take_after_lf)
  then show ?thesis
    by (metis count_lf_take_mono leD linorder_le_less_linear)
qed

lemma after_lf_mono: "l \<le> l' \<Longrightarrow> l' \<le> count_lf s \<Longrightarrow> after_lf s l \<le> after_lf s l'"
  by (metis after_lf_strict le_neq_implies_less less_imp_le_nat order_refl)

lemma after_lf_count_le: "k \<le> length s \<Longrightarrow> after_lf s (count_lf (take k s)) \<le> k"
proof (induction s arbitrary: k)
  case (Cons c cs)
  show ?case
  proof (cases k)
    case (Suc j)
    with Cons.prems have IH: "after_lf cs (count_lf (take j cs)) \<le> j" by (simp add: Cons.IH)
    show ?thesis
    proof (cases "c = LF")
      case True
      with Suc IH show ?thesis by simp
    next
      case False
      with Suc IH show ?thesis by (cases "count_lf (take j cs)") auto
    qed
  qed simp
qed simp

lemma count_lf_lt_after_lf:
  assumes "l < count_lf s" and "k < after_lf s (Suc l)"
  shows "count_lf (take k s) \<le> l"
proof (rule ccontr)
  assume "\<not> count_lf (take k s) \<le> l"
  then have gt: "Suc l \<le> count_lf (take k s)" by simp
  have "k \<le> length s" using assms(2) after_lf_le[of s "Suc l"] by simp
  then have "after_lf s (count_lf (take k s)) \<le> k" by (rule after_lf_count_le)
  moreover have "after_lf s (Suc l) \<le> after_lf s (count_lf (take k s))"
    using gt count_lf_take_le by (rule after_lf_mono)
  ultimately show False using assms(2) by simp
qed

section \<open>The rope crate\<close>

record 'r rope_api =
  rope_of_str :: "str \<Rightarrow> 'r"                       \<comment> \<open>\<open>Rope::from_str\<close>\<close>
  rope_build :: "str list \<Rightarrow> 'r"                   \<comment> \<open>\<open>RopeBuilder\<close>: \<open>append\<close> each, \<open>finish\<close>\<close>
  rope_str :: "'r \<Rightarrow> str"                           \<comment> \<open>\<open>to_string\<close>, \<open>chars\<close>\<close>
  rope_chunks :: "'r \<Rightarrow> str list"                   \<comment> \<open>\<open>chunks\<close>\<close>
  rope_chunk_at_byte :: "'r \<Rightarrow> nat \<Rightarrow> str \<times> nat"    \<comment> \<open>\<open>chunk_at_byte\<close>: chunk, its first byte\<close>
  rope_len_bytes :: "'r \<Rightarrow> nat"
  rope_len_chars :: "'r \<Rightarrow> nat"
  rope_byte_to_char :: "'r \<Rightarrow> nat \<Rightarrow> nat"
  rope_char_to_byte :: "'r \<Rightarrow> nat \<Rightarrow> nat"
  rope_slice :: "'r \<Rightarrow> nat \<Rightarrow> nat \<Rightarrow> str"          \<comment> \<open>\<open>slice(a..b)\<close>, read as text\<close>
  rope_remove :: "'r \<Rightarrow> nat \<Rightarrow> nat \<Rightarrow> 'r"
  rope_insert :: "'r \<Rightarrow> nat \<Rightarrow> str \<Rightarrow> 'r"
  rope_len_lines :: "'r \<Rightarrow> nat"
  rope_char_to_line :: "'r \<Rightarrow> nat \<Rightarrow> nat"
  rope_line_to_char :: "'r \<Rightarrow> nat \<Rightarrow> nat"

locale ropey =
  fixes R :: "('r, 'z) rope_api_scheme"
  assumes str_of [simp]: "rope_str R (rope_of_str R s) = s"
    and str_build [simp]: "rope_str R (rope_build R ss) = concat ss"
    and str_chunks [simp]: "concat (rope_chunks R r) = rope_str R r"
    and chunk_at_byte: "b \<le> str_len (rope_str R r) \<Longrightarrow> rope_chunk_at_byte R r b = (c, off) \<Longrightarrow>
      \<exists>pre post. rope_str R r = pre @ c @ post \<and> off = str_len pre \<and> off \<le> b \<and>
        (b < str_len (rope_str R r) \<longrightarrow> b < off + str_len c)"
    and len_bytes [simp]: "rope_len_bytes R r = str_len (rope_str R r)"
    and len_chars [simp]: "rope_len_chars R r = length (rope_str R r)"
    and byte_to_char [simp]: "b \<le> str_len (rope_str R r) \<Longrightarrow>
      rope_byte_to_char R r b = byte_to_char (rope_str R r) b"
    and char_to_byte [simp]: "k \<le> length (rope_str R r) \<Longrightarrow>
      rope_char_to_byte R r k = char_to_byte (rope_str R r) k"
    and slice [simp]: "a \<le> b \<Longrightarrow> b \<le> length (rope_str R r) \<Longrightarrow>
      rope_slice R r a b = take (b - a) (drop a (rope_str R r))"
    and remove [simp]: "a \<le> b \<Longrightarrow> b \<le> length (rope_str R r) \<Longrightarrow>
      rope_str R (rope_remove R r a b) = take a (rope_str R r) @ drop b (rope_str R r)"
    and insert [simp]: "k \<le> length (rope_str R r) \<Longrightarrow>
      rope_str R (rope_insert R r k s) = take k (rope_str R r) @ s @ drop k (rope_str R r)"
    and len_lines [simp]: "rope_len_lines R r = Suc (count_lf (rope_str R r))"
    and char_to_line [simp]: "k \<le> length (rope_str R r) \<Longrightarrow>
      rope_char_to_line R r k = count_lf (take k (rope_str R r))"
    and line_to_char [simp]: "l \<le> count_lf (rope_str R r) \<Longrightarrow>
      rope_line_to_char R r l = after_lf (rope_str R r) l"

section \<open>The segmentation crate and Unicode tables\<close>

text \<open>
  \<open>graphemes(true)\<close> and \<open>split_word_bounds\<close> cut a string into non-empty consecutive
  pieces.  \<open>char::is_alphanumeric\<close> and \<open>char::to_lowercase\<close> are table lookups of
  the standard library; nothing about the tables is used.
\<close>

record 'r text_env = "'r rope_api" +
  graphemes :: "str \<Rightarrow> str list"
  word_bounds :: "str \<Rightarrow> str list"
  is_alphanumeric :: "uchar \<Rightarrow> bool"
  to_lowercase :: "uchar \<Rightarrow> str"

locale text_segments = ropey R
  for R :: "('r, 'z) text_env_scheme" +
  assumes graphemes_concat [simp]: "concat (graphemes R s) = s"
    and graphemes_nonempty: "g \<in> set (graphemes R s) \<Longrightarrow> g \<noteq> []"
    and word_bounds_concat [simp]: "concat (word_bounds R s) = s"
    and word_bounds_nonempty: "g \<in> set (word_bounds R s) \<Longrightarrow> g \<noteq> []"

section \<open>The list instance\<close>

definition list_rope :: "str text_env" where
  "list_rope =
     \<lparr> rope_of_str = (\<lambda>s. s), rope_build = concat, rope_str = (\<lambda>r. r), rope_chunks = (\<lambda>r. [r]),
       rope_chunk_at_byte = (\<lambda>r b. (r, 0)), rope_len_bytes = str_len, rope_len_chars = length,
       rope_byte_to_char = byte_to_char, rope_char_to_byte = char_to_byte,
       rope_slice = (\<lambda>r a b. take (b - a) (drop a r)),
       rope_remove = (\<lambda>r a b. take a r @ drop b r),
       rope_insert = (\<lambda>r k s. take k r @ s @ drop k r),
       rope_len_lines = (\<lambda>r. Suc (count_lf r)), rope_char_to_line = (\<lambda>r k. count_lf (take k r)),
       rope_line_to_char = after_lf,
       graphemes = map (\<lambda>c. [c]), word_bounds = map (\<lambda>c. [c]),
       is_alphanumeric = (\<lambda>c. 48 \<le> c \<and> c \<le> 57 \<or> 65 \<le> c \<and> c \<le> 90 \<or> 97 \<le> c \<and> c \<le> 122),
       to_lowercase = (\<lambda>c. [if 65 \<le> c \<and> c \<le> 90 then c + 32 else c]) \<rparr>"

lemma concat_singletons [simp]: "concat (map (\<lambda>c. [c]) s) = s"
  by (induction s) auto

interpretation list_rope: text_segments list_rope
  by unfold_locales (auto simp: list_rope_def)

end
