(* ===== verification/Line_Mirror.thy ===== *)
theory Line_Mirror
  imports Rope_Api
begin

text \<open>
  The line-ending mirror of \<open>crates/document/src/lib.rs\<close> (lines 274-317): the byte
  loop \<open>mirror_bare_cr\<close>, its reading on chars, and the chunked construction.  The
  lemmas show that the byte loop never breaks an encoding, that cutting a text
  into chunks does not change the result, and how the mirror of a text changes
  when a piece of it is replaced (the reasoning behind \<open>RopeBuffer::edit\<close>).
\<close>

section \<open>The code\<close>

text \<open>The loop of \<open>mirror_bare_cr\<close> over the bytes of its argument.\<close>

definition mirror_bytes :: "nat list \<Rightarrow> bool \<Rightarrow> nat list" where
  "mirror_bytes bytes trailing_is_lf =
     map (\<lambda>i. if bytes ! i = 13 \<and>
                 \<not> (case get bytes (i + 1) of Some next \<Rightarrow> next = 10 | None \<Rightarrow> trailing_is_lf)
              then 10 else bytes ! i)
       [0..<length bytes]"

text \<open>The same on the chars of the string; \<open>as_bytes_mirror_bare_cr\<close> relates the two.\<close>

fun mirror_bare_cr :: "str \<Rightarrow> bool \<Rightarrow> str" where
  "mirror_bare_cr [] t = []"
| "mirror_bare_cr (c # cs) t =
     (if c = CR \<and> \<not> (case cs of [] \<Rightarrow> t | d # _ \<Rightarrow> d = LF) then LF else c) # mirror_bare_cr cs t"

text \<open>\<open>find_map(|later| later.chars().next())\<close>.\<close>

fun first_char :: "str list \<Rightarrow> uchar option" where
  "first_char [] = None"
| "first_char ([] # ss) = first_char ss"
| "first_char ((c # cs) # ss) = Some c"

fun mirror_chunks :: "str list \<Rightarrow> str list" where
  "mirror_chunks [] = []"
| "mirror_chunks (c # cs) = mirror_bare_cr c (first_char cs = Some LF) # mirror_chunks cs"

definition build_line_mirror :: "('r, 'z) rope_api_scheme \<Rightarrow> 'r \<Rightarrow> 'r" where
  "build_line_mirror R r = rope_build R (mirror_chunks (rope_chunks R r))"

section \<open>Bytes and chars\<close>

lemma mirror_bytes_simps [simp]:
  "mirror_bytes [] t = []"
  "mirror_bytes (b # bs) t =
     (if b = 13 \<and> \<not> (case bs of [] \<Rightarrow> t | d # _ \<Rightarrow> d = 10) then 10 else b) # mirror_bytes bs t"
proof -
  show "mirror_bytes [] t = []" by (simp add: mirror_bytes_def)
  have "[0..<length (b # bs)] = 0 # map Suc [0..<length bs]"
    by (simp add: upt_conv_Cons map_Suc_upt del: upt_Suc)
  then show "mirror_bytes (b # bs) t =
     (if b = 13 \<and> \<not> (case bs of [] \<Rightarrow> t | d # _ \<Rightarrow> d = 10) then 10 else b) # mirror_bytes bs t"
    by (cases bs) (simp_all add: mirror_bytes_def comp_def del: upt_Suc)
qed

lemma encode_char_bytes: "b \<in> set (encode_char c) \<Longrightarrow> b < 128 \<Longrightarrow> encode_char c = [c] \<and> b = c"
  by (auto simp: encode_char_def split: if_splits)

lemma encode_char_nonempty [simp]: "encode_char c \<noteq> []"
  by (simp add: encode_char_def)

lemma hd_encode_char_LF: "hd (encode_char c) = 10 \<longleftrightarrow> c = LF"
  by (auto simp: encode_char_def LF_def)

lemma mirror_bytes_append_high:
  "\<forall>b \<in> set bs. b \<noteq> 13 \<Longrightarrow> mirror_bytes (bs @ cs) t = bs @ mirror_bytes cs t"
  by (induction bs) auto

lemma as_bytes_mirror: "as_bytes (mirror_bare_cr s t) = mirror_bytes (as_bytes s) t"
proof (induction s)
  case (Cons c cs)
  have hd_eq: "(case as_bytes cs of [] \<Rightarrow> t | d # _ \<Rightarrow> d = 10) = (case cs of [] \<Rightarrow> t | d # _ \<Rightarrow> d = LF)"
  proof (cases cs)
    case (Cons d ds)
    obtain x xs where x: "encode_char d = x # xs" by (cases "encode_char d") auto
    then have "(x = 10) = (d = LF)" using hd_encode_char_LF[of d] by simp
    then show ?thesis using Cons x by simp
  qed simp
  show ?case
  proof (cases "c = CR")
    case True
    then have "encode_char c = [13]" "encode_char LF = [10]" by (simp_all add: encode_char_def CR_def LF_def)
    then show ?thesis using True hd_eq Cons.IH by simp
  next
    case False
    have "\<forall>b \<in> set (encode_char c). b \<noteq> 13"
      using False encode_char_bytes[of 13 c] by (auto simp: CR_def)
    then show ?thesis using False Cons.IH by (simp add: mirror_bytes_append_high)
  qed
qed simp

section \<open>Shape of the mirror\<close>

lemma length_mirror [simp]: "length (mirror_bare_cr s t) = length s"
  by (induction s) auto

lemma mirror_eq_Nil [simp]: "mirror_bare_cr s t = [] \<longleftrightarrow> s = []"
  by (cases s) auto

lemma len_utf8_LF_CR [simp]: "len_utf8 LF = 1" "len_utf8 CR = 1"
  by (simp_all add: len_utf8_def LF_def CR_def)

lemma str_len_mirror [simp]: "str_len (mirror_bare_cr s t) = str_len s"
  by (induction s) auto

lemma mirror_append:
  "mirror_bare_cr (xs @ ys) t =
     mirror_bare_cr xs (case ys of [] \<Rightarrow> t | d # _ \<Rightarrow> d = LF) @ mirror_bare_cr ys t"
  by (induction xs) (auto split: list.splits)

lemma mirror_snoc:
  "mirror_bare_cr (xs @ [c]) t =
     mirror_bare_cr xs (c = LF) @ [if c = CR \<and> \<not> t then LF else c]"
  by (simp add: mirror_append)

text \<open>Only a trailing CR looks at what follows.\<close>

lemma mirror_flag_irrelevant:
  "xs = [] \<or> last xs \<noteq> CR \<Longrightarrow> mirror_bare_cr xs t = mirror_bare_cr xs u"
proof (induction xs)
  case (Cons c cs)
  then show ?case by (cases cs) auto
qed simp

lemma first_char_concat: "first_char ss = (case concat ss of [] \<Rightarrow> None | c # _ \<Rightarrow> Some c)"
  by (induction ss rule: first_char.induct) auto

lemma concat_mirror_chunks: "concat (mirror_chunks ss) = mirror_bare_cr (concat ss) False"
proof (induction ss)
  case (Cons c cs)
  have "(first_char cs = Some LF) = (case concat cs of [] \<Rightarrow> False | d # _ \<Rightarrow> d = LF)"
    by (cases "concat cs") (simp_all add: first_char_concat del: concat_eq_Nil_conv)
  then show ?case using Cons by (simp add: mirror_append)
qed simp

context ropey
begin

lemma str_build_line_mirror [simp]:
  "rope_str R (build_line_mirror R r) = mirror_bare_cr (rope_str R r) False"
  by (simp add: build_line_mirror_def concat_mirror_chunks)

end

section \<open>Replacing a piece\<close>

text \<open>
  With \<open>zs\<close> after the edit and \<open>xs\<close> before it, the mirror of the new text is the
  old mirror of \<open>xs\<close> with its last char reclassified, the mirror of the inserted
  text, and the old mirror of \<open>zs\<close>.
\<close>

definition next_is_lf :: "str \<Rightarrow> bool" where
  "next_is_lf s \<longleftrightarrow> first_of s = Some LF"

lemma next_is_lf_simps [simp]:
  "next_is_lf [] = False" "next_is_lf (c # cs) = (c = LF)"
  "next_is_lf (xs @ ys) = (if xs = [] then next_is_lf ys else next_is_lf xs)"
  by (auto simp: next_is_lf_def first_of_def split: list.splits)

lemma mirror_append': "mirror_bare_cr (xs @ ys) False = mirror_bare_cr xs (next_is_lf ys) @ mirror_bare_cr ys False"
  by (simp add: mirror_append next_is_lf_def first_of_def split: list.splits)

lemma mirror_append_flag:
  "mirror_bare_cr (ys @ zs) t = mirror_bare_cr ys (if zs = [] then t else next_is_lf zs) @ mirror_bare_cr zs t"
  by (auto simp: mirror_append next_is_lf_def first_of_def split: list.splits)

lemma mirror_reclassify:
  "mirror_bare_cr (xs @ [CR]) t = mirror_bare_cr xs False @ [if t then CR else LF]"
  by (simp add: mirror_snoc)

lemma mirror_middle:
  "mirror_bare_cr (xs @ ys @ zs) False =
     mirror_bare_cr xs (next_is_lf (ys @ zs)) @ mirror_bare_cr ys (next_is_lf zs) @ mirror_bare_cr zs False"
  by (simp only: mirror_append')

lemma char_to_byte_mirror: "char_to_byte (mirror_bare_cr s t) k = char_to_byte s k"
proof (induction s arbitrary: k)
  case (Cons c cs)
  then show ?case by (cases k) (auto simp: len_utf8_def LF_def CR_def)
qed simp

lemma is_boundary_mirror: "is_boundary (mirror_bare_cr s t) = is_boundary s"
  by (rule ext) (simp add: is_boundary_iff char_to_byte_mirror)

end
