(* ===== verification/Document_Types.thy ===== *)
theory Document_Types
  imports Utf8_Text
begin

text \<open>
  The value types of \<open>crates/document/src/lib.rs\<close> (lines 9-154): offsets, ranges,
  anchors, errors, revision deltas and edit summaries, with the delta arithmetic
  that carries an offset across an edit.  The newtypes \<open>SourceOffset\<close>,
  \<open>ByteLen\<close>, \<open>CharLen\<close>, \<open>LineId\<close>, \<open>LineCol\<close> and \<open>Revision\<close> are \<open>nat\<close>.
\<close>

record source_range =
  range_start :: nat
  range_end :: nat

definition source_range_new :: "nat \<Rightarrow> nat \<Rightarrow> source_range" where
  "source_range_new a b = \<lparr>range_start = a, range_end = b\<rparr>"

definition range_empty_at :: "nat \<Rightarrow> source_range" where
  "range_empty_at a = source_range_new a a"

text \<open>\<open>len_bytes\<close> is called on ranges with \<open>start \<le> end\<close> only (a \<open>usize\<close> subtraction).\<close>

definition range_len :: "source_range \<Rightarrow> nat" where
  "range_len r = range_end r - range_start r"

definition range_is_empty :: "source_range \<Rightarrow> bool" where
  "range_is_empty r \<longleftrightarrow> range_start r = range_end r"

definition intersects :: "source_range \<Rightarrow> source_range \<Rightarrow> bool" where
  "intersects r o' \<longleftrightarrow> range_start r < range_end o' \<and> range_start o' < range_end r"

lemma source_range_new_simps [simp]:
  "range_start (source_range_new a b) = a" "range_end (source_range_new a b) = b"
  by (simp_all add: source_range_new_def)

lemma source_range_new_eq [simp]: "source_range_new (range_start r) (range_end r) = r"
  by (simp add: source_range_new_def)

lemma source_range_eq_iff: "r = s \<longleftrightarrow> range_start r = range_start s \<and> range_end r = range_end s"
  for r s :: source_range
  by auto

datatype bias = Before | After

record anchor =
  anchor_offset :: nat
  anchor_bias :: bias

datatype buffer_error =
    OffsetOutOfBounds nat nat
  | RangeOutOfBounds source_range nat
  | InvalidRange source_range
  | NotCharBoundary nat
  | InvalidLineColumn nat nat
  | RevisionHistoryUnavailable nat nat

record inverse_edit =
  inverse_range :: source_range
  inverse_replacement :: str

record revision_delta =
  from_revision :: nat
  to_revision :: nat
  edited_before :: source_range
  edited_after :: source_range
  byte_delta :: int

definition transform_offset :: "revision_delta \<Rightarrow> nat \<Rightarrow> bias \<Rightarrow> nat option" where
  "transform_offset d off bias =
     (let before = edited_before d in
      if off < range_start before \<or> (off = range_start before \<and> bias = Before) then Some off
      else if off > range_end before \<or> (off = range_end before \<and> \<not> range_is_empty before)
      then checked_add_signed off (byte_delta d)
      else Some (case bias of Before \<Rightarrow> range_start (edited_after d)
                            | After \<Rightarrow> range_end (edited_after d)))"

definition transform_range :: "revision_delta \<Rightarrow> source_range \<Rightarrow> source_range option" where
  "transform_range d r =
     (if intersects r (edited_before d) then None
      else Option.bind (transform_offset d (range_start r) Before) (\<lambda>a.
           Option.bind (transform_offset d (range_end r) After) (\<lambda>b.
           Some (source_range_new a b))))"

record edit_summary =
  revision_before :: nat
  revision_after :: nat
  range_before :: source_range
  range_after :: source_range
  inserted_bytes :: nat
  deleted_bytes :: nat
  edit_inverse :: inverse_edit
  edit_delta :: revision_delta

section \<open>Deltas that come from an edit\<close>

text \<open>
  The delta of replacing bytes \<open>a..b\<close> by \<open>n\<close> bytes; every delta a buffer records
  has this shape (\<open>Rope_Buffer\<close>).
\<close>

definition delta_of :: "nat \<Rightarrow> source_range \<Rightarrow> nat \<Rightarrow> revision_delta" where
  "delta_of rv r n =
     \<lparr>from_revision = rv, to_revision = rv + 1, edited_before = r,
      edited_after = source_range_new (range_start r) (range_start r + n),
      byte_delta = int n - int (range_len r)\<rparr>"

lemma delta_of_simps [simp]:
  "from_revision (delta_of rv r n) = rv" "to_revision (delta_of rv r n) = Suc rv"
  "edited_before (delta_of rv r n) = r"
  "edited_after (delta_of rv r n) = source_range_new (range_start r) (range_start r + n)"
  "byte_delta (delta_of rv r n) = int n - int (range_len r)"
  by (simp_all add: delta_of_def)

text \<open>
  Where an offset lands: before the edit it stays, after it it shifts by the
  byte difference, inside it goes to the end its bias names.
\<close>

lemma transform_offset_before:
  "p < range_start r \<or> (p = range_start r \<and> bs = Before) \<Longrightarrow>
   transform_offset (delta_of rv r n) p bs = Some p"
  by (auto simp: transform_offset_def Let_def)

lemma transform_offset_after:
  assumes "range_start r \<le> range_end r"
    and "range_end r < p \<or> (p = range_end r \<and> range_start r < range_end r)"
    and "p - range_len r + n < u64_bound"
  shows "transform_offset (delta_of rv r n) p bs = Some (p - range_len r + n)"
proof -
  have le: "range_len r \<le> p" using assms(2) by (auto simp: range_len_def)
  have "checked_add_signed p (int n - int (range_len r)) = Some (p - range_len r + n)"
    unfolding checked_add_signed_def using assms(3) le by (simp add: nat_eq_iff of_nat_diff)
  moreover have "\<not> (p < range_start r \<or> p = range_start r \<and> bs = Before)"
    using assms(1,2) by linarith
  moreover have "range_end r < p \<or> (p = range_end r \<and> \<not> range_is_empty r)"
    using assms(2) by (auto simp: range_is_empty_def)
  ultimately show ?thesis
    unfolding transform_offset_def Let_def delta_of_simps by (simp only: if_True if_False)
qed

lemma transform_offset_inside:
  assumes "range_start r \<le> p" "p \<le> range_end r"
    and "p = range_start r \<Longrightarrow> bs = After" and "p = range_end r \<Longrightarrow> range_start r = range_end r"
  shows "transform_offset (delta_of rv r n) p bs =
    Some (case bs of Before \<Rightarrow> range_start r | After \<Rightarrow> range_start r + n)"
  using assms by (cases bs) (auto simp: transform_offset_def Let_def range_is_empty_def)

end
