(* ===== verification/Rope_Buffer.thy ===== *)
theory Rope_Buffer
  imports Line_Mirror Document_Types
begin

text \<open>
  \<open>RopeBuffer\<close> and its \<open>TextBuffer\<close> implementation
  (\<open>crates/document/src/lib.rs\<close>, lines 219-674), one definition per method.  The
  rope operations come from the parameter \<open>R\<close> (\<open>Rope_Api\<close>).  A method on
  \<open>&self\<close> is a function of the buffer; \<open>edit\<close> returns the buffer as well.
\<close>

section \<open>State\<close>

record 'r rope_buffer =
  rope :: 'r
  line_mirror :: 'r
  buf_revision :: nat
  buf_deltas :: "revision_delta list"
  delta_capacity :: nat

definition char_at :: "('r, 'z) rope_api_scheme \<Rightarrow> 'r \<Rightarrow> nat \<Rightarrow> uchar option" where
  "char_at R r k =
     (if k < rope_len_chars R r then get (rope_slice R r k (k + 1)) 0 else None)"

definition from_rope :: "('r, 'z) rope_api_scheme \<Rightarrow> 'r \<Rightarrow> 'r rope_buffer" where
  "from_rope R r =
     \<lparr>rope = r, line_mirror = build_line_mirror R r, buf_revision = 0, buf_deltas = [],
      delta_capacity = 4096\<rparr>"

definition from_text :: "('r, 'z) rope_api_scheme \<Rightarrow> str \<Rightarrow> 'r rope_buffer" where
  "from_text R s = from_rope R (rope_of_str R s)"

definition full_text :: "('r, 'z) rope_api_scheme \<Rightarrow> 'r rope_buffer \<Rightarrow> str" where
  "full_text R b = rope_str R (rope b)"

definition line_count :: "('r, 'z) rope_api_scheme \<Rightarrow> 'r rope_buffer \<Rightarrow> nat" where
  "line_count R b = rope_len_lines R (line_mirror b)"

definition len_bytes :: "('r, 'z) rope_api_scheme \<Rightarrow> 'r rope_buffer \<Rightarrow> nat" where
  "len_bytes R b = rope_len_bytes R (rope b)"

definition len_chars :: "('r, 'z) rope_api_scheme \<Rightarrow> 'r rope_buffer \<Rightarrow> nat" where
  "len_chars R b = rope_len_chars R (rope b)"

section \<open>Validation\<close>

definition is_char_boundary :: "('r, 'z) rope_api_scheme \<Rightarrow> 'r rope_buffer \<Rightarrow> nat \<Rightarrow> bool" where
  "is_char_boundary R b byte =
     (if byte = rope_len_bytes R (rope b) then True
      else rope_char_to_byte R (rope b) (rope_byte_to_char R (rope b) byte) = byte)"

definition validate_offset ::
  "('r, 'z) rope_api_scheme \<Rightarrow> 'r rope_buffer \<Rightarrow> nat \<Rightarrow> (buffer_error, unit) res" where
  "validate_offset R b off =
     (if off > rope_len_bytes R (rope b) then Err (OffsetOutOfBounds off (len_bytes R b))
      else if \<not> is_char_boundary R b off then Err (NotCharBoundary off)
      else Ok ())"

definition validate_range ::
  "('r, 'z) rope_api_scheme \<Rightarrow> 'r rope_buffer \<Rightarrow> source_range \<Rightarrow> (buffer_error, unit) res" where
  "validate_range R b rg =
     (if range_start rg > range_end rg then Err (InvalidRange rg)
      else if range_end rg > rope_len_bytes R (rope b)
      then Err (RangeOutOfBounds rg (len_bytes R b))
      else res_bind (validate_offset R b (range_start rg)) (\<lambda>_.
           validate_offset R b (range_end rg)))"

definition buf_byte_to_char ::
  "('r, 'z) rope_api_scheme \<Rightarrow> 'r rope_buffer \<Rightarrow> nat \<Rightarrow> (buffer_error, nat) res" where
  "buf_byte_to_char R b off =
     res_bind (validate_offset R b off) (\<lambda>_. Ok (rope_byte_to_char R (rope b) off))"

definition buf_slice ::
  "('r, 'z) rope_api_scheme \<Rightarrow> 'r rope_buffer \<Rightarrow> source_range \<Rightarrow> (buffer_error, str) res" where
  "buf_slice R b rg =
     res_bind (buf_byte_to_char R b (range_start rg)) (\<lambda>start.
     res_bind (buf_byte_to_char R b (range_end rg)) (\<lambda>end'.
       if start > end' then Err (InvalidRange rg) else Ok (rope_slice R (rope b) start end')))"

definition buf_text ::
  "('r, 'z) rope_api_scheme \<Rightarrow> 'r rope_buffer \<Rightarrow> source_range \<Rightarrow> (buffer_error, str) res" where
  "buf_text R b rg = buf_slice R b rg"

definition slice_len_chars ::
  "('r, 'z) rope_api_scheme \<Rightarrow> 'r rope_buffer \<Rightarrow> source_range \<Rightarrow> (buffer_error, nat) res" where
  "slice_len_chars R b rg = res_map length (buf_slice R b rg)"

section \<open>Editing\<close>

text \<open>
  The CR just before the edit whose classification the edit changes, with the
  char its mirror position must now hold.
\<close>

definition left_reclassification ::
  "('r, 'z) rope_api_scheme \<Rightarrow> 'r rope_buffer \<Rightarrow> nat \<Rightarrow> str \<Rightarrow> bool \<Rightarrow> (nat \<times> uchar) option" where
  "left_reclassification R b start_char replacement trailing_is_lf =
     (case checked_sub start_char 1 of
        None \<Rightarrow> None
      | Some left \<Rightarrow>
          if char_at R (rope b) left = Some CR then
            (let now_paired = (if replacement = [] then trailing_is_lf
                               else first_of replacement = Some LF);
                 desired = (if now_paired then CR else LF)
             in if char_at R (line_mirror b) left \<noteq> Some desired
                then Some (left, desired) else None)
          else None)"

definition edit_mirror ::
  "('r, 'z) rope_api_scheme \<Rightarrow> 'r rope_buffer \<Rightarrow> nat \<Rightarrow> nat \<Rightarrow> str \<Rightarrow> 'r" where
  "edit_mirror R b start_char end_char replacement =
     (let trailing_is_lf = (char_at R (rope b) end_char = Some LF);
          mirrored = mirror_bare_cr replacement trailing_is_lf;
          m1 = rope_remove R (line_mirror b) start_char end_char;
          m2 = rope_insert R m1 start_char mirrored
      in case left_reclassification R b start_char replacement trailing_is_lf of
           None \<Rightarrow> m2
         | Some (left, desired) \<Rightarrow> rope_insert R (rope_remove R m2 left (left + 1)) left [desired])"

definition push_delta :: "'r rope_buffer \<Rightarrow> revision_delta \<Rightarrow> 'r rope_buffer" where
  "push_delta b d =
     (let ds = buf_deltas b @ [d]
      in b\<lparr>buf_deltas := (if length ds > delta_capacity b then tl ds else ds)\<rparr>)"

text \<open>The revision is a \<open>u64\<close>: \<open>checked_add(1).expect(..)\<close> panics at the bound.\<close>

definition buf_edit ::
  "('r, 'z) rope_api_scheme \<Rightarrow> source_range \<Rightarrow> str \<Rightarrow>
   ('r rope_buffer, buffer_error, edit_summary) step" where
  "buf_edit R rg replacement b =
     step_bind (validate_range R b rg, b) (\<lambda>_ b.
     let start_char = rope_byte_to_char R (rope b) (range_start rg);
         end_char = rope_byte_to_char R (rope b) (range_end rg);
         deleted = rope_slice R (rope b) start_char end_char;
         before = buf_revision b;
         r1 = rope_insert R (rope_remove R (rope b) start_char end_char) start_char replacement;
         b1 = b\<lparr>rope := r1, line_mirror := edit_mirror R b start_char end_char replacement\<rparr>
     in case checked_add before 1 of
          None \<Rightarrow> (Panic, b1)
        | Some rv \<Rightarrow>
            let after = source_range_new (range_start rg) (range_start rg + str_len replacement);
                delta = \<lparr>from_revision = before, to_revision = rv, edited_before = rg,
                         edited_after = after,
                         byte_delta = int (str_len replacement) - int (range_len rg)\<rparr>
            in (Ok \<lparr>revision_before = before, revision_after = rv, range_before = rg,
                    range_after = after, inserted_bytes = str_len replacement,
                    deleted_bytes = str_len deleted,
                    edit_inverse = \<lparr>inverse_range = after, inverse_replacement = deleted\<rparr>,
                    edit_delta = delta\<rparr>,
                push_delta (b1\<lparr>buf_revision := rv\<rparr>) delta))"

section \<open>Lines\<close>

definition line_for_offset ::
  "('r, 'z) rope_api_scheme \<Rightarrow> 'r rope_buffer \<Rightarrow> nat \<Rightarrow> (buffer_error, nat) res" where
  "line_for_offset R b off =
     res_bind (buf_byte_to_char R b off) (\<lambda>k. Ok (rope_char_to_line R (line_mirror b) k))"

definition line_range ::
  "('r, 'z) rope_api_scheme \<Rightarrow> 'r rope_buffer \<Rightarrow> nat \<Rightarrow> (buffer_error, source_range) res" where
  "line_range R b line =
     (if line \<ge> rope_len_lines R (line_mirror b) then Err (InvalidLineColumn line 0)
      else
        let start_char = rope_line_to_char R (line_mirror b) line;
            end_char = (if line + 1 < rope_len_lines R (line_mirror b)
                        then rope_line_to_char R (line_mirror b) (line + 1)
                        else rope_len_chars R (line_mirror b))
        in Ok (source_range_new (rope_char_to_byte R (rope b) start_char)
                                (rope_char_to_byte R (rope b) end_char)))"

definition trim_line_ending ::
  "('r, 'z) rope_api_scheme \<Rightarrow> 'r rope_buffer \<Rightarrow> nat \<Rightarrow> nat \<Rightarrow> nat" where
  "trim_line_ending R b start_char n =
     (if n > 0 then
        (case char_at R (rope b) (start_char + n - 1) of
           Some c \<Rightarrow>
             if c = LF then
               (if n - 1 > 0 \<and> char_at R (rope b) (start_char + (n - 1) - 1) = Some CR
                then n - 2 else n - 1)
             else if c = CR then n - 1
             else n
         | None \<Rightarrow> n)
      else n)"

definition line_content_range ::
  "('r, 'z) rope_api_scheme \<Rightarrow> 'r rope_buffer \<Rightarrow> nat \<Rightarrow> (buffer_error, source_range) res" where
  "line_content_range R b line =
     res_bind (line_range R b line) (\<lambda>rg.
     let start_char = rope_byte_to_char R (rope b) (range_start rg);
         n = rope_byte_to_char R (rope b) (range_end rg) - start_char
     in Ok (source_range_new (range_start rg)
              (rope_char_to_byte R (rope b) (start_char + trim_line_ending R b start_char n))))"

definition offset_for_line_col ::
  "('r, 'z) rope_api_scheme \<Rightarrow> 'r rope_buffer \<Rightarrow> nat \<Rightarrow> nat \<Rightarrow> (buffer_error, nat) res" where
  "offset_for_line_col R b line col =
     res_bind (line_content_range R b line) (\<lambda>rg.
     let start_char = rope_byte_to_char R (rope b) (range_start rg);
         content_chars = rope_byte_to_char R (rope b) (range_end rg) - start_char
     in if col > content_chars then Err (InvalidLineColumn line col)
        else Ok (rope_char_to_byte R (rope b) (start_char + col)))"

section \<open>UTF-16\<close>

definition byte_to_utf16 ::
  "('r, 'z) rope_api_scheme \<Rightarrow> 'r rope_buffer \<Rightarrow> nat \<Rightarrow> (buffer_error, nat) res" where
  "byte_to_utf16 R b off =
     res_bind (buf_byte_to_char R b off) (\<lambda>k. Ok (utf16_len (rope_slice R (rope b) 0 k)))"

fun utf16_to_byte_loop :: "str \<Rightarrow> nat \<Rightarrow> nat \<Rightarrow> nat \<Rightarrow> nat" where
  "utf16_to_byte_loop [] off utf16 bytes = bytes"
| "utf16_to_byte_loop (ch # cs) off utf16 bytes =
     (if utf16 \<ge> off \<or> off < utf16 + len_utf16 ch then bytes
      else utf16_to_byte_loop cs off (utf16 + len_utf16 ch) (bytes + len_utf8 ch))"

definition utf16_to_byte :: "('r, 'z) rope_api_scheme \<Rightarrow> 'r rope_buffer \<Rightarrow> nat \<Rightarrow> nat" where
  "utf16_to_byte R b off = utf16_to_byte_loop (rope_str R (rope b)) off 0 0"

section \<open>Anchors and history\<close>

definition make_anchor ::
  "('r, 'z) rope_api_scheme \<Rightarrow> 'r rope_buffer \<Rightarrow> nat \<Rightarrow> bias \<Rightarrow> (buffer_error, anchor) res" where
  "make_anchor R b off bs =
     res_bind (validate_offset R b off) (\<lambda>_. Ok \<lparr>anchor_offset = off, anchor_bias = bs\<rparr>)"

definition deltas_since :: "'r rope_buffer \<Rightarrow> nat \<Rightarrow> (buffer_error, revision_delta list) res" where
  "deltas_since b rv =
     (if rv = buf_revision b then Ok []
      else
        let gone = Err (RevisionHistoryUnavailable rv (buf_revision b)) in
        (case map_option from_revision (first_of (buf_deltas b)) of
           None \<Rightarrow> gone
         | Some fst_rev \<Rightarrow>
             if rv < fst_rev \<or> rv > buf_revision b then gone
             else
               let result = filter (\<lambda>d. from_revision d \<ge> rv) (buf_deltas b) in
               if map_option from_revision (first_of result) \<noteq> Some rv
                  \<or> map_option to_revision (last_of result) \<noteq> Some (buf_revision b)
               then gone
               else Ok result))"

fun transform_all :: "revision_delta list \<Rightarrow> nat \<Rightarrow> bias \<Rightarrow> nat option" where
  "transform_all [] off bs = Some off"
| "transform_all (d # ds) off bs =
     (case transform_offset d off bs of None \<Rightarrow> None | Some off' \<Rightarrow> transform_all ds off' bs)"

definition resolve_anchor ::
  "('r, 'z) rope_api_scheme \<Rightarrow> 'r rope_buffer \<Rightarrow> anchor \<Rightarrow> nat \<Rightarrow> (buffer_error, nat) res" where
  "resolve_anchor R b a from =
     (if from = buf_revision b then
        res_bind (validate_offset R b (anchor_offset a)) (\<lambda>_. Ok (anchor_offset a))
      else
        res_bind (deltas_since b from) (\<lambda>ds.
        res_bind (ok_or (RevisionHistoryUnavailable from (buf_revision b))
                        (transform_all ds (anchor_offset a) (anchor_bias a))) (\<lambda>off.
        res_bind (validate_offset R b off) (\<lambda>_. Ok off))))"

end
