(* ===== verification/Buffer_Facts.thy ===== *)
theory Buffer_Facts
  imports Rope_Buffer
begin

text \<open>
  The abstract reading of \<open>RopeBuffer\<close>.  The buffer stands for its text; every
  method is characterised by what it does to that text (byte positions, splices
  and line feeds of the mirror), for any rope that keeps the laws of \<open>ropey\<close>.
  The invariant says that the line mirror is the mirror of the text and that the
  recorded deltas are consecutive revisions ending at the current one.
\<close>

section \<open>Invariant\<close>

fun delta_chain :: "nat \<Rightarrow> revision_delta list \<Rightarrow> nat \<Rightarrow> bool" where
  "delta_chain a [] z \<longleftrightarrow> a = z"
| "delta_chain a (d # ds) z \<longleftrightarrow>
     from_revision d = a \<and> to_revision d = Suc a \<and> delta_chain (Suc a) ds z"

definition history_inv :: "'r rope_buffer \<Rightarrow> bool" where
  "history_inv b \<longleftrightarrow>
     0 < delta_capacity b \<and> length (buf_deltas b) \<le> delta_capacity b \<and>
     length (buf_deltas b) \<le> buf_revision b \<and>
     delta_chain (buf_revision b - length (buf_deltas b)) (buf_deltas b) (buf_revision b)"

definition buffer_inv :: "('r, 'z) rope_api_scheme \<Rightarrow> 'r rope_buffer \<Rightarrow> bool" where
  "buffer_inv R b \<longleftrightarrow>
     rope_str R (line_mirror b) = mirror_bare_cr (full_text R b) False \<and> history_inv b"

lemma delta_chain_length: "delta_chain a ds z \<Longrightarrow> z = a + length ds"
  by (induction a ds z rule: delta_chain.induct) auto

lemma delta_chain_snoc:
  "delta_chain a (ds @ [d]) z \<longleftrightarrow>
     (\<exists>y. delta_chain a ds y \<and> from_revision d = y \<and> to_revision d = Suc y \<and> z = Suc y)"
  by (induction a ds z rule: delta_chain.induct) auto

lemma delta_chain_filter:
  "delta_chain a ds z \<Longrightarrow> a \<le> rv \<Longrightarrow>
   filter (\<lambda>d. rv \<le> from_revision d) ds = drop (rv - a) ds"
proof (induction a ds z rule: delta_chain.induct)
  case (2 a d ds z)
  show ?case
  proof (cases "rv \<le> a")
    case True
    have "filter (\<lambda>d. rv \<le> from_revision d) ds = ds"
      using "2.prems" True
    proof -
      have "\<forall>d \<in> set ds. Suc a \<le> from_revision d"
        if "delta_chain (Suc a) ds z" for a ds using that
        by (induction "Suc a" ds z arbitrary: a rule: delta_chain.induct) force+
      then show ?thesis using "2.prems" True by (force simp: filter_id_conv)
    qed
    then show ?thesis using "2.prems" True by simp
  next
    case False
    then have "rv - a = Suc (rv - Suc a)" by simp
    then show ?thesis using False "2.prems" "2.IH" by simp
  qed
qed simp

lemma delta_chain_drop:
  "delta_chain a ds z \<Longrightarrow> n \<le> length ds \<Longrightarrow> delta_chain (a + n) (drop n ds) z"
proof (induction a ds z arbitrary: n rule: delta_chain.induct)
  case (2 a d ds z)
  then show ?case by (cases n) auto
qed simp

lemma delta_chain_ends:
  assumes "delta_chain a ds z" "ds \<noteq> []"
  shows "from_revision (hd ds) = a" "to_revision (last ds) = z"
  using assms by (induction a ds z rule: delta_chain.induct) (auto split: if_splits)

lemma history_inv_push:
  assumes "history_inv b" and "from_revision d = buf_revision b" and "to_revision d = Suc (buf_revision b)"
  shows "history_inv (push_delta (b\<lparr>rope := r, line_mirror := m, buf_revision := Suc (buf_revision b)\<rparr>) d)"
proof -
  let ?ds = "buf_deltas b" and ?n = "length (buf_deltas b)" and ?rv = "buf_revision b"
  have chain: "delta_chain (?rv - ?n) (?ds @ [d]) (Suc ?rv)" and le: "?n \<le> ?rv"
    using assms by (auto simp: delta_chain_snoc history_inv_def)
  have "tl (?ds @ [d]) = drop 1 (?ds @ [d])" by (cases ?ds) auto
  then have "delta_chain (Suc (?rv - ?n)) (tl (?ds @ [d])) (Suc ?rv)"
    using delta_chain_drop[OF chain, of 1] by simp
  then show ?thesis
    using assms(1) chain le by (auto simp: history_inv_def push_delta_def Let_def Suc_diff_le)
qed

text \<open>Within the recorded window \<open>deltas_since\<close> returns exactly the later deltas.\<close>

lemma deltas_since_window:
  assumes "history_inv b" and "buf_revision b - length (buf_deltas b) \<le> rv" and "rv \<le> buf_revision b"
  shows "deltas_since b rv = Ok (drop (rv - (buf_revision b - length (buf_deltas b))) (buf_deltas b))"
proof (cases "rv = buf_revision b")
  case True
  with assms show ?thesis by (auto simp: deltas_since_def history_inv_def)
next
  case False
  let ?a = "buf_revision b - length (buf_deltas b)" and ?ds = "buf_deltas b"
  let ?rest = "drop (rv - ?a) ?ds"
  have chain: "delta_chain ?a ?ds (buf_revision b)" using assms(1) by (simp add: history_inv_def)
  have lt: "rv - ?a < length ?ds" using assms False by (auto simp: history_inv_def)
  then have ne: "?ds \<noteq> []" "?rest \<noteq> []" by auto
  have filt: "filter (\<lambda>d. from_revision d \<ge> rv) ?ds = ?rest"
    using delta_chain_filter[OF chain assms(2)] .
  have "delta_chain rv ?rest (buf_revision b)"
    using delta_chain_drop[OF chain, of "rv - ?a"] lt assms(2) by simp
  from delta_chain_ends[OF this ne(2)] have ends: "from_revision (hd ?rest) = rv"
    "to_revision (last ?rest) = buf_revision b" by simp_all
  have hd_ds: "from_revision (hd ?ds) = ?a" using delta_chain_ends(1)[OF chain ne(1)] .
  have nlt: "\<not> (rv < ?a \<or> rv > buf_revision b)" using assms(2,3) by simp
  show ?thesis
    unfolding deltas_since_def Let_def filt
    using False nlt by (simp only: first_of_eq[OF ne(1)] first_of_eq[OF ne(2)] last_of_eq[OF ne(2)]
        option.map option.case hd_ds ends if_False simp_thms)
qed

text \<open>Outside the window \<open>deltas_since\<close> is an error.\<close>

lemma deltas_since_total:
  assumes "history_inv b"
  shows "deltas_since b rv =
    (if buf_revision b - length (buf_deltas b) \<le> rv \<and> rv \<le> buf_revision b
     then Ok (drop (rv - (buf_revision b - length (buf_deltas b))) (buf_deltas b))
     else Err (RevisionHistoryUnavailable rv (buf_revision b)))"
proof (cases "buf_revision b - length (buf_deltas b) \<le> rv \<and> rv \<le> buf_revision b")
  case True
  then show ?thesis using deltas_since_window[OF assms] by simp
next
  case False
  have chain: "delta_chain (buf_revision b - length (buf_deltas b)) (buf_deltas b) (buf_revision b)"
    using assms by (simp add: history_inv_def)
  have "rv \<noteq> buf_revision b" using False by auto
  then show ?thesis
    using False delta_chain_ends(1)[OF chain]
    by (cases "buf_deltas b") (auto simp: deltas_since_def Let_def)
qed

section \<open>Every method on the text\<close>

lemma full_text_push_delta [simp]: "full_text R (push_delta b d) = full_text R b"
  by (simp add: full_text_def push_delta_def Let_def)

lemma push_delta_simps [simp]:
  "rope (push_delta b d) = rope b" "line_mirror (push_delta b d) = line_mirror b"
  "buf_revision (push_delta b d) = buf_revision b"
  by (simp_all add: push_delta_def Let_def)

text \<open>A valid range: ordered, and both ends are char boundaries.\<close>

definition valid_range :: "('r, 'z) rope_api_scheme \<Rightarrow> 'r rope_buffer \<Rightarrow> source_range \<Rightarrow> bool" where
  "valid_range R b rg \<longleftrightarrow> range_start rg \<le> range_end rg \<and>
     is_boundary (full_text R b) (range_start rg) \<and> is_boundary (full_text R b) (range_end rg)"

context ropey
begin

lemma char_at [simp]: "char_at R r k = get (rope_str R r) k"
  by (auto simp: char_at_def get_def)

lemma len_bytes_eq: "len_bytes R b = str_len (full_text R b)"
  by (simp add: len_bytes_def full_text_def)

lemma len_chars_eq: "len_chars R b = length (full_text R b)"
  by (simp add: len_chars_def full_text_def)

lemma full_text_from_text [simp]: "full_text R (from_text R s) = s"
  by (simp add: full_text_def from_text_def from_rope_def)

lemma buffer_inv_from_rope: "buffer_inv R (from_rope R r)"
  by (simp add: buffer_inv_def full_text_def from_rope_def history_inv_def)

lemma buffer_inv_from_text: "buffer_inv R (from_text R s)"
  by (simp add: from_text_def buffer_inv_from_rope)

lemma is_char_boundary:
  "byte \<le> str_len (full_text R b) \<Longrightarrow> is_char_boundary R b byte \<longleftrightarrow> is_boundary (full_text R b) byte"
  by (auto simp: is_char_boundary_def full_text_def is_boundary_def byte_to_char_le)

lemma validate_offset_eq:
  "validate_offset R b off =
     (if off > str_len (full_text R b) then Err (OffsetOutOfBounds off (str_len (full_text R b)))
      else if \<not> is_boundary (full_text R b) off then Err (NotCharBoundary off)
      else Ok ())"
  using is_char_boundary[of off b]
  by (auto simp: validate_offset_def len_bytes_eq full_text_def)

lemma validate_offset_Ok [simp]: "validate_offset R b off = Ok u \<longleftrightarrow> is_boundary (full_text R b) off"
  by (auto simp: validate_offset_eq dest: is_boundary_le)

lemma validate_offset_total: "validate_offset R b off \<noteq> Panic" "validate_offset R b off \<noteq> Hang"
  by (auto simp: validate_offset_eq)

lemma validate_range_Ok [simp]: "validate_range R b rg = Ok u \<longleftrightarrow> valid_range R b rg"
proof -
  have "rope_len_bytes R (rope b) = str_len (full_text R b)" by (simp add: full_text_def)
  then show ?thesis
    by (auto simp: validate_range_def valid_range_def res_bind_Ok_iff dest: is_boundary_le)
qed

lemma validate_range_total: "validate_range R b rg \<noteq> Panic" "validate_range R b rg \<noteq> Hang"
  by (simp_all add: validate_range_def res_bind_Panic_iff res_bind_Hang_iff validate_offset_total)

lemma validate_offset_accepts [simp]: "is_boundary (full_text R b) off \<Longrightarrow> validate_offset R b off = Ok ()"
  by simp

lemma validate_range_accepts [simp]: "valid_range R b rg \<Longrightarrow> validate_range R b rg = Ok ()"
  by simp

lemma buf_byte_to_char_Ok:
  "buf_byte_to_char R b off = Ok k \<longleftrightarrow>
     is_boundary (full_text R b) off \<and> k = byte_to_char (full_text R b) off"
proof -
  have "is_boundary (full_text R b) off \<Longrightarrow>
      rope_byte_to_char R (rope b) off = byte_to_char (full_text R b) off"
    by (simp add: full_text_def is_boundary_le)
  then show ?thesis by (auto simp: buf_byte_to_char_def res_bind_Ok_iff)
qed

lemma buf_slice_Ok:
  assumes "valid_range R b rg"
  shows "buf_slice R b rg = Ok (byte_slice (full_text R b) (range_start rg) (range_end rg))"
proof -
  let ?s = "full_text R b"
  from assms obtain i j where i: "i \<le> length ?s" "range_start rg = char_to_byte ?s i"
    and j: "j \<le> length ?s" "range_end rg = char_to_byte ?s j"
    by (auto simp: valid_range_def is_boundary_iff)
  with assms have "i \<le> j" by (simp add: valid_range_def char_to_byte_le_iff)
  moreover have "buf_byte_to_char R b (range_start rg) = Ok i"
    "buf_byte_to_char R b (range_end rg) = Ok j"
    using i j by (simp_all add: buf_byte_to_char_Ok is_boundaryI)
  ultimately show ?thesis using i j by (simp add: buf_slice_def byte_slice_def full_text_def)
qed

lemma buf_text_Ok:
  "valid_range R b rg \<Longrightarrow>
   buf_text R b rg = Ok (byte_slice (full_text R b) (range_start rg) (range_end rg))"
  by (simp add: buf_text_def buf_slice_Ok)

end

section \<open>Editing\<close>

text \<open>What an accepted edit reports.\<close>

definition summary_of :: "nat \<Rightarrow> str \<Rightarrow> source_range \<Rightarrow> str \<Rightarrow> edit_summary" where
  "summary_of rv s rg replacement =
     (let after = source_range_new (range_start rg) (range_start rg + str_len replacement);
          deleted = byte_slice s (range_start rg) (range_end rg)
      in \<lparr>revision_before = rv, revision_after = Suc rv, range_before = rg, range_after = after,
          inserted_bytes = str_len replacement, deleted_bytes = str_len deleted,
          edit_inverse = \<lparr>inverse_range = after, inverse_replacement = deleted\<rparr>,
          edit_delta = delta_of rv rg (str_len replacement)\<rparr>)"

lemma summary_of_simps [simp]:
  "revision_before (summary_of rv s rg r) = rv"
  "revision_after (summary_of rv s rg r) = Suc rv"
  "range_before (summary_of rv s rg r) = rg"
  "range_after (summary_of rv s rg r) =
     source_range_new (range_start rg) (range_start rg + str_len r)"
  "inverse_replacement (edit_inverse (summary_of rv s rg r)) =
     byte_slice s (range_start rg) (range_end rg)"
  "inverse_range (edit_inverse (summary_of rv s rg r)) =
     source_range_new (range_start rg) (range_start rg + str_len r)"
  by (simp_all add: summary_of_def Let_def)

context ropey
begin

lemma left_reclassification_None:
  "xs = [] \<or> last xs \<noteq> CR \<Longrightarrow> full_text R b = xs @ ws \<Longrightarrow>
   left_reclassification R b (length xs) r t = None"
  by (cases xs rule: rev_cases) (auto simp: left_reclassification_def full_text_def get_append)

lemma left_reclassification_CR:
  assumes "full_text R b = (xs @ [CR]) @ ws"
    and "rope_str R (line_mirror b) = mirror_bare_cr (xs @ [CR]) old @ ms"
    and "now = (if r = [] then t else next_is_lf r)"
  shows "left_reclassification R b (length (xs @ [CR])) r t =
    (if old = now then None else Some (length xs, if now then CR else LF))"
proof -
  have "get (rope_str R (rope b)) (length xs) = Some CR"
    using assms(1) by (simp add: full_text_def get_append)
  moreover have "get (rope_str R (line_mirror b)) (length xs) = Some (if old then CR else LF)"
    using assms(2) by (simp add: mirror_reclassify get_append)
  ultimately show ?thesis
    using assms(3) by (auto simp: left_reclassification_def next_is_lf_def Let_def)
qed

text \<open>
  The incremental update of the mirror is the mirror of the edited text: only
  the inserted text and at most the one char before it are rewritten.
\<close>

lemma edit_mirror_str:
  assumes mirror: "rope_str R (line_mirror b) = mirror_bare_cr (full_text R b) False"
    and s: "full_text R b = xs @ ys @ zs"
  shows "rope_str R (edit_mirror R b (length xs) (length xs + length ys) r)
         = mirror_bare_cr (xs @ r @ zs) False"
proof -
  let ?M = "rope_str R (line_mirror b)"
  define t where "t = (char_at R (rope b) (length xs + length ys) = Some LF)"
  have t: "t = next_is_lf zs"
    using s by (cases zs) (auto simp: t_def full_text_def get_append)
  define old where "old = next_is_lf (ys @ zs)"
  define now where "now = (if r = [] then t else next_is_lf r)"
  have M: "?M = mirror_bare_cr xs old @ mirror_bare_cr ys t @ mirror_bare_cr zs False"
    using mirror s by (simp add: mirror_middle old_def t)
  define m2 where "m2 = rope_insert R (rope_remove R (line_mirror b) (length xs) (length xs + length ys))
    (length xs) (mirror_bare_cr r t)"
  have m2: "rope_str R m2 = mirror_bare_cr xs old @ mirror_bare_cr r t @ mirror_bare_cr zs False"
    using M by (simp add: m2_def)
  have goal: "mirror_bare_cr (xs @ r @ zs) False =
      mirror_bare_cr xs now @ mirror_bare_cr r t @ mirror_bare_cr zs False"
    by (simp add: mirror_middle now_def t)
  have em: "edit_mirror R b (length xs) (length xs + length ys) r =
      (case left_reclassification R b (length xs) r t of
         None \<Rightarrow> m2
       | Some (left, desired) \<Rightarrow> rope_insert R (rope_remove R m2 left (left + 1)) left [desired])"
    by (simp only: edit_mirror_def Let_def m2_def t_def)
  show ?thesis
  proof (cases "xs = [] \<or> last xs \<noteq> CR")
    case True
    then have "left_reclassification R b (length xs) r t = None"
      using s by (rule left_reclassification_None)
    then show ?thesis
      using em m2 goal mirror_flag_irrelevant[OF True, of old now] by simp
  next
    case False
    then obtain us where xs: "xs = us @ [CR]" by (metis append_butlast_last_id)
    have "left_reclassification R b (length xs) r t =
        (if old = now then None else Some (length us, if now then CR else LF))"
      using left_reclassification_CR[of b us "ys @ zs" old _ now r t] s M now_def xs by simp
    then show ?thesis
      using em m2 goal xs by (auto simp: mirror_reclassify split: if_splits)
  qed
qed

lemma buf_edit_Err:
  assumes "\<not> valid_range R b rg"
  shows "\<exists>e. buf_edit R rg r b = (Err e, b)"
  using assms validate_range_Ok[of b rg] validate_range_total[of b rg]
  by (cases "validate_range R b rg") (auto simp: buf_edit_def)

lemma buf_edit_Ok:
  assumes inv: "buffer_inv R b" and valid: "valid_range R b rg"
    and room: "buf_revision b + 1 < u64_bound"
  obtains b' where "buf_edit R rg r b = (Ok (summary_of (buf_revision b) (full_text R b) rg r), b')"
    and "buffer_inv R b'"
    and "full_text R b' = splice (full_text R b) (range_start rg) (range_end rg) r"
    and "buf_revision b' = Suc (buf_revision b)"
    and "buf_deltas b' = buf_deltas (push_delta b (delta_of (buf_revision b) rg (str_len r)))"
    and "delta_capacity b' = delta_capacity b"
proof -
  let ?s = "full_text R b" and ?rv = "buf_revision b"
  obtain xs ys zs where s: "?s = xs @ ys @ zs" and st: "range_start rg = str_len xs"
    and en: "range_end rg = str_len xs + str_len ys"
    using valid unfolding valid_range_def by (metis boundary_range_split)
  have rs: "rope_str R (rope b) = xs @ ys @ zs" using s by (simp add: full_text_def)
  have ch: "rope_byte_to_char R (rope b) (range_start rg) = length xs"
    "rope_byte_to_char R (rope b) (range_end rg) = length xs + length ys"
    by (simp_all add: st en rs)
  define b1 where "b1 = b\<lparr>rope := rope_insert R (rope_remove R (rope b) (length xs) (length xs + length ys)) (length xs) r,
      line_mirror := edit_mirror R b (length xs) (length xs + length ys) r, buf_revision := Suc ?rv\<rparr>"
  define b' where "b' = push_delta b1 (delta_of ?rv rg (str_len r))"
  have vr: "validate_range R b rg = Ok ()" using valid by simp
  have eq: "buf_edit R rg r b = (Ok (summary_of ?rv ?s rg r), b')"
    using room
    by (simp add: buf_edit_def vr Let_def ch checked_add_def b'_def b1_def summary_of_def delta_of_def
        s rs st en del: validate_range_Ok)
  have ft: "full_text R b' = splice ?s (range_start rg) (range_end rg) r"
    using s st en by (simp add: b'_def b1_def full_text_def rs)
  have "rope_str R (line_mirror b') = mirror_bare_cr (xs @ r @ zs) False"
    using inv s by (simp add: b'_def b1_def buffer_inv_def edit_mirror_str)
  then have "buffer_inv R b'"
    using inv ft s st en history_inv_push[of b "delta_of ?rv rg (str_len r)"]
    by (simp add: buffer_inv_def b'_def b1_def)
  then show ?thesis
    using that[OF eq _ ft] by (simp add: b'_def b1_def push_delta_def Let_def)
qed

lemma buf_edit_inverse:
  assumes "buffer_inv R b" and "buf_revision b + 2 < u64_bound" and "buf_edit R rg r b = (Ok sm, b')"
  shows "\<exists>sm' b''. buf_edit R (inverse_range (edit_inverse sm))
      (inverse_replacement (edit_inverse sm)) b' = (Ok sm', b'') \<and> full_text R b'' = full_text R b"
proof -
  have v: "valid_range R b rg" using buf_edit_Err[of b rg r] assms(3) by force
  let ?s = "full_text R b" and ?t = "splice (full_text R b) (range_start rg) (range_end rg) r"
  from v have bd: "is_boundary ?s (range_start rg)" "is_boundary ?s (range_end rg)"
    "range_start rg \<le> range_end rg" by (simp_all add: valid_range_def)
  have b': "buffer_inv R b'" "full_text R b' = ?t" "buf_revision b' = Suc (buf_revision b)"
    "sm = summary_of (buf_revision b) ?s rg r"
    by (rule buf_edit_Ok[OF assms(1) v, of r]; use assms(2,3) in simp)+
  have v': "valid_range R b' (source_range_new (range_start rg) (range_start rg + str_len r))"
    using is_boundary_splice_before[OF bd bd(1), of r] is_boundary_splice_after[OF bd bd(2), of r] bd(3)
    by (simp add: valid_range_def b'(2))
  obtain b'' where "buf_edit R (source_range_new (range_start rg) (range_start rg + str_len r))
      (byte_slice ?s (range_start rg) (range_end rg)) b' =
      (Ok (summary_of (buf_revision b') (full_text R b')
        (source_range_new (range_start rg) (range_start rg + str_len r))
        (byte_slice ?s (range_start rg) (range_end rg))), b'')"
    "full_text R b'' = splice ?t (range_start rg) (range_start rg + str_len r)
        (byte_slice ?s (range_start rg) (range_end rg))"
    by (rule buf_edit_Ok[OF b'(1) v']; use assms(2) b'(2,3) in simp)
  then show ?thesis by (auto simp: b'(4) splice_inverse[OF bd])
qed

lemma buf_edit_rejects:
  assumes "\<not> valid_range R b rg"
  shows "buf_edit R rg r b =
    (Err (if range_start rg > range_end rg then InvalidRange rg
          else if range_end rg > str_len (full_text R b)
          then RangeOutOfBounds rg (str_len (full_text R b))
          else if \<not> is_boundary (full_text R b) (range_start rg) then NotCharBoundary (range_start rg)
          else NotCharBoundary (range_end rg)), b)"
  using assms
  by (auto simp: buf_edit_def validate_range_def validate_offset_eq valid_range_def
      len_bytes_eq full_text_def)

end

end
