(* ===== verification/Line_Facts.thy ===== *)
theory Line_Facts
  imports Buffer_Facts
begin

text \<open>
  Lines and UTF-16 positions.  The specification splits a text at LF, CRLF and a
  bare CR (CommonMark's line endings), each line keeping its ending; the lemmas
  show that the mirror's LF-only index computes exactly that split.
\<close>

section \<open>Specification\<close>

fun source_lines :: "str \<Rightarrow> str list" where
  "source_lines [] = [[]]"
| "source_lines (c # cs) =
     (if c = LF \<or> (c = CR \<and> \<not> next_is_lf cs) then [c] # source_lines cs
      else (case source_lines cs of l # ls \<Rightarrow> (c # l) # ls | [] \<Rightarrow> [[c]]))"

text \<open>A line without its ending.\<close>

definition line_content :: "str \<Rightarrow> str" where
  "line_content l =
     (if l = [] then []
      else if last l = LF then
        (if butlast l \<noteq> [] \<and> last (butlast l) = CR then butlast (butlast l) else butlast l)
      else if last l = CR then butlast l
      else l)"

lemma source_lines_nonempty [simp]: "source_lines s \<noteq> []"
  by (induction s) (auto split: list.splits)

lemma concat_source_lines [simp]: "concat (source_lines s) = s"
  by (induction s) (auto split: list.splits)

lemma mirror_Cons:
  "mirror_bare_cr (c # cs) False =
     (if c = LF \<or> (c = CR \<and> \<not> next_is_lf cs) then LF else c) # mirror_bare_cr cs False"
  by (cases cs) auto

lemma count_lf_mirror: "Suc (count_lf (mirror_bare_cr s False)) = length (source_lines s)"
proof (induction s)
  case (Cons c cs)
  then show ?case
    using source_lines_nonempty[of cs]
    by (cases "source_lines cs") (simp_all add: mirror_Cons del: mirror_bare_cr.simps)
qed simp

lemma after_lf_mirror:
  "l \<le> count_lf (mirror_bare_cr s False) \<Longrightarrow>
   after_lf (mirror_bare_cr s False) l = length (concat (take l (source_lines s)))"
proof (induction s arbitrary: l)
  case (Cons c cs)
  show ?case
  proof (cases l)
    case (Suc l')
    show ?thesis
    proof (cases "c = LF \<or> (c = CR \<and> \<not> next_is_lf cs)")
      case True
      then show ?thesis
        using Cons Suc by (simp add: mirror_Cons del: mirror_bare_cr.simps)
    next
      case False
      then have lt: "l \<le> count_lf (mirror_bare_cr cs False)"
        using Cons.prems by (simp add: mirror_Cons del: mirror_bare_cr.simps split: if_splits)
      from Cons.IH[OF lt] show ?thesis
        using False Suc source_lines_nonempty[of cs]
        by (cases "source_lines cs") (auto simp: mirror_Cons simp del: mirror_bare_cr.simps)
    qed
  qed simp
qed simp

lemma length_concat_take_Suc:
  "l < length xss \<Longrightarrow> length (concat (take (Suc l) xss)) = length (concat (take l xss)) + length (xss ! l)"
  by (simp add: take_Suc_conv_app_nth)

lemma concat_nth_slice:
  assumes "l < length xss"
  shows "take (length (xss ! l)) (drop (length (concat (take l xss))) (concat xss)) = xss ! l"
proof -
  have "concat xss = concat (take l xss) @ (xss ! l) @ concat (drop (Suc l) xss)"
    using assms by (metis append_take_drop_id concat.simps(2) concat_append Cons_nth_drop_Suc)
  then show ?thesis by simp
qed

text \<open>The byte span of line \<open>l\<close>.\<close>

definition line_span :: "str \<Rightarrow> nat \<Rightarrow> source_range" where
  "line_span s l =
     source_range_new (str_len (concat (take l (source_lines s))))
                      (str_len (concat (take (Suc l) (source_lines s))))"

definition content_span :: "str \<Rightarrow> nat \<Rightarrow> source_range" where
  "content_span s l =
     (let a = str_len (concat (take l (source_lines s)))
      in source_range_new a (a + str_len (line_content (source_lines s ! l))))"

lemma line_split:
  assumes "l < length (source_lines s)"
  shows "s = concat (take l (source_lines s)) @ source_lines s ! l @ concat (drop (Suc l) (source_lines s))"
proof -
  have "concat (source_lines s) =
      concat (take l (source_lines s)) @ (source_lines s ! l) @ concat (drop (Suc l) (source_lines s))"
    using assms by (metis append_take_drop_id concat.simps(2) concat_append Cons_nth_drop_Suc)
  then show ?thesis by simp
qed

lemma line_span_end:
  "l < length (source_lines s) \<Longrightarrow>
   range_end (line_span s l) = range_start (line_span s l) + str_len (source_lines s ! l)"
  by (simp add: line_span_def take_Suc_conv_app_nth)

lemma line_content_prefix: "\<exists>e. l = line_content l @ e"
proof (cases l rule: rev_cases)
  case (snoc l' c)
  then show ?thesis
    by (cases l' rule: rev_cases) (auto simp: line_content_def butlast_append)
qed (simp add: line_content_def)

lemma concat_line_prefix:
  assumes "l < length (source_lines s)"
  shows "\<exists>q. s = concat (take l (source_lines s)) @ line_content (source_lines s ! l) @ q"
  using line_split[OF assms] line_content_prefix[of "source_lines s ! l"]
  by (metis append_assoc)

lemma str_len_line_content: "str_len (line_content l) \<le> str_len l"
  by (metis line_content_prefix le_add1 str_len_append)

lemma str_len_butlast_le: "str_len (butlast x) \<le> str_len x"
  by (cases x rule: rev_cases) auto

text \<open>Every line but the last has an ending.\<close>

lemma source_lines_ending:
  "Suc l < length (source_lines s) \<Longrightarrow>
   source_lines s ! l \<noteq> [] \<and> last (source_lines s ! l) \<in> {LF, CR}"
proof (induction s arbitrary: l)
  case (Cons c cs)
  show ?case
  proof (cases "c = LF \<or> (c = CR \<and> \<not> next_is_lf cs)")
    case True
    then show ?thesis using Cons by (cases l) auto
  next
    case False
    obtain x xs where ls: "source_lines cs = x # xs" by (cases "source_lines cs") auto
    have "Suc l < length (source_lines cs)" using Cons.prems False ls by auto
    then show ?thesis using Cons.IH[of l] False ls by (cases l) auto
  qed
qed simp

lemma line_content_shorter:
  "Suc l < length (source_lines s) \<Longrightarrow>
   str_len (line_content (source_lines s ! l)) < str_len (source_lines s ! l)"
  using source_lines_ending[of l s]
  by (cases "source_lines s ! l" rule: rev_cases) (auto simp: line_content_def le_imp_less_Suc str_len_butlast_le)

lemma line_span_valid:
  assumes "l < length (source_lines s)"
  shows "is_boundary s (range_start (line_span s l))" "is_boundary s (range_end (line_span s l))"
    "range_start (line_span s l) \<le> range_end (line_span s l)"
    "byte_slice s (range_start (line_span s l)) (range_end (line_span s l)) = source_lines s ! l"
proof -
  let ?p = "concat (take l (source_lines s))" and ?x = "source_lines s ! l"
    and ?q = "concat (drop (Suc l) (source_lines s))"
  have s: "s = ?p @ ?x @ ?q" using assms by (rule line_split)
  have st: "range_start (line_span s l) = str_len ?p" by (simp add: line_span_def)
  have en: "range_end (line_span s l) = str_len ?p + str_len ?x"
    using line_span_end[OF assms] st by simp
  show "is_boundary s (range_start (line_span s l))" unfolding st by (metis s is_boundary_prefix)
  show "is_boundary s (range_end (line_span s l))"
    unfolding en by (metis s append_assoc is_boundary_prefix str_len_append)
  show "range_start (line_span s l) \<le> range_end (line_span s l)" using st en by simp
  show "byte_slice s (range_start (line_span s l)) (range_end (line_span s l)) = ?x"
    unfolding st en by (metis s byte_slice_middle)
qed

lemma content_span_valid:
  assumes "l < length (source_lines s)"
  shows "is_boundary s (range_start (content_span s l))" "is_boundary s (range_end (content_span s l))"
    "range_start (content_span s l) \<le> range_end (content_span s l)"
    "byte_slice s (range_start (content_span s l)) (range_end (content_span s l)) =
       line_content (source_lines s ! l)"
    "range_start (content_span s l) = range_start (line_span s l)"
    "range_end (content_span s l) \<le> range_end (line_span s l)"
proof -
  let ?p = "concat (take l (source_lines s))" and ?x = "line_content (source_lines s ! l)"
  obtain e where e: "source_lines s ! l = ?x @ e" using line_content_prefix by blast
  obtain q where s: "s = ?p @ ?x @ q" using line_split[OF assms] e by (metis append_assoc)
  have st: "range_start (content_span s l) = str_len ?p" by (simp add: content_span_def Let_def)
  have en: "range_end (content_span s l) = str_len ?p + str_len ?x"
    by (simp add: content_span_def Let_def)
  show "is_boundary s (range_start (content_span s l))" unfolding st by (metis s is_boundary_prefix)
  show "is_boundary s (range_end (content_span s l))"
    unfolding en by (metis s append_assoc is_boundary_prefix str_len_append)
  show "range_start (content_span s l) \<le> range_end (content_span s l)" using st en by simp
  show "byte_slice s (range_start (content_span s l)) (range_end (content_span s l)) = ?x"
    unfolding st en by (metis s byte_slice_middle)
  show "range_start (content_span s l) = range_start (line_span s l)"
    using st by (simp add: line_span_def)
  then show "range_end (content_span s l) \<le> range_end (line_span s l)"
    using st en line_span_end[OF assms] str_len_line_content[of "source_lines s ! l"] by simp
qed

text \<open>The line a char position lies in.\<close>

definition line_of :: "str \<Rightarrow> nat \<Rightarrow> nat" where
  "line_of s k = count_lf (take k (mirror_bare_cr s False))"

lemma line_of_less: "line_of s k < length (source_lines s)"
  using count_lf_mirror[of s] count_lf_take_le[of k "mirror_bare_cr s False"]
  by (simp add: line_of_def)

lemma line_start_char:
  "l < length (source_lines s) \<Longrightarrow>
   range_start (line_span s l) = char_to_byte s (after_lf (mirror_bare_cr s False) l)"
proof -
  assume l: "l < length (source_lines s)"
  then have "l \<le> count_lf (mirror_bare_cr s False)" using count_lf_mirror[of s] by simp
  from after_lf_mirror[OF this]
  have "after_lf (mirror_bare_cr s False) l = length (concat (take l (source_lines s)))" .
  then show ?thesis
    by (metis line_split[OF l] char_to_byte_append_left line_span_def source_range_new_simps(1))
qed

lemma line_span_last: "Suc l = length (source_lines s) \<Longrightarrow> range_end (line_span s l) = str_len s"
  by (simp add: line_span_def)

lemma line_span_next: "range_end (line_span s l) = range_start (line_span s (Suc l))"
  by (simp add: line_span_def)

lemma line_span_0: "range_start (line_span s 0) = 0"
  by (simp add: line_span_def)

lemma line_of_span:
  assumes "k \<le> length s"
  shows "range_start (line_span s (line_of s k)) \<le> char_to_byte s k"
    and "char_to_byte s k \<le> range_end (line_span s (line_of s k))"
    and "Suc (line_of s k) < length (source_lines s) \<Longrightarrow>
         char_to_byte s k < range_end (line_span s (line_of s k))"
proof -
  let ?M = "mirror_bare_cr s False" and ?l = "line_of s k"
  have "after_lf ?M ?l \<le> k"
    unfolding line_of_def using assms by (intro after_lf_count_le) simp
  then show "range_start (line_span s ?l) \<le> char_to_byte s k"
    by (simp add: line_start_char line_of_less char_to_byte_mono)
  show lt: "char_to_byte s k < range_end (line_span s ?l)"
    if "Suc ?l < length (source_lines s)"
  proof -
    have c: "?l < count_lf ?M" using that count_lf_mirror[of s] by simp
    have "k < after_lf ?M (Suc ?l)"
    proof (rule ccontr)
      assume "\<not> k < after_lf ?M (Suc ?l)"
      then have "count_lf (take (after_lf ?M (Suc ?l)) ?M) \<le> ?l"
        unfolding line_of_def by (intro count_lf_take_mono) simp
      then show False using c by (simp add: count_lf_take_after_lf)
    qed
    moreover have "after_lf ?M (Suc ?l) \<le> length s" using after_lf_le[of ?M] by simp
    ultimately show ?thesis
      using that by (simp add: line_span_next line_start_char char_to_byte_strict)
  qed
  show "char_to_byte s k \<le> range_end (line_span s ?l)"
  proof (cases "Suc ?l < length (source_lines s)")
    case True
    then show ?thesis using lt by simp
  next
    case False
    then have "Suc ?l = length (source_lines s)" using line_of_less[of s k] by simp
    then show ?thesis by (simp add: line_span_last char_to_byte_le)
  qed
qed

section \<open>The methods\<close>

context ropey
begin

lemma mirror_str: "buffer_inv R b \<Longrightarrow> rope_str R (line_mirror b) = mirror_bare_cr (full_text R b) False"
  by (simp add: buffer_inv_def)

lemma line_count_eq: "buffer_inv R b \<Longrightarrow> line_count R b = length (source_lines (full_text R b))"
  by (simp add: line_count_def mirror_str count_lf_mirror)

lemma line_for_offset_Ok:
  assumes "buffer_inv R b" "is_boundary (full_text R b) p"
  shows "line_for_offset R b p = Ok (line_of (full_text R b) (byte_to_char (full_text R b) p))"
proof -
  have "buf_byte_to_char R b p = Ok (byte_to_char (full_text R b) p)"
    using assms(2) by (simp add: buf_byte_to_char_Ok)
  then show ?thesis
    using assms(1) by (simp add: line_for_offset_def mirror_str line_of_def byte_to_char_le)
qed

lemma line_range_eq:
  assumes inv: "buffer_inv R b"
  shows "line_range R b l =
    (if l < length (source_lines (full_text R b)) then Ok (line_span (full_text R b) l)
     else Err (InvalidLineColumn l 0))"
proof -
  let ?s = "full_text R b" and ?M = "mirror_bare_cr (full_text R b) False"
  have n: "rope_len_lines R (line_mirror b) = length (source_lines ?s)"
    using inv by (simp add: mirror_str count_lf_mirror)
  show ?thesis
  proof (cases "l < length (source_lines ?s)")
    case True
    then have l: "l \<le> count_lf ?M" using count_lf_mirror[of ?s] by simp
    have c2b: "k \<le> length ?s \<Longrightarrow> rope_char_to_byte R (rope b) k = char_to_byte ?s k" for k
      by (simp add: full_text_def)
    have st: "rope_char_to_byte R (rope b) (rope_line_to_char R (line_mirror b) l) =
        range_start (line_span ?s l)"
      using inv l True after_lf_le[of ?M l] by (simp add: mirror_str c2b line_start_char)
    show ?thesis
    proof (cases "l + 1 < length (source_lines ?s)")
      case more: True
      then have l': "Suc l \<le> count_lf ?M" using count_lf_mirror[of ?s] by simp
      have "rope_char_to_byte R (rope b) (rope_line_to_char R (line_mirror b) (l + 1)) =
          range_end (line_span ?s l)"
        using inv l' more after_lf_le[of ?M "Suc l"]
        by (simp add: mirror_str c2b line_start_char line_span_next)
      then show ?thesis using True more st n by (simp add: line_range_def Let_def)
    next
      case last: False
      then have "Suc l = length (source_lines ?s)" using True by simp
      then have "rope_char_to_byte R (rope b) (rope_len_chars R (line_mirror b)) = range_end (line_span ?s l)"
        using inv by (simp add: mirror_str c2b line_span_last)
      then show ?thesis using True last st n by (simp add: line_range_def Let_def)
    qed
  next
    case False
    then show ?thesis using n by (simp add: line_range_def)
  qed
qed

lemma trim_line_ending:
  assumes "full_text R b = xs @ l @ zs"
  shows "trim_line_ending R b (length xs) (length l) = length (line_content l)"
proof (cases l rule: rev_cases)
  case (snoc l' c)
  then have s: "rope_str R (rope b) = xs @ l' @ c # zs" using assms by (simp add: full_text_def)
  show ?thesis
  proof (cases l' rule: rev_cases)
    case Nil
    then show ?thesis
      using snoc s by (auto simp: trim_line_ending_def line_content_def get_append)
  next
    case (snoc l'' d)
    then show ?thesis
      using \<open>l = l' @ [c]\<close> s
      by (auto simp: trim_line_ending_def line_content_def get_append butlast_append)
  qed
qed (simp add: trim_line_ending_def line_content_def)

lemma line_content_range_eq:
  assumes inv: "buffer_inv R b"
  shows "line_content_range R b l =
    (if l < length (source_lines (full_text R b)) then Ok (content_span (full_text R b) l)
     else Err (InvalidLineColumn l 0))"
proof (cases "l < length (source_lines (full_text R b))")
  case True
  let ?s = "full_text R b" and ?p = "concat (take l (source_lines (full_text R b)))"
    and ?x = "source_lines (full_text R b) ! l"
    and ?q = "concat (drop (Suc l) (source_lines (full_text R b)))"
  have s: "?s = ?p @ ?x @ ?q" using True by (rule line_split)
  have rs: "rope_str R (rope b) = ?p @ ?x @ ?q" using s by (simp add: full_text_def)
  have st: "rope_byte_to_char R (rope b) (range_start (line_span ?s l)) = length ?p"
    by (simp add: line_span_def rs)
  have en: "rope_byte_to_char R (rope b) (range_end (line_span ?s l)) = length ?p + length ?x"
    using line_span_end[OF True] by (simp add: line_span_def rs)
  obtain e where e: "?x = line_content ?x @ e" using line_content_prefix by blast
  have rs': "rope_str R (rope b) = ?p @ line_content ?x @ e @ ?q"
    using rs e by (metis append_assoc)
  have "rope_char_to_byte R (rope b) (length ?p + length (line_content ?x)) =
      str_len ?p + str_len (line_content ?x)"
    by (simp add: rs' char_to_byte_append)
  moreover have "trim_line_ending R b (length ?p) (length ?x) = length (line_content ?x)"
    using s by (rule trim_line_ending)
  ultimately show ?thesis
    using True st en
    by (simp add: line_content_range_def line_range_eq[OF inv] Let_def content_span_def)
      (simp add: line_span_def)
next
  case False
  then show ?thesis by (simp add: line_content_range_def line_range_eq[OF inv])
qed

lemma offset_for_line_col_eq:
  assumes inv: "buffer_inv R b" and l: "l < length (source_lines (full_text R b))"
  shows "offset_for_line_col R b l col =
    (let x = line_content (source_lines (full_text R b) ! l)
     in if col \<le> length x
        then Ok (range_start (line_span (full_text R b) l) + char_to_byte x col)
        else Err (InvalidLineColumn l col))"
proof -
  let ?s = "full_text R b" and ?x = "line_content (source_lines (full_text R b) ! l)"
  let ?p = "concat (take l (source_lines ?s))"
  obtain q where s: "?s = ?p @ ?x @ q" using concat_line_prefix[OF l] by blast
  have rs: "rope_str R (rope b) = ?s" by (simp add: full_text_def)
  have span: "line_content_range R b l =
      Ok (source_range_new (str_len ?p) (str_len ?p + str_len ?x))"
    using line_content_range_eq[OF inv, of l] l by (simp add: content_span_def Let_def)
  have a: "rope_byte_to_char R (rope b) (str_len ?p) = length ?p"
    using arg_cong[OF s, of "\<lambda>t. byte_to_char t (str_len ?p)"] arg_cong[OF s, of str_len] rs by simp
  have e: "rope_byte_to_char R (rope b) (str_len ?p + str_len ?x) = length ?p + length ?x"
    using arg_cong[OF s, of "\<lambda>t. byte_to_char t (str_len ?p + str_len ?x)"] arg_cong[OF s, of str_len] rs
    by simp
  have c: "col \<le> length ?x \<Longrightarrow> rope_char_to_byte R (rope b) (length ?p + col) = str_len ?p + char_to_byte ?x col"
    using arg_cong[OF s, of "\<lambda>t. char_to_byte t (length ?p + col)"] arg_cong[OF s, of length] rs
    by (simp add: char_to_byte_append)
  show ?thesis
    unfolding offset_for_line_col_def span res_bind.simps Let_def source_range_new_simps a e
    using c by (simp add: line_span_def)
qed

lemma line_for_offset_span:
  assumes inv: "buffer_inv R b" and p: "is_boundary (full_text R b) p"
  shows "\<exists>l rg. line_for_offset R b p = Ok l \<and> l < line_count R b \<and> line_range R b l = Ok rg \<and>
    range_start rg \<le> p \<and> p \<le> range_end rg \<and> (l + 1 < line_count R b \<longrightarrow> p < range_end rg)"
proof -
  let ?s = "full_text R b"
  obtain k where k: "k \<le> length ?s" "p = char_to_byte ?s k" "byte_to_char ?s p = k"
    using p by (rule is_boundaryE)
  show ?thesis
    using line_for_offset_Ok[OF inv p] line_range_eq[OF inv] line_count_eq[OF inv]
      line_of_span[OF k(1)] line_of_less[of ?s k] k
    by auto
qed

end

end
