(* ===== verification/Anchor_Facts.thy ===== *)
theory Anchor_Facts
  imports Line_Facts
begin

text \<open>
  UTF-16 offsets and anchors.  An offset carried through the recorded deltas is
  again a char boundary of the edited text, so an anchor made at an earlier
  revision resolves as long as the delta window still reaches back to it.
\<close>

section \<open>UTF-16\<close>

lemma utf16_to_byte_loop_boundary:
  "\<exists>k \<le> length cs. utf16_to_byte_loop cs off u b = b + char_to_byte cs k"
proof (induction cs off u b rule: utf16_to_byte_loop.induct)
  case (2 ch cs off u b)
  show ?case
  proof (cases "u \<ge> off \<or> off < u + len_utf16 ch")
    case False
    then obtain k where "k \<le> length cs"
      "utf16_to_byte_loop cs off (u + len_utf16 ch) (b + len_utf8 ch) = b + len_utf8 ch + char_to_byte cs k"
      using "2.IH" by blast
    then show ?thesis using False by (intro exI[of _ "Suc k"]) auto
  qed (auto intro: exI[of _ 0])
qed simp

lemma utf16_to_byte_loop_exact:
  "k \<le> length cs \<Longrightarrow>
   utf16_to_byte_loop cs (u + utf16_len (take k cs)) u b = b + char_to_byte cs k"
proof (induction cs arbitrary: k u b)
  case (Cons c cs)
  show ?case
  proof (cases k)
    case (Suc j)
    then have "utf16_to_byte_loop cs ((u + len_utf16 c) + utf16_len (take j cs)) (u + len_utf16 c)
        (b + len_utf8 c) = b + len_utf8 c + char_to_byte cs j"
      using Cons.prems by (intro Cons.IH) simp
    then show ?thesis using Suc by (simp add: add.assoc)
  qed simp
qed simp

context ropey
begin

lemma utf16_to_byte_boundary: "is_boundary (full_text R b) (utf16_to_byte R b off)"
  using utf16_to_byte_loop_boundary[of "full_text R b" off 0 0]
  by (auto simp: utf16_to_byte_def full_text_def is_boundaryI)

lemma byte_to_utf16_Ok:
  assumes "is_boundary (full_text R b) p"
  shows "byte_to_utf16 R b p = Ok (utf16_len (take (byte_to_char (full_text R b) p) (full_text R b)))"
proof -
  have "buf_byte_to_char R b p = Ok (byte_to_char (full_text R b) p)"
    using assms by (simp add: buf_byte_to_char_Ok)
  then show ?thesis by (simp add: byte_to_utf16_def full_text_def byte_to_char_le)
qed

lemma utf16_round_trip:
  assumes "is_boundary (full_text R b) p"
  shows "\<exists>u. byte_to_utf16 R b p = Ok u \<and> utf16_to_byte R b u = p"
proof -
  obtain k where k: "k \<le> length (full_text R b)" "p = char_to_byte (full_text R b) k"
    "byte_to_char (full_text R b) p = k" using assms by (rule is_boundaryE)
  then have "utf16_to_byte R b (utf16_len (take k (full_text R b))) = p"
    using utf16_to_byte_loop_exact[of k "full_text R b" 0 0]
    by (simp add: utf16_to_byte_def full_text_def)
  then show ?thesis using byte_to_utf16_Ok[OF assms] k by auto
qed

end

section \<open>One edit\<close>

text \<open>Where a position goes when the bytes of \<open>rg\<close> are replaced by \<open>n\<close> bytes.\<close>

definition carried :: "source_range \<Rightarrow> nat \<Rightarrow> nat \<Rightarrow> bias \<Rightarrow> nat" where
  "carried rg n p bs =
     (if p < range_start rg \<or> (p = range_start rg \<and> bs = Before) then p
      else if range_end rg < p \<or> (p = range_end rg \<and> range_start rg < range_end rg)
      then p - range_len rg + n
      else (case bs of Before \<Rightarrow> range_start rg | After \<Rightarrow> range_start rg + n))"

lemma transform_offset_carried:
  assumes "range_start rg \<le> range_end rg" and "p - range_len rg + n < u64_bound"
  shows "transform_offset (delta_of rv rg n) p bs = Some (carried rg n p bs)"
proof -
  consider (bef) "p < range_start rg \<or> (p = range_start rg \<and> bs = Before)"
    | (aft) "\<not> (p < range_start rg \<or> (p = range_start rg \<and> bs = Before))"
        "range_end rg < p \<or> (p = range_end rg \<and> range_start rg < range_end rg)"
    | (ins) "\<not> (p < range_start rg \<or> (p = range_start rg \<and> bs = Before))"
        "\<not> (range_end rg < p \<or> (p = range_end rg \<and> range_start rg < range_end rg))"
    by blast
  then show ?thesis
  proof cases
    case bef
    then show ?thesis by (simp add: carried_def transform_offset_before)
  next
    case aft
    then show ?thesis
      using transform_offset_after[OF assms(1) aft(2) assms(2)]
      unfolding carried_def by (simp only: if_False if_True)
  next
    case ins
    have "range_start rg \<le> p" "p \<le> range_end rg" "p = range_start rg \<Longrightarrow> bs = After"
      "p = range_end rg \<Longrightarrow> range_start rg = range_end rg"
      using ins assms(1) by (auto intro: bias.exhaust[of bs])
    then have "transform_offset (delta_of rv rg n) p bs =
        Some (case bs of Before \<Rightarrow> range_start rg | After \<Rightarrow> range_start rg + n)"
      by (rule transform_offset_inside)
    then show ?thesis using ins unfolding carried_def by (simp only: if_False)
  qed
qed

lemma carried_boundary:
  assumes "is_boundary s (range_start rg)" "is_boundary s (range_end rg)"
    and "range_start rg \<le> range_end rg" and "is_boundary s p"
  shows "is_boundary (splice s (range_start rg) (range_end rg) r) (carried rg (str_len r) p bs)"
proof -
  note before = is_boundary_splice_before[OF assms(1-3)]
  note after = is_boundary_splice_after[OF assms(1-3)]
  have "is_boundary (splice s (range_start rg) (range_end rg) r) (range_start rg + str_len r)"
    using after[OF assms(2) order_refl, of r] assms(3) by simp
  moreover have "is_boundary (splice s (range_start rg) (range_end rg) r) (range_start rg)"
    using before[OF assms(1) order_refl] .
  ultimately show ?thesis
    using before[OF assms(4)] after[OF assms(4)]
    by (auto simp: carried_def range_len_def split: bias.split)
qed

lemma carried_le:
  assumes "p \<le> len" "range_end rg \<le> len" "range_start rg \<le> range_end rg"
  shows "p - range_len rg + n \<le> len + n"
  using assms by (simp add: range_len_def)

section \<open>A run of edits\<close>

fun apply_edits ::
  "('r, 'z) rope_api_scheme \<Rightarrow> 'r rope_buffer \<Rightarrow> (source_range \<times> str) list \<Rightarrow> 'r rope_buffer option" where
  "apply_edits R b [] = Some b"
| "apply_edits R b ((rg, r) # es) =
     (case buf_edit R rg r b of (Ok _, b') \<Rightarrow> apply_edits R b' es | _ \<Rightarrow> None)"

fun deltas_of :: "nat \<Rightarrow> (source_range \<times> str) list \<Rightarrow> revision_delta list" where
  "deltas_of rv [] = []"
| "deltas_of rv ((rg, r) # es) = delta_of rv rg (str_len r) # deltas_of (Suc rv) es"

definition inserted_len :: "(source_range \<times> str) list \<Rightarrow> nat" where
  "inserted_len es = sum_list (map (str_len \<circ> snd) es)"

lemma length_deltas_of [simp]: "length (deltas_of rv es) = length es"
  by (induction rv es rule: deltas_of.induct) auto

lemma push_delta_deltas:
  "length (buf_deltas b) \<le> delta_capacity b \<Longrightarrow>
   buf_deltas (push_delta b d) =
     drop (length (buf_deltas b) + 1 - delta_capacity b) (buf_deltas b @ [d])"
proof (cases "length (buf_deltas b) < delta_capacity b")
  case False
  assume "length (buf_deltas b) \<le> delta_capacity b"
  with False have "length (buf_deltas b) = delta_capacity b" by simp
  then show ?thesis by (cases "buf_deltas b") (auto simp: push_delta_def Let_def drop_Suc)
qed (simp add: push_delta_def Let_def)

context ropey
begin

lemma buf_edit_cases:
  assumes "buffer_inv R b"
  shows "(\<exists>b'. buf_edit R rg r b = (Ok (summary_of (buf_revision b) (full_text R b) rg r), b') \<and>
            valid_range R b rg \<and> buffer_inv R b' \<and>
            full_text R b' = splice (full_text R b) (range_start rg) (range_end rg) r \<and>
            buf_revision b' = Suc (buf_revision b) \<and>
            buf_deltas b' = buf_deltas (push_delta b (delta_of (buf_revision b) rg (str_len r))) \<and>
            delta_capacity b' = delta_capacity b)
       \<or> fst (buf_edit R rg r b) = Panic \<or> (\<exists>e. fst (buf_edit R rg r b) = Err e)"
proof (cases "valid_range R b rg")
  case False
  then show ?thesis using buf_edit_Err[OF False, of r] by auto
next
  case valid: True
  show ?thesis
  proof (cases "buf_revision b + 1 < u64_bound")
    case True
    show ?thesis by (rule buf_edit_Ok[OF assms valid True]) (use valid in auto)
  next
    case False
    have "validate_range R b rg = Ok ()" using valid by simp
    then have "fst (buf_edit R rg r b) = Panic"
      using False by (simp add: buf_edit_def Let_def checked_add_def del: validate_range_Ok)
    then show ?thesis by blast
  qed
qed

lemma apply_edits_step:
  assumes "buffer_inv R b" and "apply_edits R b ((rg, r) # es) = Some b'"
  obtains c where "apply_edits R c es = Some b'" and "valid_range R b rg" and "buffer_inv R c"
    and "full_text R c = splice (full_text R b) (range_start rg) (range_end rg) r"
    and "buf_revision c = Suc (buf_revision b)"
    and "buf_deltas c = buf_deltas (push_delta b (delta_of (buf_revision b) rg (str_len r)))"
    and "delta_capacity c = delta_capacity b"
  using buf_edit_cases[OF assms(1), of rg r] assms(2)
  by (cases "buf_edit R rg r b") (auto split: res.splits)

lemma apply_edits_deltas:
  assumes "buffer_inv R b" and "apply_edits R b es = Some b'"
  shows "buffer_inv R b' \<and> buf_revision b' = buf_revision b + length es \<and>
    delta_capacity b' = delta_capacity b \<and>
    buf_deltas b' = drop (length (buf_deltas b) + length es - delta_capacity b)
                         (buf_deltas b @ deltas_of (buf_revision b) es)"
  using assms
proof (induction es arbitrary: b)
  case Nil
  then show ?case by (auto simp: buffer_inv_def history_inv_def)
next
  case (Cons e es)
  obtain rg r where e: "e = (rg, r)" by (cases e)
  obtain c where c: "apply_edits R c es = Some b'" "buffer_inv R c"
    "buf_revision c = Suc (buf_revision b)"
    "buf_deltas c = buf_deltas (push_delta b (delta_of (buf_revision b) rg (str_len r)))"
    "delta_capacity c = delta_capacity b"
    using apply_edits_step[OF Cons.prems(1), of rg r es b'] Cons.prems(2) e by metis
  have le: "length (buf_deltas b) \<le> delta_capacity b"
    using Cons.prems(1) by (simp add: buffer_inv_def history_inv_def)
  define k where "k = length (buf_deltas b) + 1 - delta_capacity b"
  have dc: "buf_deltas c = drop k (buf_deltas b @ [delta_of (buf_revision b) rg (str_len r)])"
    unfolding c(4) k_def using le by (rule push_delta_deltas)
  have kle: "k \<le> length (buf_deltas b) + 1" and k1: "k \<le> 1" using le by (auto simp: k_def)
  have len: "length (buf_deltas c) = length (buf_deltas b) + 1 - k" using dc by simp
  have "drop (length (buf_deltas c) + length es - delta_capacity b)
          (buf_deltas c @ deltas_of (Suc (buf_revision b)) es) =
        drop (length (buf_deltas b) + length (e # es) - delta_capacity b)
          (buf_deltas b @ deltas_of (buf_revision b) (e # es))"
  proof -
    let ?all = "buf_deltas b @ deltas_of (buf_revision b) (e # es)"
    have cat: "buf_deltas c @ deltas_of (Suc (buf_revision b)) es = drop k ?all"
    proof -
      have "drop k ((buf_deltas b @ [delta_of (buf_revision b) rg (str_len r)]) @
            deltas_of (Suc (buf_revision b)) es) =
          drop k (buf_deltas b @ [delta_of (buf_revision b) rg (str_len r)]) @
            deltas_of (Suc (buf_revision b)) es"
        using kle by (subst drop_append) simp
      then show ?thesis using dc e by (simp del: drop_append)
    qed
    have "length (buf_deltas c) + length es - delta_capacity b + k =
        length (buf_deltas b) + length (e # es) - delta_capacity b"
      unfolding len using kle k1 by (cases "k = 0") (auto simp: k_def)
    then show ?thesis unfolding cat by (simp only: drop_drop)
  qed
  then show ?case using Cons.IH[OF c(2,1)] c(3,5) by simp
qed

lemma transform_all_edits:
  assumes "buffer_inv R b" and "apply_edits R b es = Some b'"
    and "is_boundary (full_text R b) p"
    and "str_len (full_text R b) + inserted_len es < u64_bound"
  shows "\<exists>q. transform_all (deltas_of (buf_revision b) es) p bs = Some q \<and> is_boundary (full_text R b') q"
  using assms
proof (induction es arbitrary: b p)
  case (Cons e es)
  obtain rg r where e: "e = (rg, r)" by (cases e)
  obtain c where c: "apply_edits R c es = Some b'" "valid_range R b rg" "buffer_inv R c"
    "full_text R c = splice (full_text R b) (range_start rg) (range_end rg) r"
    "buf_revision c = Suc (buf_revision b)"
    using apply_edits_step[OF Cons.prems(1), of rg r es b'] Cons.prems(2) e by metis
  have v: "is_boundary (full_text R b) (range_start rg)" "is_boundary (full_text R b) (range_end rg)"
    "range_start rg \<le> range_end rg"
    using c(2) by (auto simp: valid_range_def)
  have "p - range_len rg + str_len r \<le> str_len (full_text R b) + str_len r"
    using carried_le[of p "str_len (full_text R b)" rg "str_len r"] Cons.prems(3) v
    by (simp add: is_boundary_le)
  then have fit: "p - range_len rg + str_len r < u64_bound"
    using Cons.prems(4) e by (simp add: inserted_len_def)
  have "is_boundary (full_text R c) (carried rg (str_len r) p bs)"
    unfolding c(4) by (rule carried_boundary[OF v Cons.prems(3)])
  moreover have "str_len (full_text R c) + inserted_len es < u64_bound"
    using Cons.prems(4) e v by (simp add: c(4) str_len_splice inserted_len_def)
  ultimately obtain q where "transform_all (deltas_of (buf_revision c) es) (carried rg (str_len r) p bs) bs = Some q"
    "is_boundary (full_text R b') q"
    using Cons.IH[OF c(3,1)] by blast
  then show ?case
    using transform_offset_carried[OF v(3) fit] c(5) e by simp
qed simp

lemma anchor_resolves:
  assumes "buffer_inv R b" and "apply_edits R b es = Some b'" and "length es \<le> delta_capacity b"
    and "is_boundary (full_text R b) p"
    and "str_len (full_text R b) + inserted_len es < u64_bound"
  shows "\<exists>q. resolve_anchor R b' \<lparr>anchor_offset = p, anchor_bias = bs\<rparr> (buf_revision b) = Ok q \<and>
    is_boundary (full_text R b') q \<and> transform_all (deltas_of (buf_revision b) es) p bs = Some q"
proof -
  note b' = apply_edits_deltas[OF assms(1,2)]
  obtain q where q: "transform_all (deltas_of (buf_revision b) es) p bs = Some q"
    "is_boundary (full_text R b') q"
    using transform_all_edits[OF assms(1,2,4,5)] by blast
  show ?thesis
  proof (cases es)
    case Nil
    then have "b' = b" "q = p" using assms(2) q(1) by simp_all
    moreover have "validate_offset R b p = Ok ()" using assms(4) by simp
    ultimately show ?thesis
      using assms(4) Nil by (simp add: resolve_anchor_def del: validate_offset_Ok)
  next
    case (Cons e es')
    let ?ds = "buf_deltas b @ deltas_of (buf_revision b) es"
    let ?n = "length (buf_deltas b) + length es - delta_capacity b"
    have inv: "history_inv b'" using b' by (simp add: buffer_inv_def)
    have len: "length (buf_deltas b') = length (buf_deltas b) + length es - ?n"
      using b' by simp
    have nle: "?n \<le> length (buf_deltas b)" using assms(3) by simp
    have lenle: "length (buf_deltas b') \<le> buf_revision b'" using inv by (simp add: history_inv_def)
    have rv: "buf_revision b' = buf_revision b + length es" using b' by simp
    have d: "buf_revision b - (buf_revision b' - length (buf_deltas b')) = length (buf_deltas b) - ?n"
      and lo: "buf_revision b' - length (buf_deltas b') \<le> buf_revision b"
      using len nle lenle rv by simp_all
    have "deltas_since b' (buf_revision b) = Ok (drop (length (buf_deltas b) - ?n) (buf_deltas b'))"
      using deltas_since_window[OF inv lo] rv d by simp
    also have "drop (length (buf_deltas b) - ?n) (buf_deltas b') = deltas_of (buf_revision b) es"
      using b' nle by simp
    finally have ds: "deltas_since b' (buf_revision b) = Ok (deltas_of (buf_revision b) es)" .
    have "validate_offset R b' q = Ok ()" using q by simp
    moreover have "buf_revision b \<noteq> buf_revision b'" using rv Cons by simp
    ultimately show ?thesis
      using q ds by (simp add: resolve_anchor_def del: validate_offset_Ok)
  qed
qed

end

end
