(* ===== verification/Rope_Snapshot.thy ===== *)
theory Rope_Snapshot
  imports Buffer_Facts
begin

text \<open>
  Streaming the source out of a buffer (\<open>crates/document/src/lib.rs\<close>, lines
  228-272 and 361-381): the \<open>io::Read\<close> implementation of \<open>RopeSnapshot\<close> and
  \<open>write_to\<close>.  A reader copies at most the rest of one chunk per call; the lemmas
  show that each call makes progress and that a reader which calls until it gets
  \<open>Ok(0)\<close> has read exactly the bytes of the text.
\<close>

record 'r rope_snapshot =
  snap_rope :: 'r
  byte_offset :: nat

definition snapshot :: "'r rope_buffer \<Rightarrow> 'r rope_snapshot" where
  "snapshot b = \<lparr>snap_rope = rope b, byte_offset = 0\<rparr>"

definition snapshot_len_bytes :: "('r, 'z) rope_api_scheme \<Rightarrow> 'r rope_snapshot \<Rightarrow> nat" where
  "snapshot_len_bytes R s = rope_len_bytes R (snap_rope s)"

definition snapshot_is_empty :: "('r, 'z) rope_api_scheme \<Rightarrow> 'r rope_snapshot \<Rightarrow> bool" where
  "snapshot_is_empty R s \<longleftrightarrow> rope_len_bytes R (snap_rope s) = 0"

datatype io_error = NoReadProgress

text \<open>\<open>read\<close> into an output of \<open>n\<close> bytes: the bytes copied.\<close>

definition snapshot_read ::
  "('r, 'z) rope_api_scheme \<Rightarrow> nat \<Rightarrow> ('r rope_snapshot, io_error, nat list) step" where
  "snapshot_read R n s =
     (if n = 0 \<or> byte_offset s = rope_len_bytes R (snap_rope s) then (Ok [], s)
      else
        let (chunk, chunk_byte_offset) = rope_chunk_at_byte R (snap_rope s) (byte_offset s);
            offset_in_chunk = byte_offset s - chunk_byte_offset;
            byte_count = min n (str_len chunk - offset_in_chunk)
        in if byte_count = 0 then (Err NoReadProgress, s)
           else (Ok (take byte_count (drop offset_in_chunk (as_bytes chunk))),
                 s\<lparr>byte_offset := byte_offset s + byte_count\<rparr>))"

text \<open>A caller that reads with outputs of \<open>n\<close> bytes until it gets no more.\<close>

fun read_to_end ::
  "('r, 'z) rope_api_scheme \<Rightarrow> nat \<Rightarrow> nat \<Rightarrow> 'r rope_snapshot \<Rightarrow> (io_error, nat list) res" where
  "read_to_end R n 0 s = Hang"
| "read_to_end R n (Suc fuel) s =
     (case snapshot_read R n s of
        (Ok bs, s') \<Rightarrow> (if bs = [] then Ok [] else res_map (\<lambda>rest. bs @ rest) (read_to_end R n fuel s'))
      | (Err e, _) \<Rightarrow> Err e
      | (Panic, _) \<Rightarrow> Panic
      | (Hang, _) \<Rightarrow> Hang)"

text \<open>\<open>write_to\<close>: the writer is a state with a \<open>write_all\<close> operation.\<close>

fun write_chunks ::
  "('w \<Rightarrow> nat list \<Rightarrow> ('e, unit) res \<times> 'w) \<Rightarrow> str list \<Rightarrow> ('w, 'e, unit) step" where
  "write_chunks write_all [] w = (Ok (), w)"
| "write_chunks write_all (c # cs) w =
     step_bind (write_all w (as_bytes c)) (\<lambda>_. write_chunks write_all cs)"

definition write_to ::
  "('r, 'z) rope_api_scheme \<Rightarrow> ('w \<Rightarrow> nat list \<Rightarrow> ('e, unit) res \<times> 'w) \<Rightarrow>
   'r rope_buffer \<Rightarrow> ('w, 'e, unit) step" where
  "write_to R write_all b w = write_chunks write_all (rope_chunks R (rope b)) w"

section \<open>Facts\<close>

context ropey
begin

lemma snapshot_read_progress:
  assumes "0 < n" and "byte_offset s < str_len (rope_str R (snap_rope s))"
  obtains k where "0 < k" and "k \<le> n"
    and "byte_offset s + k \<le> str_len (rope_str R (snap_rope s))"
    and "snapshot_read R n s =
      (Ok (take k (drop (byte_offset s) (as_bytes (rope_str R (snap_rope s))))),
       s\<lparr>byte_offset := byte_offset s + k\<rparr>)"
proof -
  let ?s = "rope_str R (snap_rope s)"
  obtain c off where ch: "rope_chunk_at_byte R (snap_rope s) (byte_offset s) = (c, off)" by fastforce
  obtain pre post where s: "?s = pre @ c @ post" "off = str_len pre" "off \<le> byte_offset s"
    "byte_offset s < off + str_len c"
    using chunk_at_byte[OF less_imp_le[OF assms(2)] ch] assms(2) by blast
  define i where "i = byte_offset s - off"
  define k where "k = min n (str_len c - i)"
  have i: "i < str_len c" "byte_offset s = str_len pre + i" using s by (simp_all add: i_def)
  have bytes: "as_bytes ?s = as_bytes pre @ as_bytes c @ as_bytes post" using s by simp
  have k: "0 < k" "k \<le> n" "byte_offset s + k \<le> str_len ?s"
    using i s assms(1) by (simp_all add: k_def)
  have cut: "take k (drop (byte_offset s) (as_bytes ?s)) = take k (drop i (as_bytes c))"
    using i unfolding bytes by (simp add: k_def)
  have "snapshot_read R n s = (Ok (take k (drop i (as_bytes c))), s\<lparr>byte_offset := byte_offset s + k\<rparr>)"
    using assms k(1) ch by (simp add: snapshot_read_def Let_def flip: i_def k_def)
  then show ?thesis using that[OF k] cut by simp
qed

lemma read_to_end_from:
  assumes "0 < n" and "byte_offset s \<le> str_len (rope_str R (snap_rope s))"
    and "str_len (rope_str R (snap_rope s)) - byte_offset s < fuel"
  shows "read_to_end R n fuel s = Ok (drop (byte_offset s) (as_bytes (rope_str R (snap_rope s))))"
  using assms(2,3)
proof (induction fuel arbitrary: s)
  case (Suc fuel)
  let ?s = "rope_str R (snap_rope s)"
  show ?case
  proof (cases "byte_offset s = str_len ?s")
    case True
    then show ?thesis by (simp add: snapshot_read_def)
  next
    case False
    then have lt: "byte_offset s < str_len ?s" using Suc.prems(1) by simp
    obtain k where k: "0 < k" "byte_offset s + k \<le> str_len ?s" and
      rd: "snapshot_read R n s = (Ok (take k (drop (byte_offset s) (as_bytes ?s))),
         s\<lparr>byte_offset := byte_offset s + k\<rparr>)"
      using snapshot_read_progress[OF assms(1) lt] by blast
    have ne: "take k (drop (byte_offset s) (as_bytes ?s)) \<noteq> []" using k by simp
    have "read_to_end R n fuel (s\<lparr>byte_offset := byte_offset s + k\<rparr>) =
        Ok (drop (byte_offset s + k) (as_bytes ?s))"
      using Suc.IH[of "s\<lparr>byte_offset := byte_offset s + k\<rparr>"] Suc.prems(2) k by simp
    moreover have "take k (drop (byte_offset s) (as_bytes ?s)) @ drop (byte_offset s + k) (as_bytes ?s) =
        drop (byte_offset s) (as_bytes ?s)"
      by (metis append_take_drop_id drop_drop add.commute)
    ultimately show ?thesis using rd ne by simp
  qed
qed simp

lemma read_to_end_snapshot:
  "0 < n \<Longrightarrow> str_len (full_text R b) < fuel \<Longrightarrow>
   read_to_end R n fuel (snapshot b) = Ok (as_bytes (full_text R b))"
  using read_to_end_from[of n "snapshot b" fuel] by (simp add: snapshot_def full_text_def)

end

end
