(* ===== verification/Rolling_Window.thy ===== *)
theory Rolling_Window
  imports Prelude
begin

text \<open>
  \<open>RollingWindow\<close> of \<open>crates/metrics/src/lib.rs\<close> (lines 113-167): a bounded queue
  of the most recent samples.  The editor keeps its input measurements in one.
\<close>

record 'a rolling_window =
  rw_capacity :: nat
  rw_values :: "'a list"

definition rw_new :: "nat \<Rightarrow> (unit, 'a rolling_window) res" where
  "rw_new capacity = (if capacity > 0 then Ok \<lparr>rw_capacity = capacity, rw_values = []\<rparr> else Panic)"

definition rw_push :: "'a rolling_window \<Rightarrow> 'a \<Rightarrow> 'a rolling_window" where
  "rw_push w v =
     w\<lparr>rw_values := (if length (rw_values w) = rw_capacity w then tl (rw_values w) else rw_values w) @ [v]\<rparr>"

fun rw_extend :: "'a rolling_window \<Rightarrow> 'a list \<Rightarrow> 'a rolling_window" where
  "rw_extend w [] = w"
| "rw_extend w (v # vs) = rw_extend (rw_push w v) vs"

definition rw_len :: "'a rolling_window \<Rightarrow> nat" where
  "rw_len w = length (rw_values w)"

definition rw_back :: "'a rolling_window \<Rightarrow> 'a option" where
  "rw_back w = last_of (rw_values w)"

definition rw_take_all :: "'a rolling_window \<Rightarrow> 'a list \<times> 'a rolling_window" where
  "rw_take_all w = (rw_values w, w\<lparr>rw_values := []\<rparr>)"

definition rw_inv :: "'a rolling_window \<Rightarrow> bool" where
  "rw_inv w \<longleftrightarrow> 0 < rw_capacity w \<and> length (rw_values w) \<le> rw_capacity w"

lemma rw_inv_new: "rw_new n = Ok w \<Longrightarrow> rw_inv w"
  by (auto simp: rw_new_def rw_inv_def split: if_splits)

lemma rw_inv_push [simp]: "rw_inv w \<Longrightarrow> rw_inv (rw_push w v)"
  by (auto simp: rw_inv_def rw_push_def)

lemma rw_capacity_push [simp]: "rw_capacity (rw_push w v) = rw_capacity w"
  by (simp add: rw_push_def)

lemma rw_inv_extend: "rw_inv w \<Longrightarrow> rw_inv (rw_extend w vs)"
  by (induction w vs rule: rw_extend.induct) auto

lemma rw_push_values:
  "rw_inv w \<Longrightarrow>
   rw_values (rw_push w v) = drop (length (rw_values w) + 1 - rw_capacity w) (rw_values w @ [v])"
  by (cases "rw_values w") (auto simp: rw_inv_def rw_push_def drop_Suc)

text \<open>The window holds the last \<open>capacity\<close> samples, in order.\<close>

lemma rw_extend_values:
  "rw_inv w \<Longrightarrow>
   rw_values (rw_extend w vs) =
     drop (length (rw_values w @ vs) - rw_capacity w) (rw_values w @ vs)"
proof (induction w vs rule: rw_extend.induct)
  case (2 w v vs)
  let ?k = "length (rw_values w) + 1 - rw_capacity w"
  have pv: "rw_values (rw_push w v) = drop ?k (rw_values w @ [v])"
    using "2.prems" by (rule rw_push_values)
  have k: "?k \<le> 1" using "2.prems" by (auto simp: rw_inv_def)
  have cat: "rw_values (rw_push w v) @ vs = drop ?k (rw_values w @ v # vs)"
    using pv k by (cases "rw_values w") (auto simp: le_Suc_eq)
  have "rw_values (rw_extend (rw_push w v) vs) =
      drop (length (rw_values (rw_push w v) @ vs) - rw_capacity w) (rw_values (rw_push w v) @ vs)"
    using "2.IH" "2.prems" by simp
  also have "\<dots> = drop (length (rw_values w @ v # vs) - ?k - rw_capacity w + ?k) (rw_values w @ v # vs)"
    unfolding cat by (simp only: drop_drop length_drop)
  also have "length (rw_values w @ v # vs) - ?k - rw_capacity w + ?k = length (rw_values w @ v # vs) - rw_capacity w"
    using k "2.prems" by (auto simp: rw_inv_def)
  finally show ?case by simp
qed (simp add: rw_inv_def)

end
