(* ===== verification/Document_Claims.thy ===== *)
theory Document_Claims
  imports Line_Facts Anchor_Facts Rope_Snapshot Rolling_Window
begin

text \<open>
  The properties of the document crate: what an edit does to the text, its
  mirror and its revision history, that the line index is the line splitting of
  Markdown sources, that anchors survive edits, and that the UTF-16 conversions
  and the byte stream are exact.
\<close>

text \<open>C1: Editing is a splice of the text.  An edit of a valid range is accepted:
  the new text is the old one with the bytes of the range replaced, the summary
  reports exactly what was removed and inserted, the revision grows by one, and
  the invariant (the line mirror is the mirror of the text, the deltas are
  consecutive) is kept, although the code patches the mirror only around the
  edit.\<close>

theorem edit_splices:
  assumes "ropey R" and "buffer_inv R b" and "valid_range R b rg" and "buf_revision b + 1 < u64_bound"
  shows "\<exists>b'. buf_edit R rg r b = (Ok (summary_of (buf_revision b) (full_text R b) rg r), b') \<and>
    buffer_inv R b' \<and> buf_revision b' = buf_revision b + 1 \<and>
    full_text R b' = splice (full_text R b) (range_start rg) (range_end rg) r"
  by (rule ropey.buf_edit_Ok[OF assms, of r]) auto

theorem edit_splices_witness:
  "\<exists>b'. buf_edit list_rope (source_range_new 1 2) [10] (from_text list_rope [97, 98, 13, 99]) =
      (Ok (summary_of 0 [97, 98, 13, 99] (source_range_new 1 2) [10]), b') \<and>
    full_text list_rope b' = [97, 10, 13, 99]"
  using edit_splices[OF list_rope.ropey_axioms, of "from_text list_rope [97, 98, 13, 99]"
      "source_range_new 1 2" "[10]"] list_rope.buffer_inv_from_text[of "[97, 98, 13, 99]"]
  by (simp add: valid_range_def is_boundary_def u64_bound_def len_utf8_def splice_def
      from_text_def from_rope_def full_text_def char_to_byte_def list_rope_def) blast

text \<open>An edit of an invalid range changes nothing and reports why: an inverted
  range, an end past the text, or an end inside a character, in the order the
  code tests them.\<close>

theorem edit_rejects:
  assumes "ropey R" and "\<not> valid_range R b rg"
  shows "buf_edit R rg r b =
    (Err (if range_start rg > range_end rg then InvalidRange rg
          else if range_end rg > str_len (full_text R b)
          then RangeOutOfBounds rg (str_len (full_text R b))
          else if \<not> is_boundary (full_text R b) (range_start rg) then NotCharBoundary (range_start rg)
          else NotCharBoundary (range_end rg)), b)"
  using ropey.buf_edit_rejects[OF assms] .

theorem edit_rejects_witness:
  "buf_edit list_rope (source_range_new 0 1) [] (from_text list_rope [233]) =
     (Err (NotCharBoundary 1), from_text list_rope [233])"
  using edit_rejects[OF list_rope.ropey_axioms, of "from_text list_rope [233]" "source_range_new 0 1" "[]"]
  by (simp add: valid_range_def is_boundary_def len_utf8_def from_text_def from_rope_def
      full_text_def list_rope_def)

text \<open>C2: The inverse that an edit reports undoes it: applying it to the edited
  buffer is accepted and gives back the text.\<close>

theorem edit_inverse_restores:
  assumes "ropey R" and "buffer_inv R b" and "buf_revision b + 2 < u64_bound"
    and "buf_edit R rg r b = (Ok sm, b')"
  shows "\<exists>sm' b''. buf_edit R (inverse_range (edit_inverse sm))
      (inverse_replacement (edit_inverse sm)) b' = (Ok sm', b'') \<and>
    full_text R b'' = full_text R b"
  using ropey.buf_edit_inverse[OF assms] .

theorem edit_inverse_restores_witness:
  "\<exists>sm b'. buf_edit list_rope (source_range_new 0 2) [98] (from_text list_rope [233]) = (Ok sm, b') \<and>
    (\<exists>sm' b''. buf_edit list_rope (inverse_range (edit_inverse sm))
        (inverse_replacement (edit_inverse sm)) b' = (Ok sm', b'') \<and>
      full_text list_rope b'' = [233])"
proof -
  let ?b = "from_text list_rope [233]" and ?rg = "source_range_new 0 2"
  have b: "buffer_inv list_rope ?b" "buf_revision ?b = 0"
    using list_rope.buffer_inv_from_text by (auto simp: from_text_def from_rope_def)
  have v: "valid_range list_rope ?b ?rg"
    by (simp add: valid_range_def is_boundary_def len_utf8_def char_to_byte_def)
  obtain b' where e: "buf_edit list_rope ?rg [98] ?b = (Ok (summary_of 0 [233] ?rg [98]), b')"
    using list_rope.buf_edit_Ok[OF b(1) v, of "[98]"] b(2) by (auto simp: u64_bound_def)
  show ?thesis
    using e edit_inverse_restores[OF list_rope.ropey_axioms b(1) _ e] b(2)
    by (auto simp: u64_bound_def)
qed

text \<open>C3: The line index is the line splitting of the source.  The line count,
  the byte range of every line and the range of its content agree with cutting
  the text after every LF, CRLF and bare CR, although the rope underneath counts
  LF only; a line past the end is the error the code names.\<close>

theorem line_index_is_source_lines:
  assumes "ropey R" and "buffer_inv R b"
  shows "line_count R b = length (source_lines (full_text R b)) \<and>
    line_range R b l =
      (if l < length (source_lines (full_text R b)) then Ok (line_span (full_text R b) l)
       else Err (InvalidLineColumn l 0)) \<and>
    line_content_range R b l =
      (if l < length (source_lines (full_text R b)) then Ok (content_span (full_text R b) l)
       else Err (InvalidLineColumn l 0))"
  using ropey.line_count_eq[OF assms] ropey.line_range_eq[OF assms]
    ropey.line_content_range_eq[OF assms] by simp

theorem line_index_is_source_lines_witness:
  "line_count list_rope (from_text list_rope [97, 13, 98, 13, 10, 10]) = 4 \<and>
   line_content_range list_rope (from_text list_rope [97, 13, 98, 13, 10, 10]) 1 =
     Ok (source_range_new 2 3)"
  using line_index_is_source_lines[OF list_rope.ropey_axioms
      list_rope.buffer_inv_from_text[of "[97, 13, 98, 13, 10, 10]"], of 1]
  by (simp add: LF_def CR_def next_is_lf_def content_span_def line_content_def len_utf8_def Let_def)

text \<open>The line of an offset contains it: the line that \<open>line_for_offset\<close>
  answers exists, its byte range starts at or before the offset and, unless it is
  the last line, ends after it.\<close>

theorem line_for_offset_contains:
  assumes "ropey R" and "buffer_inv R b" and "is_boundary (full_text R b) p"
  shows "\<exists>l rg. line_for_offset R b p = Ok l \<and> l < line_count R b \<and> line_range R b l = Ok rg \<and>
    range_start rg \<le> p \<and> p \<le> range_end rg \<and> (l + 1 < line_count R b \<longrightarrow> p < range_end rg)"
  using ropey.line_for_offset_span[OF assms] .

theorem line_for_offset_contains_witness:
  "\<exists>l rg. line_for_offset list_rope (from_text list_rope [97, 13, 98]) 2 = Ok l \<and>
    line_range list_rope (from_text list_rope [97, 13, 98]) l = Ok rg \<and> range_start rg \<le> 2"
  using line_for_offset_contains[OF list_rope.ropey_axioms
      list_rope.buffer_inv_from_text[of "[97, 13, 98]"], of 2]
  by (fastforce simp: is_boundary_def len_utf8_def)

text \<open>A line and a char column name the byte after that many chars of the
  line's content; a column past the content is refused.\<close>

theorem offset_for_line_col_spec:
  assumes "ropey R" and "buffer_inv R b" and "l < length (source_lines (full_text R b))"
  shows "offset_for_line_col R b l col =
    (let x = line_content (source_lines (full_text R b) ! l)
     in if col \<le> length x
        then Ok (range_start (line_span (full_text R b) l) + char_to_byte x col)
        else Err (InvalidLineColumn l col))"
  using ropey.offset_for_line_col_eq[OF assms] .

theorem offset_for_line_col_spec_witness:
  "offset_for_line_col list_rope (from_text list_rope [97, 13, 233, 98]) 1 1 = Ok 4"
  using offset_for_line_col_spec[OF list_rope.ropey_axioms
      list_rope.buffer_inv_from_text[of "[97, 13, 233, 98]"], of 1 1]
  by (simp add: LF_def CR_def next_is_lf_def line_span_def line_content_def len_utf8_def
      char_to_byte_def Let_def)

text \<open>C4: Anchors survive edits.  An anchor made at any char boundary resolves
  after any run of accepted edits that the delta window still holds: the answer
  is a char boundary of the new text, reached by carrying the offset through the
  deltas of those edits in order.\<close>

theorem anchor_survives_edits:
  assumes "ropey R" and "buffer_inv R b" and "apply_edits R b es = Some b'"
    and "length es \<le> delta_capacity b" and "is_boundary (full_text R b) p"
    and "str_len (full_text R b) + inserted_len es < u64_bound"
  shows "\<exists>q. resolve_anchor R b' \<lparr>anchor_offset = p, anchor_bias = bs\<rparr> (buf_revision b) = Ok q \<and>
    is_boundary (full_text R b') q \<and> transform_all (deltas_of (buf_revision b) es) p bs = Some q"
  using ropey.anchor_resolves[OF assms] .

theorem anchor_survives_edits_witness:
  "\<exists>b' q. apply_edits list_rope (from_text list_rope [97, 98])
      [(source_range_new 0 1, [233, 99])] = Some b' \<and>
    resolve_anchor list_rope b' \<lparr>anchor_offset = 1, anchor_bias = After\<rparr> 0 = Ok q"
proof -
  let ?b = "from_text list_rope [97, 98]" and ?rg = "source_range_new 0 1"
  have b: "buffer_inv list_rope ?b" "buf_revision ?b = 0" "delta_capacity ?b = 4096"
    using list_rope.buffer_inv_from_text by (auto simp: from_text_def from_rope_def)
  have v: "valid_range list_rope ?b ?rg"
    by (simp add: valid_range_def is_boundary_def len_utf8_def char_to_byte_def)
  have room: "buf_revision ?b + 1 < u64_bound" by (simp add: b(2) u64_bound_def)
  obtain b' where "buf_edit list_rope ?rg [233, 99] ?b =
      (Ok (summary_of (buf_revision ?b) (full_text list_rope ?b) ?rg [233, 99]), b')"
    by (rule list_rope.buf_edit_Ok[OF b(1) v room])
  then have "apply_edits list_rope ?b [(?rg, [233, 99])] = Some b'" by simp
  then show ?thesis
    using anchor_survives_edits[OF list_rope.ropey_axioms b(1), of "[(?rg, [233, 99])]" b' 1 After] b(2,3)
    by (auto simp: is_boundary_def len_utf8_def char_to_byte_def inserted_len_def u64_bound_def)
qed

text \<open>\<open>deltas_since\<close> returns the deltas recorded after a revision of the
  window, all of them and in order, and refuses every other revision.\<close>

theorem deltas_since_exact:
  assumes "history_inv b"
  shows "deltas_since b rv =
    (if buf_revision b - length (buf_deltas b) \<le> rv \<and> rv \<le> buf_revision b
     then Ok (drop (rv - (buf_revision b - length (buf_deltas b))) (buf_deltas b))
     else Err (RevisionHistoryUnavailable rv (buf_revision b)))"
  using deltas_since_total[OF assms] .

theorem deltas_since_exact_witness:
  "deltas_since \<lparr>rope = (), line_mirror = (), buf_revision = 6,
     buf_deltas = [delta_of 4 (source_range_new 0 0) 1, delta_of 5 (source_range_new 0 0) 2],
     delta_capacity = 2\<rparr> 5 = Ok [delta_of 5 (source_range_new 0 0) 2]"
  using deltas_since_exact[of "\<lparr>rope = (), line_mirror = (), buf_revision = 6,
     buf_deltas = [delta_of 4 (source_range_new 0 0) 1, delta_of 5 (source_range_new 0 0) 2],
     delta_capacity = 2\<rparr>" 5]
  by (simp add: history_inv_def)

text \<open>C5: UTF-16 offsets round trip: the UTF-16 offset of a char boundary converts
  back to it, and every UTF-16 offset, also one inside a surrogate pair or past
  the end, converts to a char boundary.\<close>

theorem utf16_offsets_round_trip:
  assumes "ropey R" and "is_boundary (full_text R b) p"
  shows "(\<exists>u. byte_to_utf16 R b p = Ok u \<and> utf16_to_byte R b u = p) \<and>
    is_boundary (full_text R b) (utf16_to_byte R b v)"
  using ropey.utf16_round_trip[OF assms] ropey.utf16_to_byte_boundary[OF assms(1)] by simp

theorem utf16_offsets_round_trip_witness:
  "\<exists>u. byte_to_utf16 list_rope (from_text list_rope [128512, 97]) 4 = Ok u \<and>
    utf16_to_byte list_rope (from_text list_rope [128512, 97]) u = 4"
  using utf16_offsets_round_trip[OF list_rope.ropey_axioms, of "from_text list_rope [128512, 97]" 4]
  by (simp add: is_boundary_def len_utf8_def)

text \<open>The byte loop of \<open>mirror_bare_cr\<close> is the mirror of the chars: it
  rewrites exactly the bytes of bare CRs, so its output is valid UTF-8 of a text
  with the same char boundaries, and mirroring the chunks of a rope one by one
  gives the mirror of the whole text, whatever the chunking.\<close>

theorem mirror_loop_is_char_mirror:
  "mirror_bytes (as_bytes s) t = as_bytes (mirror_bare_cr s t) \<and>
   is_boundary (mirror_bare_cr s t) = is_boundary s \<and>
   concat (mirror_chunks ss) = mirror_bare_cr (concat ss) False"
  using as_bytes_mirror[of s t] concat_mirror_chunks[of ss] is_boundary_mirror by simp

text \<open>Reading a snapshot to the end returns: with any non-empty output buffer
  a caller that reads until it gets no bytes has all bytes of the text, in order,
  and one read per byte and one more is enough.\<close>

theorem snapshot_reads_all_bytes:
  assumes "ropey R" and "0 < n" and "str_len (full_text R b) < fuel"
  shows "read_to_end R n fuel (snapshot b) = Ok (as_bytes (full_text R b))"
  using ropey.read_to_end_snapshot[OF assms] .

theorem snapshot_reads_all_bytes_witness:
  "read_to_end list_rope 1 4 (snapshot (from_text list_rope [233, 97])) = Ok [195, 169, 97]"
  using snapshot_reads_all_bytes[OF list_rope.ropey_axioms, of 1 "from_text list_rope [233, 97]" 4]
  by (simp add: len_utf8_def encode_char_def)

text \<open>A rolling window holds the most recent samples: after any run of pushes
  it holds the last \<open>capacity\<close> of them in order, and never more.\<close>

theorem rolling_window_keeps_latest:
  assumes "rw_inv w"
  shows "rw_values (rw_extend w vs) =
      drop (length (rw_values w @ vs) - rw_capacity w) (rw_values w @ vs) \<and>
    rw_inv (rw_extend w vs)"
  using rw_extend_values[OF assms] rw_inv_extend[OF assms] by simp

theorem rolling_window_keeps_latest_witness:
  "rw_values (rw_extend \<lparr>rw_capacity = 2, rw_values = [1::nat]\<rparr> [2, 3, 4]) = [3, 4]"
  using rolling_window_keeps_latest[of "\<lparr>rw_capacity = 2, rw_values = [1::nat]\<rparr>" "[2, 3, 4]"]
  by (simp add: rw_inv_def)

end
