(* ===== verification/Session_Identity.thy ===== *)
theory Session_Identity
  imports Rope_Snapshot
begin

text \<open>
  File identity, fingerprints and the file side of a session
  (\<open>crates/session/src/identity.rs\<close>).  A path is the list of components
  \<open>Path::components\<close> yields, which is what \<open>Path\<close>'s equality, \<open>starts_with\<close> and
  \<open>strip_prefix\<close> compare; the spelling beyond the components is not modelled.  The
  filesystem queries of \<open>is_same_file_on_disk\<close> are a parameter.
\<close>

section \<open>Paths\<close>

datatype path_component = PathPrefix str | RootDir | CurDir | ParentDir | Normal str

type_synonym path = "path_component list"

text \<open>What \<open>Path::components\<close> can yield: \<open>.\<close> only at the front of a relative path, prefix and root only at the front.\<close>

definition path_ok :: "path \<Rightarrow> bool" where
  "path_ok p \<longleftrightarrow>
     (\<forall>c \<in> set (tl p). c \<noteq> CurDir \<and> (\<forall>s. c \<noteq> PathPrefix s)) \<and>
     (\<forall>i < length p. p ! i = RootDir \<longrightarrow> i = 0 \<or> (i = 1 \<and> (\<exists>s. p ! 0 = PathPrefix s)))"

definition is_absolute :: "path \<Rightarrow> bool" where
  "is_absolute p = (case p of RootDir # _ \<Rightarrow> True | PathPrefix _ # _ \<Rightarrow> True | _ \<Rightarrow> False)"

text \<open>\<open>PathBuf::pop\<close>: every last component but a root or prefix is removed.\<close>

definition path_pop :: "path \<Rightarrow> path option" where
  "path_pop p =
     (if p = [] then None
      else case last p of RootDir \<Rightarrow> None | PathPrefix _ \<Rightarrow> None | _ \<Rightarrow> Some (butlast p))"

text \<open>\<open>Path::join\<close> (\<open>PathBuf::push\<close>): an absolute path replaces, a leading \<open>.\<close> vanishes behind a non-empty path.\<close>

definition path_join :: "path \<Rightarrow> path \<Rightarrow> path" where
  "path_join p q =
     (if is_absolute q then q
      else if p = [] then q
      else p @ (case q of CurDir # q' \<Rightarrow> q' | _ \<Rightarrow> q))"

definition path_starts_with :: "path \<Rightarrow> path \<Rightarrow> bool" where
  "path_starts_with p base \<longleftrightarrow> take (length base) p = base"

definition path_strip_prefix :: "path \<Rightarrow> path \<Rightarrow> path option" where
  "path_strip_prefix p base = (if path_starts_with p base then Some (drop (length base) p) else None)"

text \<open>\<open>Path::parent\<close>.\<close>

definition path_parent :: "path \<Rightarrow> path option" where
  "path_parent p = path_pop p"

text \<open>\<open>lexical_canonical\<close>.\<close>

fun normalize_component :: "path \<Rightarrow> path_component \<Rightarrow> path" where
  "normalize_component normalized CurDir = normalized"
| "normalize_component normalized ParentDir =
     (case path_pop normalized of Some p \<Rightarrow> p | None \<Rightarrow> normalized @ [ParentDir])"
| "normalize_component normalized other = normalized @ [other]"

definition lexical_canonical :: "path \<Rightarrow> path" where
  "lexical_canonical p =
     (let normalized = foldl normalize_component [] p
      in if normalized = [] then [CurDir] else normalized)"

section \<open>File identity\<close>

record file_identity =
  fi_path :: path
  fi_canonical :: path

definition identity_new :: "path \<Rightarrow> path \<Rightarrow> file_identity" where
  "identity_new p c = \<lparr>fi_path = p, fi_canonical = c\<rparr>"

definition identity_lexical :: "path \<Rightarrow> file_identity" where
  "identity_lexical p = identity_new p (lexical_canonical p)"

definition identity_directory :: "file_identity \<Rightarrow> path option" where
  "identity_directory i =
     (case path_parent (fi_path i) of Some d \<Rightarrow> if d = [] then None else Some d | None \<Rightarrow> None)"

definition is_same_file :: "file_identity \<Rightarrow> file_identity \<Rightarrow> bool" where
  "is_same_file i j \<longleftrightarrow> fi_canonical i = fi_canonical j"

definition matches_path :: "file_identity \<Rightarrow> path \<Rightarrow> bool" where
  "matches_path i p \<longleftrightarrow> fi_path i = p \<or> fi_canonical i = lexical_canonical p"

text \<open>
  What \<open>is_same_file_on_disk\<close> asks the filesystem: \<open>fs::canonicalize\<close>, and the
  device and file number of a path (\<open>fs::metadata\<close> on Unix, \<open>windows_file_id\<close> on
  Windows); \<open>None\<close> where the query fails.
\<close>

record disk_view =
  fs_canonicalize :: "path \<Rightarrow> path option"
  fs_file_id :: "path \<Rightarrow> (nat \<times> nat) option"

definition is_same_file_on_disk :: "disk_view \<Rightarrow> file_identity \<Rightarrow> path \<Rightarrow> bool" where
  "is_same_file_on_disk fs i p =
     (if matches_path i p then True
      else if (case (fs_canonicalize fs (fi_path i), fs_canonicalize fs p) of
                 (Some own, Some target) \<Rightarrow> own = target | _ \<Rightarrow> False) then True
      else (case (fs_file_id fs (fi_path i), fs_file_id fs p) of
              (Some own, Some target) \<Rightarrow> own = target | _ \<Rightarrow> False))"

definition moved_to :: "file_identity \<Rightarrow> path \<Rightarrow> file_identity" where
  "moved_to i p = identity_lexical p"

section \<open>Stamps and fingerprints\<close>

text \<open>A modification time is only compared: a number.\<close>

record file_stamp =
  stamp_len :: u64
  stamp_modified :: "nat option"

record content_fingerprint =
  fp_len :: u64
  fp_lane_a :: u64
  fp_lane_b :: u64

record fingerprinter =
  fr_len :: u64
  fr_lane_a :: u64
  fr_lane_b :: u64

definition fingerprinter_default :: fingerprinter where
  "fingerprinter_default = \<lparr>fr_len = 0, fr_lane_a = 0xcbf29ce484222325, fr_lane_b = 0x9e3779b97f4a7c15\<rparr>"

definition lane_a_step :: "u64 \<Rightarrow> nat \<Rightarrow> u64" where
  "lane_a_step a byte = xor a (of_nat byte) * 0x00000100000001b3"

definition lane_b_step :: "u64 \<Rightarrow> nat \<Rightarrow> u64" where
  "lane_b_step b byte = xor (word_rotl 5 b) (of_nat byte) * 0x9e3779b97f4a7c15"

definition fingerprint_update :: "fingerprinter \<Rightarrow> nat list \<Rightarrow> fingerprinter" where
  "fingerprint_update f bytes =
     \<lparr>fr_len = fr_len f + of_nat (length bytes), fr_lane_a = foldl lane_a_step (fr_lane_a f) bytes,
      fr_lane_b = foldl lane_b_step (fr_lane_b f) bytes\<rparr>"

definition fingerprint_finish :: "fingerprinter \<Rightarrow> content_fingerprint" where
  "fingerprint_finish f = \<lparr>fp_len = fr_len f, fp_lane_a = fr_lane_a f, fp_lane_b = fr_lane_b f\<rparr>"

text \<open>The \<open>io::Write\<close> implementation: a write takes the whole buffer and cannot fail.\<close>

definition fingerprint_write :: "fingerprinter \<Rightarrow> nat list \<Rightarrow> (unit, unit) res \<times> fingerprinter" where
  "fingerprint_write f bytes = (Ok (), fingerprint_update f bytes)"

definition fingerprint_of_bytes :: "nat list \<Rightarrow> content_fingerprint" where
  "fingerprint_of_bytes bytes = fingerprint_finish (fingerprint_update fingerprinter_default bytes)"

definition fingerprint_of_document ::
  "('r, 'z) rope_api_scheme \<Rightarrow> 'r rope_buffer \<Rightarrow> content_fingerprint" where
  "fingerprint_of_document R d =
     fingerprint_finish (snd (write_to R fingerprint_write d fingerprinter_default))"

section \<open>The file side of a session\<close>

datatype external_change = Unchanged | Modified | Deleted | UnknownChange

datatype file_presence = FilePresent | FileMissing

record file_state =
  fs_identity :: "file_identity option"
  fs_untitled_label :: str
  fs_stamp :: "file_stamp option"
  fs_baseline :: "content_fingerprint option"
  fs_presence :: file_presence

definition file_untitled :: "str \<Rightarrow> file_state" where
  "file_untitled label =
     \<lparr>fs_identity = None, fs_untitled_label = label, fs_stamp = None, fs_baseline = None,
      fs_presence = FilePresent\<rparr>"

definition file_tracked :: "file_identity \<Rightarrow> file_stamp option \<Rightarrow> file_state" where
  "file_tracked i stamp =
     \<lparr>fs_identity = Some i, fs_untitled_label = [], fs_stamp = stamp, fs_baseline = None,
      fs_presence = FilePresent\<rparr>"

definition file_path :: "file_state \<Rightarrow> path option" where
  "file_path f = map_option fi_path (fs_identity f)"

definition file_directory :: "file_state \<Rightarrow> path option" where
  "file_directory f = Option.bind (fs_identity f) identity_directory"

definition set_baseline :: "content_fingerprint option \<Rightarrow> file_state \<Rightarrow> file_state" where
  "set_baseline b f = f\<lparr>fs_baseline := b\<rparr>"

definition set_identity :: "file_identity \<Rightarrow> file_stamp option \<Rightarrow> file_state \<Rightarrow> file_state" where
  "set_identity i stamp f = f\<lparr>fs_identity := Some i, fs_stamp := stamp, fs_presence := FilePresent\<rparr>"

definition refresh_canonical :: "path \<Rightarrow> file_state \<Rightarrow> file_state" where
  "refresh_canonical canonical f =
     (case fs_identity f of
        Some i \<Rightarrow> if fi_canonical i \<noteq> canonical
                  then f\<lparr>fs_identity := Some (i\<lparr>fi_canonical := canonical\<rparr>)\<rparr> else f
      | None \<Rightarrow> f)"

definition set_stamp :: "file_stamp option \<Rightarrow> file_state \<Rightarrow> file_state" where
  "set_stamp stamp f = f\<lparr>fs_stamp := stamp, fs_presence := FilePresent\<rparr>"

definition mark_present :: "file_state \<Rightarrow> file_state" where
  "mark_present f = f\<lparr>fs_presence := FilePresent\<rparr>"

definition mark_missing :: "file_state \<Rightarrow> file_state" where
  "mark_missing f = f\<lparr>fs_presence := FileMissing\<rparr>"

definition file_compare :: "file_state \<Rightarrow> file_stamp option \<Rightarrow> external_change" where
  "file_compare f current =
     (case (fs_identity f, fs_stamp f, current) of
        (None, _, _) \<Rightarrow> UnknownChange
      | (Some _, _, None) \<Rightarrow> Deleted
      | (Some _, None, Some _) \<Rightarrow> UnknownChange
      | (Some _, Some recorded, Some now) \<Rightarrow> if recorded = now then Unchanged else Modified)"

end
