(* ===== verification/Identity_Facts.thy ===== *)
theory Identity_Facts
  imports Session_Identity
begin

text \<open>
  Facts on paths and fingerprints.  A fingerprint does not depend on how the bytes
  were chunked, and a change of a single byte always changes it: both lanes are
  injective in their state, because their multipliers are odd.
\<close>

section \<open>Fingerprints\<close>

lemma fingerprint_update_append:
  "fingerprint_update (fingerprint_update f xs) ys = fingerprint_update f (xs @ ys)"
  by (simp add: fingerprint_update_def add.assoc)

lemma fingerprint_update_Nil [simp]: "fingerprint_update f [] = f"
  by (simp add: fingerprint_update_def)

lemma write_chunks_fingerprint:
  "write_chunks fingerprint_write cs f = (Ok (), fingerprint_update f (as_bytes (concat cs)))"
  by (induction cs arbitrary: f)
    (simp_all add: fingerprint_write_def fingerprint_update_append)

context ropey
begin

lemma fingerprint_of_document_text:
  "fingerprint_of_document R d = fingerprint_of_bytes (as_bytes (full_text R d))"
  by (simp add: fingerprint_of_document_def write_to_def write_chunks_fingerprint fingerprint_of_bytes_def
      full_text_def)

end

text \<open>Multiplication by the constants is injective: their inverses modulo \<open>2 ^ 64\<close>.\<close>

lemma lane_a_inverse: "(0x00000100000001b3 :: u64) * 0xce965057aff6957b = 1"
  by simp

lemma lane_b_inverse: "(0x9e3779b97f4a7c15 :: u64) * 0xf1de83e19937733d = 1"
  by simp

lemma times_inj:
  fixes a b c d :: u64
  assumes "c * d = 1" and "a * c = b * c"
  shows "a = b"
proof -
  have "a * (c * d) = b * (c * d)" using assms(2) by (simp only: mult.assoc[symmetric])
  then show ?thesis unfolding assms(1) by simp
qed

lemma xor_inj:
  fixes a b x :: u64
  assumes "xor a x = xor b x"
  shows "a = b"
proof -
  have "xor a (xor x x) = xor b (xor x x)" using assms by (simp only: xor.assoc[symmetric])
  then show ?thesis by simp
qed

lemma rotl_inj:
  fixes a b :: u64
  assumes "word_rotl 5 a = word_rotl 5 b"
  shows "a = b"
proof -
  have "word_rotr 5 (word_rotl 5 a) = word_rotr 5 (word_rotl 5 b)" using assms by simp
  then show ?thesis by simp
qed

lemma of_nat_u64_inj: "(of_nat m :: u64) = of_nat n \<Longrightarrow> m < u64_bound \<Longrightarrow> n < u64_bound \<Longrightarrow> m = n"
  by (simp add: word_of_nat_eq_iff take_bit_nat_eq_self u64_bound_def)

lemma lane_a_inj: "lane_a_step a x = lane_a_step b x \<Longrightarrow> a = b"
  unfolding lane_a_step_def using times_inj[OF lane_a_inverse] xor_inj by blast

lemma lane_a_byte_inj: "lane_a_step a x = lane_a_step a y \<Longrightarrow> x < 256 \<Longrightarrow> y < 256 \<Longrightarrow> x = y"
proof -
  assume "lane_a_step a x = lane_a_step a y" and b: "x < 256" "y < 256"
  then have "xor (of_nat x) a = xor (of_nat y) a"
    unfolding lane_a_step_def using times_inj[OF lane_a_inverse] by (metis xor.commute)
  then have "(of_nat x :: u64) = of_nat y" by (rule xor_inj)
  then show ?thesis using b by (intro of_nat_u64_inj) (simp_all add: u64_bound_def)
qed

lemma foldl_lane_a_inj: "foldl lane_a_step a xs = foldl lane_a_step b xs \<Longrightarrow> a = b"
  by (induction xs arbitrary: a b) (auto dest: lane_a_inj)

lemma one_byte_changes_lane:
  assumes "x < 256" and "y < 256" and "x \<noteq> y"
  shows "foldl lane_a_step a (xs @ x # zs) \<noteq> foldl lane_a_step a (xs @ y # zs)"
  using foldl_lane_a_inj lane_a_byte_inj assms by fastforce

lemma fingerprint_one_byte:
  assumes "x < 256" and "y < 256" and "x \<noteq> y"
  shows "fingerprint_of_bytes (xs @ x # zs) \<noteq> fingerprint_of_bytes (xs @ y # zs)"
  using one_byte_changes_lane[OF assms, of "fr_lane_a fingerprinter_default" xs zs]
  by (auto simp: fingerprint_of_bytes_def fingerprint_finish_def fingerprint_update_def)

lemma fingerprint_length:
  assumes "length xs < u64_bound" and "length ys < u64_bound" and "fingerprint_of_bytes xs = fingerprint_of_bytes ys"
  shows "length xs = length ys"
proof -
  have "(of_nat (length xs) :: u64) = of_nat (length ys)"
    using assms(3) by (simp add: fingerprint_of_bytes_def fingerprint_finish_def fingerprint_update_def)
  then show ?thesis using assms(1,2) by (rule of_nat_u64_inj)
qed

section \<open>Paths\<close>

text \<open>Normalized paths: no \<open>.\<close>, and \<open>..\<close> only at the front or right behind a root or prefix.\<close>

fun root_like :: "path_component \<Rightarrow> bool" where
  "root_like RootDir = True"
| "root_like (PathPrefix s) = True"
| "root_like c = False"

definition normalized :: "path \<Rightarrow> bool" where
  "normalized p \<longleftrightarrow> CurDir \<notin> set p \<and> (\<forall>xs ys. p = xs @ ParentDir # ys \<longrightarrow> xs = [] \<or> root_like (last xs))"

lemma path_pop_None: "path_pop p = None \<longleftrightarrow> p = [] \<or> root_like (last p)"
  by (cases "last p") (auto simp: path_pop_def)

lemma path_pop_Some: "path_pop p = Some q \<Longrightarrow> \<exists>c. p = q @ [c] \<and> \<not> root_like c"
  by (cases p rule: rev_cases) (auto simp: path_pop_def split: path_component.splits)

lemma normalized_butlast: "normalized (p @ [c]) \<Longrightarrow> normalized p"
  by (auto simp: normalized_def)

lemma normalized_snoc:
  "normalized (p @ [c]) \<longleftrightarrow> normalized p \<and> c \<noteq> CurDir \<and> (c = ParentDir \<longrightarrow> p = [] \<or> root_like (last p))"
proof
  assume "normalized p \<and> c \<noteq> CurDir \<and> (c = ParentDir \<longrightarrow> p = [] \<or> root_like (last p))"
  then show "normalized (p @ [c])"
    unfolding normalized_def by (auto simp: append_eq_append_conv2 append_eq_Cons_conv Cons_eq_append_conv)
qed (auto simp: normalized_def)

lemma normalize_component_normalized: "normalized p \<Longrightarrow> normalized (normalize_component p c)"
  by (cases c) (auto simp: normalized_snoc path_pop_None normalized_butlast dest!: path_pop_Some
      split: option.splits)

lemma foldl_normalized: "normalized p \<Longrightarrow> normalized (foldl normalize_component p cs)"
  by (induction cs arbitrary: p) (auto intro: normalize_component_normalized)

lemma normalize_component_id:
  "normalized (p @ [c]) \<Longrightarrow> normalize_component p c = p @ [c]"
  by (cases c) (auto simp: normalized_snoc path_pop_None[symmetric] split: option.splits)

lemma foldl_normalized_id: "normalized p \<Longrightarrow> foldl normalize_component [] p = p"
proof (induction p rule: rev_induct)
  case (snoc c p)
  then show ?case using normalized_butlast normalize_component_id by simp
qed simp

lemma lexical_canonical_idem: "lexical_canonical (lexical_canonical p) = lexical_canonical p"
proof -
  have "normalized (foldl normalize_component [] p)" by (rule foldl_normalized) (simp add: normalized_def)
  then show ?thesis by (auto simp: lexical_canonical_def Let_def foldl_normalized_id)
qed

end
