(* ===== verification/File_Service.thy ===== *)
theory File_Service
  imports Session_Identity
begin

text \<open>
  The save and check jobs at the I/O boundary (\<open>crates/session/src/service.rs\<close>,
  lines 10-21 and 108-380).  A \<open>FileService\<close> is a record of functions; every call
  takes the clock \<open>t\<close> of the calls made so far, so that the disk may be different at
  every call, and the jobs thread the clock.
\<close>

section \<open>Data\<close>

datatype io_kind = NotFound | AlreadyExists | IsADirectory | Unsupported | OtherKind

record os_error =
  os_kind :: io_kind
  os_text :: str

definition os_error_other :: "str \<Rightarrow> os_error" where
  "os_error_other reason = \<lparr>os_kind = OtherKind, os_text = reason\<rparr>"

record 'r loaded_file =
  lf_document :: "'r rope_buffer"
  lf_identity :: file_identity
  lf_stamp :: "file_stamp option"
  lf_fingerprint :: "content_fingerprint option"

record saved_file =
  sf_identity :: file_identity
  sf_stamp :: "file_stamp option"
  sf_fingerprint :: "content_fingerprint option"

record 'r observed_file =
  of_document :: "'r rope_buffer"
  of_fingerprint :: content_fingerprint
  of_stamp :: "file_stamp option"
  of_canonical :: "path option"

datatype 'r disk_version = DiskPresent "'r observed_file" | DiskMissing | DiskUnreadable str

datatype save_failure = ExternalChangeFailure | SaveIo os_error

datatype overwrite_guard =
    Force
  | ExpectStamp "file_stamp option"
  | ExpectContent "file_stamp option" "content_fingerprint option"

text \<open>The methods of the trait that the jobs call; a call gets the clock and the arguments.\<close>

record 'r file_service =
  sv_stamp :: "nat \<Rightarrow> path \<Rightarrow> file_stamp option"
  sv_load :: "nat \<Rightarrow> path \<Rightarrow> os_error + 'r loaded_file"
  sv_save :: "nat \<Rightarrow> path \<Rightarrow> 'r rope_buffer \<Rightarrow> os_error + saved_file"
  sv_save_in_existing_directory :: "nat \<Rightarrow> path \<Rightarrow> 'r rope_buffer \<Rightarrow> os_error + saved_file"

section \<open>Observing the disk\<close>

definition observe_attempts :: nat where "observe_attempts = 3"

definition unstable_reason :: str where
  "unstable_reason =
     [12501, 12449, 12452, 12523, 12364, 26356, 26032, 12373, 12428, 32154, 12369, 12390, 12356,
      12427, 12383, 12417, 12289, 25972, 21512, 12375, 12383, 20869, 23481, 12434, 35501, 12417,
      12414, 12379, 12435, 12391, 12375, 12383]"

fun observe_loop ::
  "('r, 'z) rope_api_scheme \<Rightarrow> 'r file_service \<Rightarrow> path \<Rightarrow> nat \<Rightarrow> nat \<Rightarrow> 'r disk_version \<times> nat" where
  "observe_loop R sv p 0 t = (DiskUnreadable unstable_reason, t)"
| "observe_loop R sv p (Suc attempts) t =
     (if sv_stamp sv t p = None then (DiskMissing, t + 1)
      else case sv_load sv (t + 1) p of
        Inl e \<Rightarrow> (if os_kind e = NotFound then DiskMissing else DiskUnreadable (os_text e), t + 2)
      | Inr loaded \<Rightarrow>
          (let after = sv_stamp sv (t + 2) p
           in if lf_stamp loaded \<noteq> None \<and> lf_stamp loaded \<noteq> after
              then observe_loop R sv p attempts (t + 3)
              else (DiskPresent
                      \<lparr>of_document = lf_document loaded,
                       of_fingerprint = (case lf_fingerprint loaded of
                          Some f \<Rightarrow> f | None \<Rightarrow> fingerprint_of_document R (lf_document loaded)),
                       of_stamp = lf_stamp loaded,
                       of_canonical = Some (fi_canonical (lf_identity loaded))\<rparr>, t + 3)))"

definition observe_disk ::
  "('r, 'z) rope_api_scheme \<Rightarrow> 'r file_service \<Rightarrow> path \<Rightarrow> nat \<Rightarrow> 'r disk_version \<times> nat" where
  "observe_disk R sv p t = observe_loop R sv p observe_attempts t"

section \<open>Guards\<close>

text \<open>A job's result is a sum: \<open>Inl\<close> the failure.\<close>

definition check_content_guard ::
  "('r, 'z) rope_api_scheme \<Rightarrow> 'r file_service \<Rightarrow> path \<Rightarrow> file_stamp option \<Rightarrow>
   content_fingerprint option \<Rightarrow> nat \<Rightarrow> (save_failure + unit) \<times> nat" where
  "check_content_guard R sv p stamp baseline t =
     (let (disk, t) = observe_disk R sv p t in
      (case disk of
         DiskMissing \<Rightarrow>
           if stamp = None \<and> baseline = None then Inr () else Inl ExternalChangeFailure
       | DiskUnreadable reason \<Rightarrow> Inl (SaveIo (os_error_other reason))
       | DiskPresent file \<Rightarrow>
           (case (baseline, stamp) of
              (Some b, _) \<Rightarrow> if of_fingerprint file = b then Inr () else Inl ExternalChangeFailure
            | (None, None) \<Rightarrow> Inl ExternalChangeFailure
            | (None, Some s) \<Rightarrow> if of_stamp file = Some s then Inr () else Inl ExternalChangeFailure), t))"

definition check_overwrite_guard ::
  "('r, 'z) rope_api_scheme \<Rightarrow> 'r file_service \<Rightarrow> path \<Rightarrow> overwrite_guard \<Rightarrow> nat \<Rightarrow>
   (save_failure + unit) \<times> nat" where
  "check_overwrite_guard R sv p guard t =
     (case guard of
        Force \<Rightarrow> (Inr (), t)
      | ExpectContent stamp baseline \<Rightarrow> check_content_guard R sv p stamp baseline t
      | ExpectStamp expected \<Rightarrow>
          (case (expected, sv_stamp sv t p) of
             (Some e, Some current) \<Rightarrow> if e = current then Inr () else Inl ExternalChangeFailure
           | (Some _, None) \<Rightarrow> Inr ()
           | (None, None) \<Rightarrow> Inr ()
           | (None, Some _) \<Rightarrow> Inl ExternalChangeFailure, t + 1))"

section \<open>Save jobs\<close>

fun save_result :: "os_error + saved_file \<Rightarrow> save_failure + saved_file" where
  "save_result (Inl e) = Inl (SaveIo e)"
| "save_result (Inr saved) = Inr saved"

text \<open>The trait's own \<open>save_checked\<close>: one check, then the write.\<close>

definition save_checked ::
  "'r file_service \<Rightarrow> path \<Rightarrow> 'r rope_buffer \<Rightarrow> bool \<Rightarrow>
   (path \<Rightarrow> nat \<Rightarrow> (save_failure + unit) \<times> nat) \<Rightarrow> nat \<Rightarrow> (save_failure + saved_file) \<times> nat" where
  "save_checked sv p d create_parent check t =
     (case check p t of
        (Inl failure, t) \<Rightarrow> (Inl failure, t)
      | (Inr _, t) \<Rightarrow>
          (save_result (if create_parent then sv_save sv t p d
                        else sv_save_in_existing_directory sv t p d), t + 1))"

definition run_save_job ::
  "('r, 'z) rope_api_scheme \<Rightarrow> 'r file_service \<Rightarrow> path \<Rightarrow> 'r rope_buffer \<Rightarrow> overwrite_guard \<Rightarrow> nat \<Rightarrow>
   (save_failure + saved_file) \<times> nat" where
  "run_save_job R sv p d guard t =
     save_checked sv p d True (\<lambda>inspect. check_overwrite_guard R sv inspect guard) t"

definition run_create_new_job ::
  "('r, 'z) rope_api_scheme \<Rightarrow> 'r file_service \<Rightarrow> path \<Rightarrow> 'r rope_buffer \<Rightarrow> overwrite_guard \<Rightarrow> nat \<Rightarrow>
   (save_failure + saved_file) \<times> nat" where
  "run_create_new_job R sv p d guard t =
     save_checked sv p d False (\<lambda>inspect. check_overwrite_guard R sv inspect guard) t"

end
