(* ===== verification/Editor_History.thy ===== *)
theory Editor_History
  imports Buffer_Facts
begin

text \<open>
  Selections (\<open>crates/editor/src/selection.rs\<close>) and the undo history
  (\<open>crates/editor/src/history.rs\<close>).  A \<open>Vec\<close> used as a stack is a list whose last
  element is its top.  Instants are nanoseconds since an epoch;
  \<open>duration_since\<close> saturates, as \<open>nat\<close> subtraction does.
\<close>

section \<open>Selection\<close>

record selection =
  sel_anchor :: nat
  sel_active :: nat

definition caret :: "nat \<Rightarrow> selection" where
  "caret off = \<lparr>sel_anchor = off, sel_active = off\<rparr>"

definition sel_range :: "selection \<Rightarrow> source_range" where
  "sel_range s = source_range_new (min (sel_anchor s) (sel_active s)) (max (sel_anchor s) (sel_active s))"

definition is_reversed :: "selection \<Rightarrow> bool" where
  "is_reversed s \<longleftrightarrow> sel_active s < sel_anchor s"

lemma caret_simps [simp]: "sel_anchor (caret p) = p" "sel_active (caret p) = p"
  by (simp_all add: caret_def)

lemma sel_range_caret [simp]: "sel_range (caret p) = source_range_new p p"
  by (simp add: sel_range_def)

lemma sel_range_ordered [simp]: "range_start (sel_range s) \<le> range_end (sel_range s)"
  by (simp add: sel_range_def)

section \<open>Entries\<close>

definition group_timeout :: nat where
  "group_timeout = 750 * 1000000"

definition is_line_ending :: "uchar \<Rightarrow> bool" where
  "is_line_ending c \<longleftrightarrow> c = LF \<or> c = CR"

datatype edit_kind = KInsert | KBackspace | KDelete | KReplace | KIme

record history_entry =
  entry_start :: nat
  entry_deleted :: str
  entry_inserted :: str
  entry_before :: selection
  entry_after :: selection
  entry_kind :: edit_kind
  last_edit_at :: nat

definition entry_from_summary ::
  "edit_summary \<Rightarrow> str \<Rightarrow> selection \<Rightarrow> selection \<Rightarrow> edit_kind \<Rightarrow> nat \<Rightarrow> history_entry" where
  "entry_from_summary sm inserted sel_before sel_after kind now =
     \<lparr>entry_start = range_start (range_before sm),
      entry_deleted = inverse_replacement (edit_inverse sm),
      entry_inserted = inserted, entry_before = sel_before, entry_after = sel_after,
      entry_kind = kind, last_edit_at = now\<rparr>"

text \<open>\<open>try_merge\<close>: \<open>Some\<close> of the merged entry where the code returns true.\<close>

definition try_merge :: "history_entry \<Rightarrow> history_entry \<Rightarrow> history_entry option" where
  "try_merge e n =
     (if entry_kind e \<noteq> entry_kind n
         \<or> last_edit_at n - last_edit_at e > group_timeout
         \<or> entry_after e \<noteq> entry_before n
      then None
      else
        map_option (\<lambda>m. m\<lparr>entry_after := entry_after n, last_edit_at := last_edit_at n\<rparr>)
          (case entry_kind e of
             KInsert \<Rightarrow>
               if entry_deleted n = []
                  \<and> entry_start n = entry_start e + str_len (entry_inserted e)
                  \<and> \<not> (entry_inserted e \<noteq> [] \<and> is_line_ending (last (entry_inserted e)))
                  \<and> \<not> (\<exists>c \<in> set (entry_inserted n). is_line_ending c)
               then Some (e\<lparr>entry_inserted := entry_inserted e @ entry_inserted n\<rparr>) else None
           | KBackspace \<Rightarrow>
               if entry_inserted e = [] \<and> entry_inserted n = []
                  \<and> entry_start n + str_len (entry_deleted n) = entry_start e
               then Some (e\<lparr>entry_start := entry_start n,
                            entry_deleted := entry_deleted n @ entry_deleted e\<rparr>) else None
           | KDelete \<Rightarrow>
               if entry_inserted e = [] \<and> entry_inserted n = [] \<and> entry_start n = entry_start e
               then Some (e\<lparr>entry_deleted := entry_deleted e @ entry_deleted n\<rparr>) else None
           | KReplace \<Rightarrow> None
           | KIme \<Rightarrow> None))"

definition entry_undo ::
  "('r, 'z) rope_api_scheme \<Rightarrow> history_entry \<Rightarrow> ('r rope_buffer, buffer_error, edit_summary) step" where
  "entry_undo R e =
     buf_edit R (source_range_new (entry_start e) (entry_start e + str_len (entry_inserted e)))
       (entry_deleted e)"

definition entry_redo ::
  "('r, 'z) rope_api_scheme \<Rightarrow> history_entry \<Rightarrow> ('r rope_buffer, buffer_error, edit_summary) step" where
  "entry_redo R e =
     buf_edit R (source_range_new (entry_start e) (entry_start e + str_len (entry_deleted e)))
       (entry_inserted e)"

section \<open>History\<close>

record history =
  undo_stack :: "history_entry list"
  redo_stack :: "history_entry list"
  can_merge_last :: bool

definition empty_history :: history where
  "empty_history = \<lparr>undo_stack = [], redo_stack = [], can_merge_last = False\<rparr>"

definition break_group :: "history \<Rightarrow> history" where
  "break_group h = h\<lparr>can_merge_last := False\<rparr>"

definition push_or_merge :: "bool \<Rightarrow> history_entry list \<Rightarrow> history_entry \<Rightarrow> history_entry list" where
  "push_or_merge merge us e =
     (case (if merge then last_of us else None) of
        None \<Rightarrow> us @ [e]
      | Some prev \<Rightarrow> (case try_merge prev e of None \<Rightarrow> us @ [e] | Some m \<Rightarrow> butlast us @ [m]))"

definition history_record ::
  "edit_summary \<Rightarrow> str \<Rightarrow> selection \<Rightarrow> selection \<Rightarrow> edit_kind \<Rightarrow> nat \<Rightarrow> history \<Rightarrow> history" where
  "history_record sm inserted sel_before sel_after kind now h =
     (let entry = entry_from_summary sm inserted sel_before sel_after kind now
      in \<lparr>undo_stack = push_or_merge (can_merge_last h) (undo_stack h) entry,
          redo_stack = [], can_merge_last = True\<rparr>)"

definition record_replacement ::
  "nat \<Rightarrow> str \<Rightarrow> str \<Rightarrow> selection \<Rightarrow> selection \<Rightarrow> edit_kind \<Rightarrow> nat \<Rightarrow> history \<Rightarrow> history" where
  "record_replacement start deleted inserted sel_before sel_after kind now h =
     \<lparr>undo_stack = undo_stack h @
        [\<lparr>entry_start = start, entry_deleted = deleted, entry_inserted = inserted,
          entry_before = sel_before, entry_after = sel_after, entry_kind = kind,
          last_edit_at = now\<rparr>],
      redo_stack = [], can_merge_last = False\<rparr>"

text \<open>
  \<open>undo\<close> and \<open>redo\<close> work on the history and the document.  The entry is popped
  before the document is edited, so a refused edit loses it, as in the code.
\<close>

definition history_undo ::
  "('r, 'z) rope_api_scheme \<Rightarrow>
   (history \<times> 'r rope_buffer, buffer_error, (edit_summary \<times> selection) option) step" where
  "history_undo R st =
     (let h = break_group (fst st); d = snd st in
      case last_of (undo_stack h) of
        None \<Rightarrow> (Ok None, (h, d))
      | Some e \<Rightarrow>
          let h1 = h\<lparr>undo_stack := butlast (undo_stack h)\<rparr> in
          (case entry_undo R e d of
             (Ok sm, d') \<Rightarrow> (Ok (Some (sm, entry_before e)), (h1\<lparr>redo_stack := redo_stack h1 @ [e]\<rparr>, d'))
           | (Err er, d') \<Rightarrow> (Err er, (h1, d'))
           | (Panic, d') \<Rightarrow> (Panic, (h1, d'))
           | (Hang, d') \<Rightarrow> (Hang, (h1, d'))))"

definition history_redo ::
  "('r, 'z) rope_api_scheme \<Rightarrow>
   (history \<times> 'r rope_buffer, buffer_error, (edit_summary \<times> selection) option) step" where
  "history_redo R st =
     (let h = break_group (fst st); d = snd st in
      case last_of (redo_stack h) of
        None \<Rightarrow> (Ok None, (h, d))
      | Some e \<Rightarrow>
          let h1 = h\<lparr>redo_stack := butlast (redo_stack h)\<rparr> in
          (case entry_redo R e d of
             (Ok sm, d') \<Rightarrow> (Ok (Some (sm, entry_after e)), (h1\<lparr>undo_stack := undo_stack h1 @ [e]\<rparr>, d'))
           | (Err er, d') \<Rightarrow> (Err er, (h1, d'))
           | (Panic, d') \<Rightarrow> (Panic, (h1, d'))
           | (Hang, d') \<Rightarrow> (Hang, (h1, d'))))"

definition can_undo :: "history \<Rightarrow> bool" where
  "can_undo h \<longleftrightarrow> undo_stack h \<noteq> []"

definition can_redo :: "history \<Rightarrow> bool" where
  "can_redo h \<longleftrightarrow> redo_stack h \<noteq> []"

end
