(* ===== verification/Editor_State.thy ===== *)
theory Editor_State
  imports Editor_History Line_Facts Anchor_Facts Rolling_Window
begin

text \<open>
  The editor's state (\<open>crates/editor/src/lib.rs\<close>, lines 50-174 and 351-430) and its
  IME compositions (\<open>crates/editor/src/ime.rs\<close>).  Methods on \<open>&mut self\<close> are
  \<open>('r editor, buffer_error, _) step\<close>.  \<open>Instant::now()\<close> is a clock \<open>now\<close> whose
  \<open>i\<close>-th value is the \<open>i\<close>-th reading in the call; the \<open>f32\<close> of a vertical move is
  its bit pattern, which the editor only stores and clears.
\<close>

section \<open>State\<close>

datatype measurement_kind = Command | ImeComposition | ImeCommit

record input_measurement =
  im_sequence :: u64
  im_kind :: measurement_kind
  received_at :: nat
  model_updated_at :: nat
  frame_painted_at :: "nat option"

definition keystroke_to_model :: "input_measurement \<Rightarrow> nat" where
  "keystroke_to_model m = model_updated_at m - received_at m"

definition keystroke_to_frame :: "input_measurement \<Rightarrow> nat option" where
  "keystroke_to_frame m = map_option (\<lambda>t. t - received_at m) (frame_painted_at m)"

record ime_state =
  ime_base_revision :: nat
  ime_transaction_id :: u64
  ime_original_range :: source_range
  ime_original_text :: str
  ime_current_range :: source_range
  ime_marked_range :: source_range
  ime_marked_text :: str
  ime_selected_utf16 :: "nat \<times> nat"
  ime_cursor_affinity :: bias
  ime_start_anchor :: anchor
  ime_end_anchor :: anchor
  ime_original_selection :: selection
  ime_expected_revision :: nat

record 'r editor =
  ed_document :: "'r rope_buffer"
  ed_selection :: selection
  ed_preferred_column :: "nat option"
  ed_preferred_x :: "32 word option"
  ed_ime :: "ime_state option"
  ed_next_transaction :: u64
  ed_next_sequence :: u64
  ed_measurements :: "input_measurement rolling_window"
  ed_history :: history

definition editor_new :: "('r, 'z) rope_api_scheme \<Rightarrow> str \<Rightarrow> 'r editor" where
  "editor_new R s =
     \<lparr>ed_document = from_text R s, ed_selection = caret 0, ed_preferred_column = None,
      ed_preferred_x = None, ed_ime = None, ed_next_transaction = 1, ed_next_sequence = 1,
      ed_measurements = \<lparr>rw_capacity = 2048, rw_values = []\<rparr>, ed_history = empty_history\<rparr>"

definition editor_from_document ::
  "('r, 'z) rope_api_scheme \<Rightarrow> 'r rope_buffer \<Rightarrow> 'r editor" where
  "editor_from_document R d = (editor_new R [])\<lparr>ed_document := d\<rparr>"

definition clear_preferred :: "'r editor \<Rightarrow> 'r editor" where
  "clear_preferred e = e\<lparr>ed_preferred_column := None, ed_preferred_x := None\<rparr>"

definition break_undo_group :: "'r editor \<Rightarrow> 'r editor" where
  "break_undo_group e = e\<lparr>ed_history := break_group (ed_history e)\<rparr>"

definition record_model_update :: "nat \<Rightarrow> nat \<Rightarrow> measurement_kind \<Rightarrow> 'r editor \<Rightarrow> 'r editor" where
  "record_model_update received updated kind e =
     e\<lparr>ed_measurements := rw_push (ed_measurements e)
          \<lparr>im_sequence = ed_next_sequence e, im_kind = kind, received_at = received,
           model_updated_at = updated, frame_painted_at = None\<rparr>,
       ed_next_sequence := ed_next_sequence e + 1\<rparr>"

definition mark_frame_painted :: "nat \<Rightarrow> 'r editor \<Rightarrow> input_measurement list \<times> 'r editor" where
  "mark_frame_painted now e =
     (let (completed, w) = rw_take_all (ed_measurements e)
      in (map (\<lambda>m. m\<lparr>frame_painted_at := Some now\<rparr>) completed, e\<lparr>ed_measurements := w\<rparr>))"

text \<open>A step of the document, inside the editor.\<close>

definition on_document ::
  "('r rope_buffer, 'e, 'a) step \<Rightarrow> ('r editor, 'e, 'a) step" where
  "on_document m e = (let (r, d) = m (ed_document e) in (r, e\<lparr>ed_document := d\<rparr>))"

text \<open>A query of the editor that may fail.\<close>

definition query :: "('r editor \<Rightarrow> ('e, 'a) res) \<Rightarrow> ('r editor, 'e, 'a) step" where
  "query q e = (q e, e)"

section \<open>Replacing the selection\<close>

definition replace_selection ::
  "('r, 'z) rope_api_scheme \<Rightarrow> str \<Rightarrow> ('r editor, buffer_error, edit_summary) step" where
  "replace_selection R t e =
     step_bind (on_document (buf_edit R (sel_range (ed_selection e)) t) e) (\<lambda>sm e.
       (Ok sm, e\<lparr>ed_selection := caret (range_end (range_after sm))\<rparr>))"

definition replace_selection_recorded_from ::
  "('r, 'z) rope_api_scheme \<Rightarrow> str \<Rightarrow> selection \<Rightarrow> edit_kind \<Rightarrow> nat \<Rightarrow>
   ('r editor, buffer_error, edit_summary) step" where
  "replace_selection_recorded_from R t sel_before kind now e =
     step_bind (replace_selection R t e) (\<lambda>sm e.
       (Ok sm, e\<lparr>ed_history :=
          history_record sm t sel_before (ed_selection e) kind now (ed_history e)\<rparr>))"

definition replace_selection_recorded ::
  "('r, 'z) rope_api_scheme \<Rightarrow> str \<Rightarrow> edit_kind \<Rightarrow> nat \<Rightarrow>
   ('r editor, buffer_error, edit_summary) step" where
  "replace_selection_recorded R t kind now e =
     (let before = ed_selection e in
      step_bind (replace_selection R t e) (\<lambda>sm e.
        (Ok sm, e\<lparr>ed_history :=
           history_record sm t before (ed_selection e) kind now (ed_history e)\<rparr>)))"

definition selected_text ::
  "('r, 'z) rope_api_scheme \<Rightarrow> 'r editor \<Rightarrow> (buffer_error, str) res" where
  "selected_text R e = buf_text R (ed_document e) (sel_range (ed_selection e))"

section \<open>Undo and redo\<close>

definition editor_undo ::
  "('r, 'z) rope_api_scheme \<Rightarrow> ('r editor, buffer_error, edit_summary option) step" where
  "editor_undo R e =
     (let (r, (h, d)) = history_undo R (ed_history e, ed_document e);
          e' = e\<lparr>ed_history := h, ed_document := d\<rparr>
      in step_bind (r, e') (\<lambda>o' e.
           (case o' of None \<Rightarrow> (Ok None, e)
            | Some (sm, sel) \<Rightarrow> (Ok (Some sm), e\<lparr>ed_selection := sel\<rparr>))))"

definition editor_redo ::
  "('r, 'z) rope_api_scheme \<Rightarrow> ('r editor, buffer_error, edit_summary option) step" where
  "editor_redo R e =
     (let (r, (h, d)) = history_redo R (ed_history e, ed_document e);
          e' = e\<lparr>ed_history := h, ed_document := d\<rparr>
      in step_bind (r, e') (\<lambda>o' e.
           (case o' of None \<Rightarrow> (Ok None, e)
            | Some (sm, sel) \<Rightarrow> (Ok (Some sm), e\<lparr>ed_selection := sel\<rparr>))))"

section \<open>IME composition\<close>

fun utf16_offset_to_byte_loop :: "str \<Rightarrow> nat \<Rightarrow> nat \<Rightarrow> nat \<Rightarrow> nat" where
  "utf16_offset_to_byte_loop [] target utf16 byte = byte"
| "utf16_offset_to_byte_loop (ch # cs) target utf16 byte =
     (if utf16 \<ge> target \<or> target < utf16 + len_utf16 ch then byte
      else utf16_offset_to_byte_loop cs target (utf16 + len_utf16 ch) (byte + len_utf8 ch))"

definition utf16_range_to_byte :: "str \<Rightarrow> nat \<times> nat \<Rightarrow> nat \<times> nat" where
  "utf16_range_to_byte s r =
     (utf16_offset_to_byte_loop s (fst r) 0 0, utf16_offset_to_byte_loop s (snd r) 0 0)"

definition utf16_range_to_source ::
  "('r, 'z) rope_api_scheme \<Rightarrow> 'r editor \<Rightarrow> nat \<times> nat \<Rightarrow> (buffer_error, source_range) res" where
  "utf16_range_to_source R e r =
     (let source = source_range_new (utf16_to_byte R (ed_document e) (fst r))
                                    (utf16_to_byte R (ed_document e) (snd r))
      in res_bind (validate_range R (ed_document e) source) (\<lambda>_. Ok source))"

definition source_range_to_utf16 ::
  "('r, 'z) rope_api_scheme \<Rightarrow> 'r editor \<Rightarrow> source_range \<Rightarrow> (buffer_error, nat \<times> nat) res" where
  "source_range_to_utf16 R e rg =
     res_bind (validate_range R (ed_document e) rg) (\<lambda>_.
     res_bind (byte_to_utf16 R (ed_document e) (range_start rg)) (\<lambda>a.
     res_bind (byte_to_utf16 R (ed_document e) (range_end rg)) (\<lambda>b. Ok (a, b))))"

definition text_for_utf16_range ::
  "('r, 'z) rope_api_scheme \<Rightarrow> 'r editor \<Rightarrow> nat \<times> nat \<Rightarrow> (buffer_error, str \<times> (nat \<times> nat)) res" where
  "text_for_utf16_range R e r =
     res_bind (utf16_range_to_source R e r) (\<lambda>source.
     res_bind (buf_text R (ed_document e) source) (\<lambda>t.
     res_bind (source_range_to_utf16 R e source) (\<lambda>u. Ok (t, u))))"

definition ime_begin ::
  "('r, 'z) rope_api_scheme \<Rightarrow> 'r editor \<Rightarrow> u64 \<Rightarrow> source_range \<Rightarrow> (buffer_error, ime_state) res" where
  "ime_begin R e transaction_id rg =
     res_bind (buf_text R (ed_document e) rg) (\<lambda>original.
     res_bind (make_anchor R (ed_document e) (range_start rg) Before) (\<lambda>start_a.
     res_bind (make_anchor R (ed_document e) (range_end rg) After) (\<lambda>end_a.
       Ok \<lparr>ime_base_revision = buf_revision (ed_document e), ime_transaction_id = transaction_id,
           ime_original_range = rg, ime_original_text = original, ime_current_range = rg,
           ime_marked_range = rg, ime_marked_text = [], ime_selected_utf16 = (0, 0),
           ime_cursor_affinity = After, ime_start_anchor = start_a, ime_end_anchor = end_a,
           ime_original_selection = ed_selection e,
           ime_expected_revision = buf_revision (ed_document e)\<rparr>)))"

definition ime_update :: "edit_summary \<Rightarrow> str \<Rightarrow> nat \<times> nat \<Rightarrow> ime_state \<Rightarrow> ime_state" where
  "ime_update sm t selected ime =
     ime\<lparr>ime_current_range := range_after sm, ime_marked_range := range_after sm,
         ime_marked_text := t, ime_selected_utf16 := selected,
         ime_expected_revision := revision_after sm\<rparr>"

text \<open>The range a composition update replaces; it starts a composition if there is none.\<close>

definition composition_target ::
  "('r, 'z) rope_api_scheme \<Rightarrow> (nat \<times> nat) option \<Rightarrow> ('r editor, buffer_error, source_range) step" where
  "composition_target R replacement_utf16 e =
     (case ed_ime e of
        Some ime \<Rightarrow> (Ok (ime_current_range ime), e)
      | None \<Rightarrow>
          step_bind (query (\<lambda>e. case replacement_utf16 of
                Some r \<Rightarrow> utf16_range_to_source R e r
              | None \<Rightarrow> Ok (sel_range (ed_selection e))) e) (\<lambda>original e.
          let transaction_id = ed_next_transaction e;
              e = e\<lparr>ed_next_transaction := ed_next_transaction e + 1\<rparr>
          in step_bind (query (\<lambda>e. ime_begin R e transaction_id original) e) (\<lambda>ime e.
               (Ok original, e\<lparr>ed_ime := Some ime\<rparr>))))"

definition replace_and_mark_text ::
  "('r, 'z) rope_api_scheme \<Rightarrow> (nat \<Rightarrow> nat) \<Rightarrow> (nat \<times> nat) option \<Rightarrow> str \<Rightarrow> (nat \<times> nat) option \<Rightarrow>
   ('r editor, buffer_error, edit_summary) step" where
  "replace_and_mark_text R now replacement_utf16 t selected_utf16 e =
     (let received = now 0 in
      step_bind (composition_target R replacement_utf16 (e\<lparr>ed_preferred_column := None\<rparr>)) (\<lambda>current e.
      step_bind (on_document (buf_edit R current t) e) (\<lambda>sm e.
      let selected = (case selected_utf16 of Some s \<Rightarrow> s | None \<Rightarrow> (utf16_len t, utf16_len t));
          relative = utf16_range_to_byte t selected;
          base = range_start (range_after sm);
          e = e\<lparr>ed_ime := map_option (ime_update sm t selected) (ed_ime e)\<rparr>;
          e = e\<lparr>ed_selection := \<lparr>sel_anchor = base + fst relative, sel_active = base + snd relative\<rparr>\<rparr>
      in (Ok sm, record_model_update received (now 1) ImeComposition e))))"

definition commit_text ::
  "('r, 'z) rope_api_scheme \<Rightarrow> (nat \<Rightarrow> nat) \<Rightarrow> (nat \<times> nat) option \<Rightarrow> str \<Rightarrow>
   ('r editor, buffer_error, edit_summary) step" where
  "commit_text R now replacement_utf16 t e =
     (let received = now 0; e = e\<lparr>ed_preferred_column := None\<rparr> in
      step_bind (query (\<lambda>e. case ed_ime e of
            Some ime \<Rightarrow> Ok (ime_current_range ime)
          | None \<Rightarrow> (case replacement_utf16 of
                       Some r \<Rightarrow> utf16_range_to_source R e r
                     | None \<Rightarrow> Ok (sel_range (ed_selection e)))) e) (\<lambda>rg e.
      let ime = ed_ime e; e = e\<lparr>ed_ime := None\<rparr>; selection_before = ed_selection e in
      step_bind (on_document (buf_edit R rg t) e) (\<lambda>sm e.
      let e = e\<lparr>ed_selection := caret (range_end (range_after sm))\<rparr>;
          h = (case ime of
                 Some i \<Rightarrow> record_replacement (range_start (ime_original_range i)) (ime_original_text i) t
                             (ime_original_selection i) (ed_selection e) KIme (now 1) (ed_history e)
               | None \<Rightarrow> history_record sm t selection_before (ed_selection e)
                           (if range_is_empty (sel_range selection_before) then KInsert else KReplace)
                           received (ed_history e));
          e = e\<lparr>ed_history := h\<rparr>
      in (Ok sm, record_model_update received (now 2) ImeCommit e))))"

definition commit_composition :: "nat \<Rightarrow> 'r editor \<Rightarrow> 'r editor" where
  "commit_composition now e =
     (case ed_ime e of
        None \<Rightarrow> e
      | Some ime \<Rightarrow>
          e\<lparr>ed_ime := None,
            ed_history := record_replacement (range_start (ime_original_range ime))
              (ime_original_text ime) (ime_marked_text ime) (ime_original_selection ime)
              (ed_selection e) KIme now (ed_history e)\<rparr>)"

datatype ime_cancel_outcome = Restored | Conflict | Inactive

definition cancel_composition ::
  "('r, 'z) rope_api_scheme \<Rightarrow> ('r editor, buffer_error, ime_cancel_outcome) step" where
  "cancel_composition R e =
     (case ed_ime e of
        None \<Rightarrow> (Ok Inactive, e)
      | Some ime \<Rightarrow>
          let e = e\<lparr>ed_ime := None\<rparr> in
          if buf_revision (ed_document e) \<noteq> ime_expected_revision ime then (Ok Conflict, e)
          else
            step_bind (query (\<lambda>e. resolve_anchor R (ed_document e) (ime_start_anchor ime) (ime_base_revision ime)) e) (\<lambda>start e.
            step_bind (query (\<lambda>e. resolve_anchor R (ed_document e) (ime_end_anchor ime) (ime_base_revision ime)) e) (\<lambda>end' e.
            if start \<noteq> range_start (ime_current_range ime) \<or> end' \<noteq> range_end (ime_current_range ime)
            then (Ok Conflict, e)
            else step_bind (on_document (buf_edit R (ime_current_range ime) (ime_original_text ime)) e) (\<lambda>_ e.
              (Ok Restored, e\<lparr>ed_selection := ime_original_selection ime, ed_preferred_column := None\<rparr>)))))"

end
