(* ===== verification/Editor_Movement.thy ===== *)
theory Editor_Movement
  imports Editor_State
begin

text \<open>
  Cursor movement and the deletions built on it
  (\<open>crates/editor/src/movement.rs\<close>).  Grapheme clusters and word segments come
  from the parameter \<open>E\<close>; everything else is the code: which line is read, which
  part of it is segmented, and how the walk over word runs advances.
\<close>

section \<open>Segments\<close>

datatype forward_stop = StopEnd | NextStart

datatype word_class = Word | Separator

definition word_class_of :: "('r, 'z) text_env_scheme \<Rightarrow> str \<Rightarrow> word_class" where
  "word_class_of E segment =
     (if \<exists>c \<in> set segment. is_alphanumeric E c then Word else Separator)"

text \<open>Pieces with their byte index: \<open>grapheme_indices\<close>, \<open>split_word_bound_indices\<close>.\<close>

fun indexed_from :: "nat \<Rightarrow> str list \<Rightarrow> (nat \<times> str) list" where
  "indexed_from i [] = []"
| "indexed_from i (p # ps) = (i, p) # indexed_from (i + str_len p) ps"

definition grapheme_indices :: "('r, 'z) text_env_scheme \<Rightarrow> str \<Rightarrow> (nat \<times> str) list" where
  "grapheme_indices E s = indexed_from 0 (graphemes E s)"

section \<open>Graphemes\<close>

definition previous_grapheme ::
  "('r, 'z) text_env_scheme \<Rightarrow> 'r rope_buffer \<Rightarrow> nat \<Rightarrow> (buffer_error, nat) res" where
  "previous_grapheme E d off =
     res_bind (validate_offset E d off) (\<lambda>_.
     if off = 0 then Ok off
     else
       res_bind (line_for_offset E d off) (\<lambda>line.
       res_bind (offset_for_line_col E d line 0) (\<lambda>line_start.
       if off = line_start \<and> line > 0
       then res_map range_end (line_content_range E d (line - 1))
       else
         res_bind (buf_text E d (source_range_new line_start off)) (\<lambda>t.
         Ok (line_start +
             (case map_option fst (last_of (grapheme_indices E t)) of Some i \<Rightarrow> i | None \<Rightarrow> 0))))))"

definition next_grapheme ::
  "('r, 'z) text_env_scheme \<Rightarrow> 'r rope_buffer \<Rightarrow> nat \<Rightarrow> (buffer_error, nat) res" where
  "next_grapheme E d off =
     res_bind (validate_offset E d off) (\<lambda>_.
     if off = len_bytes E d then Ok off
     else
       res_bind (line_for_offset E d off) (\<lambda>line.
       res_bind (res_map range_end (line_range E d line)) (\<lambda>line_end.
       res_bind (buf_text E d (source_range_new off line_end)) (\<lambda>t.
       Ok (off + (case map_option fst (get (grapheme_indices E t) 1) of
                    Some i \<Rightarrow> i | None \<Rightarrow> str_len t))))))"

definition move_to :: "nat \<Rightarrow> bool \<Rightarrow> 'r editor \<Rightarrow> 'r editor" where
  "move_to target extending e =
     (if extending then e\<lparr>ed_selection := (ed_selection e)\<lparr>sel_active := target\<rparr>\<rparr>
      else e\<lparr>ed_selection := caret target\<rparr>)"

definition move_grapheme ::
  "('r, 'z) text_env_scheme \<Rightarrow> bool \<Rightarrow> bool \<Rightarrow> ('r editor, buffer_error, unit) step" where
  "move_grapheme E right extending e =
     (let rg = sel_range (ed_selection e) in
      step_bind (query (\<lambda>e.
          if \<not> extending \<and> \<not> range_is_empty rg then
            (if right then Ok (range_end rg) else Ok (range_start rg))
          else if right then next_grapheme E (ed_document e) (sel_active (ed_selection e))
          else previous_grapheme E (ed_document e) (sel_active (ed_selection e))) e) (\<lambda>target e.
        (Ok (), move_to target extending e)))"

text \<open>
  The line below or above; \<open>None\<close> at the edge of the document, where the move
  stops after it has fixed the preferred column.
\<close>

definition vertical_target_line ::
  "('r, 'z) rope_api_scheme \<Rightarrow> 'r rope_buffer \<Rightarrow> bool \<Rightarrow> nat \<Rightarrow> nat option" where
  "vertical_target_line R d down current_line =
     (if down then (if current_line + 1 \<ge> line_count R d then None else Some (current_line + 1))
      else checked_sub current_line 1)"

definition move_vertical ::
  "('r, 'z) text_env_scheme \<Rightarrow> bool \<Rightarrow> bool \<Rightarrow> ('r editor, buffer_error, unit) step" where
  "move_vertical E down extending e =
     (let d = ed_document e; active = sel_active (ed_selection e) in
      step_bind (query (\<lambda>_. line_for_offset E d active) e) (\<lambda>current_line e.
      step_bind (query (\<lambda>_. line_content_range E d current_line) e) (\<lambda>current_range e.
      step_bind (query (\<lambda>_. buf_text E d (source_range_new (range_start current_range)
                                             (min active (range_end current_range)))) e) (\<lambda>prefix e.
      let column = (case ed_preferred_column e of
                      Some c \<Rightarrow> c | None \<Rightarrow> length (graphemes E prefix));
          e = e\<lparr>ed_preferred_column := Some column\<rparr>
      in case vertical_target_line E d down current_line of
           None \<Rightarrow> (Ok (), e)
         | Some target_line \<Rightarrow>
             step_bind (query (\<lambda>_. line_content_range E d target_line) e) (\<lambda>target_range e.
             step_bind (query (\<lambda>_. buf_text E d target_range) e) (\<lambda>target_text e.
             let relative = (case map_option fst (get (grapheme_indices E target_text) column) of
                               Some i \<Rightarrow> i | None \<Rightarrow> str_len target_text)
             in (Ok (), move_to (range_start target_range + relative) extending e)))))))"

definition move_to_line_boundary ::
  "('r, 'z) rope_api_scheme \<Rightarrow> bool \<Rightarrow> bool \<Rightarrow> ('r editor, buffer_error, unit) step" where
  "move_to_line_boundary R to_end extending e =
     step_bind (query (\<lambda>e. line_for_offset R (ed_document e) (sel_active (ed_selection e))) e) (\<lambda>line e.
     step_bind (query (\<lambda>e. line_content_range R (ed_document e) line) e) (\<lambda>rg e.
     (Ok (), move_to (if to_end then range_end rg else range_start rg) extending e)))"

definition collapsed_edge :: "'r editor \<Rightarrow> bool \<Rightarrow> nat option" where
  "collapsed_edge e forward =
     (let rg = sel_range (ed_selection e) in
      if range_is_empty rg then None
      else if forward then Some (range_end rg) else Some (range_start rg))"

section \<open>Words\<close>

text \<open>Each segment with the number of its bytes on the walk's side of \<open>relative\<close>.\<close>

fun walked_segments :: "bool \<Rightarrow> nat \<Rightarrow> (nat \<times> str) list \<Rightarrow> (str \<times> nat) list" where
  "walked_segments forward relative [] = []"
| "walked_segments forward relative ((index, segment) # rest) =
     (let segment_end = index + str_len segment in
      if forward then
        (if segment_end > relative
         then (segment, segment_end - max index relative) # walked_segments forward relative rest
         else walked_segments forward relative rest)
      else if index < relative
      then (segment, min segment_end relative - index) # walked_segments forward relative rest
      else walked_segments forward relative rest)"

text \<open>The class of the current phase; the phase is the index 0 or 1.\<close>

definition phase_class :: "word_class \<times> word_class \<Rightarrow> nat \<Rightarrow> word_class" where
  "phase_class phases phase = (if phase = 0 then fst phases else snd phases)"

text \<open>The inner loop: \<open>Inl pos\<close> is the code's \<open>return\<close>, \<open>Inr (pos, phase)\<close> the end of a line.\<close>

fun walk_runs ::
  "('r, 'z) text_env_scheme \<Rightarrow> bool \<Rightarrow> word_class \<times> word_class \<Rightarrow> (str \<times> nat) list \<Rightarrow>
   nat \<Rightarrow> nat \<Rightarrow> nat + nat \<times> nat" where
  "walk_runs E forward phases [] pos phase = Inr (pos, phase)"
| "walk_runs E forward phases ((segment, walked) # rest) pos phase =
     (let cls = word_class_of E segment;
          phase' = (if cls \<noteq> phase_class phases phase \<and> phase = 0 then 1 else phase)
      in if cls \<noteq> phase_class phases phase \<and> cls \<noteq> phase_class phases phase' then Inl pos
         else walk_runs E forward phases rest
                (if forward then pos + walked else pos - walked) phase')"

text \<open>The line whose segments the next round walks; \<open>None\<close> at the end of the text.\<close>

definition scan_line ::
  "('r, 'z) rope_api_scheme \<Rightarrow> 'r rope_buffer \<Rightarrow> bool \<Rightarrow> nat \<Rightarrow>
   (buffer_error, source_range option) res" where
  "scan_line R d forward pos =
     (if forward then
        (if pos \<ge> len_bytes R d then Ok None
         else res_bind (line_for_offset R d pos) (\<lambda>line. res_map Some (line_range R d line)))
      else if pos = 0 then Ok None
      else
        res_bind (line_for_offset R d pos) (\<lambda>line.
        res_bind (line_range R d line) (\<lambda>rg.
        if pos = range_start rg then
          (case checked_sub line 1 of
             None \<Rightarrow> Panic
           | Some previous \<Rightarrow> res_map Some (line_range R d previous))
        else res_map Some (line_range R d line))))"

fun scan_loop ::
  "('r, 'z) text_env_scheme \<Rightarrow> 'r rope_buffer \<Rightarrow> bool \<Rightarrow> word_class \<times> word_class \<Rightarrow>
   nat \<Rightarrow> nat \<Rightarrow> nat \<Rightarrow> (buffer_error, nat) res" where
  "scan_loop E d forward phases 0 pos phase = Hang"
| "scan_loop E d forward phases (Suc fuel) pos phase =
     res_bind (scan_line E d forward pos) (\<lambda>next.
     case next of
       None \<Rightarrow> Ok pos
     | Some rg \<Rightarrow>
         (case checked_sub pos (range_start rg) of
            None \<Rightarrow> Panic
          | Some relative \<Rightarrow>
              res_bind (buf_text E d rg) (\<lambda>t.
              let segments = walked_segments forward relative (indexed_from 0 (word_bounds E t));
                  segments = (if forward then segments else rev segments)
              in case walk_runs E forward phases segments pos phase of
                   Inl stop \<Rightarrow> Ok stop
                 | Inr (pos', phase') \<Rightarrow> scan_loop E d forward phases fuel pos' phase')))"

text \<open>The fuel: every round but the last moves by a byte at least.\<close>

definition scan_words ::
  "('r, 'z) text_env_scheme \<Rightarrow> 'r rope_buffer \<Rightarrow> nat \<Rightarrow> bool \<Rightarrow> word_class \<times> word_class \<Rightarrow>
   (buffer_error, nat) res" where
  "scan_words E d from forward phases =
     res_bind (validate_offset E d from) (\<lambda>_.
     scan_loop E d forward phases (len_bytes E d + 2) from 0)"

definition word_target ::
  "('r, 'z) text_env_scheme \<Rightarrow> 'r rope_buffer \<Rightarrow> nat \<Rightarrow> bool \<Rightarrow> forward_stop \<Rightarrow>
   (buffer_error, nat) res" where
  "word_target E d from forward stop =
     scan_words E d from forward
       (if forward \<and> stop = NextStart then (Word, Separator) else (Separator, Word))"

definition move_word ::
  "('r, 'z) text_env_scheme \<Rightarrow> bool \<Rightarrow> forward_stop \<Rightarrow> bool \<Rightarrow>
   ('r editor, buffer_error, unit) step" where
  "move_word E forward stop extending e =
     step_bind (query (\<lambda>e.
         case (if extending then None else collapsed_edge e forward) of
           Some edge \<Rightarrow> Ok edge
         | None \<Rightarrow> word_target E (ed_document e) (sel_active (ed_selection e)) forward stop) e)
       (\<lambda>target e. (Ok (), move_to target extending e))"

section \<open>Paragraphs\<close>

definition paragraph_target ::
  "('r, 'z) rope_api_scheme \<Rightarrow> 'r rope_buffer \<Rightarrow> nat \<Rightarrow> bool \<Rightarrow> forward_stop \<Rightarrow>
   (buffer_error, nat) res" where
  "paragraph_target R d from forward stop =
     res_bind (line_for_offset R d from) (\<lambda>line.
     res_bind (line_content_range R d line) (\<lambda>content.
     let has_next = line + 1 < line_count R d in
     if \<not> forward then
       (if from > range_start content then Ok (range_start content)
        else (case checked_sub line 1 of
                Some previous \<Rightarrow> res_map range_start (line_content_range R d previous)
              | None \<Rightarrow> Ok (range_start content)))
     else
       (case stop of
          NextStart \<Rightarrow>
            if has_next then res_map range_start (line_range R d (line + 1))
            else res_map range_end (line_content_range R d line)
        | StopEnd \<Rightarrow>
            if from < range_end content then Ok (range_end content)
            else if has_next then res_map range_end (line_content_range R d (line + 1))
            else Ok from)))"

definition move_paragraph ::
  "('r, 'z) rope_api_scheme \<Rightarrow> bool \<Rightarrow> forward_stop \<Rightarrow> bool \<Rightarrow>
   ('r editor, buffer_error, unit) step" where
  "move_paragraph R forward stop extending e =
     step_bind (query (\<lambda>e.
         case (if extending then None else collapsed_edge e forward) of
           Some edge \<Rightarrow> Ok edge
         | None \<Rightarrow> paragraph_target R (ed_document e) (sel_active (ed_selection e)) forward stop) e)
       (\<lambda>target e. (Ok (), move_to target extending e))"

section \<open>Deletions\<close>

definition delete_word ::
  "('r, 'z) text_env_scheme \<Rightarrow> bool \<Rightarrow> forward_stop \<Rightarrow> nat \<Rightarrow>
   ('r editor, buffer_error, edit_summary option) step" where
  "delete_word E forward stop now e =
     (let selection_before = ed_selection e;
          finish = (\<lambda>e. step_bind (replace_selection_recorded_from E [] selection_before KReplace now e)
                          (\<lambda>sm e. (Ok (Some sm), e)))
      in if range_is_empty (sel_range (ed_selection e)) then
           step_bind (query (\<lambda>e. word_target E (ed_document e) (sel_active (ed_selection e)) forward stop) e)
             (\<lambda>target e.
               if target = sel_active (ed_selection e) then (Ok None, e)
               else finish (e\<lparr>ed_selection :=
                      \<lparr>sel_anchor = sel_active (ed_selection e), sel_active = target\<rparr>\<rparr>))
         else finish e)"

definition backspace ::
  "('r, 'z) text_env_scheme \<Rightarrow> nat \<Rightarrow> ('r editor, buffer_error, edit_summary option) step" where
  "backspace E now e =
     (let selection_before = ed_selection e;
          finish = (\<lambda>e. step_bind (replace_selection_recorded_from E [] selection_before KBackspace now e)
                          (\<lambda>sm e. (Ok (Some sm), e)))
      in if range_is_empty (sel_range (ed_selection e)) then
           step_bind (query (\<lambda>e. previous_grapheme E (ed_document e) (sel_active (ed_selection e))) e)
             (\<lambda>previous e.
               if previous = sel_active (ed_selection e) then (Ok None, e)
               else finish (e\<lparr>ed_selection := (ed_selection e)\<lparr>sel_anchor := previous\<rparr>\<rparr>))
         else finish e)"

definition delete ::
  "('r, 'z) text_env_scheme \<Rightarrow> nat \<Rightarrow> ('r editor, buffer_error, edit_summary option) step" where
  "delete E now e =
     (let selection_before = ed_selection e;
          finish = (\<lambda>e. step_bind (replace_selection_recorded_from E [] selection_before KDelete now e)
                          (\<lambda>sm e. (Ok (Some sm), e)))
      in if range_is_empty (sel_range (ed_selection e)) then
           step_bind (query (\<lambda>e. next_grapheme E (ed_document e) (sel_active (ed_selection e))) e)
             (\<lambda>next e.
               if next = sel_active (ed_selection e) then (Ok None, e)
               else finish (e\<lparr>ed_selection := (ed_selection e)\<lparr>sel_active := next\<rparr>\<rparr>))
         else finish e)"

end
