(* ===== verification/Movement_Facts.thy ===== *)
theory Movement_Facts
  imports Editor_Movement
begin

text \<open>
  Where the cursor can go: every movement target is a char boundary of the text,
  on the side the movement asks for, and the walk over words returns, for any
  segmentation that cuts a string into non-empty pieces.
\<close>

section \<open>Pieces\<close>

lemma get_indexed_from:
  "get (indexed_from k ps) n =
     (if n < length ps then Some (k + str_len (concat (take n ps)), ps ! n) else None)"
proof (induction ps arbitrary: k n)
  case (Cons p ps)
  then show ?case by (cases n) auto
qed simp

lemma last_indexed_from:
  "ps \<noteq> [] \<Longrightarrow> last_of (indexed_from k ps) = Some (k + str_len (concat (butlast ps)), last ps)"
proof (induction ps arbitrary: k)
  case (Cons p ps)
  have ne: "qs \<noteq> [] \<Longrightarrow> indexed_from j qs \<noteq> []" for j qs by (cases qs) auto
  show ?case
  proof (cases "ps = []")
    case False
    then have "last_of (indexed_from k (p # ps)) = last_of (indexed_from (k + str_len p) ps)"
      using ne by (simp add: last_of_def)
    then show ?thesis using Cons.IH[OF False] False by simp
  qed (simp add: last_of_def)
qed simp

lemma str_len_concat_take_le: "str_len (concat (take n ps)) \<le> str_len (concat ps)"
  by (metis append_take_drop_id concat_append le_add1 str_len_append)

lemma is_boundary_concat_take: "is_boundary (concat ps) (str_len (concat (take n ps)))"
  by (metis append_take_drop_id concat_append is_boundary_prefix)

lemma boundary_in_slice:
  assumes "is_boundary s a" "is_boundary s b" "a \<le> b" and "is_boundary (byte_slice s a b) i"
  shows "is_boundary s (a + i)" and "a + i \<le> b"
proof -
  obtain xs ys zs where s: "s = xs @ ys @ zs" "a = str_len xs" "b = str_len xs + str_len ys"
    by (rule boundary_range_split[OF assms(1-3)])
  then obtain us vs where "ys = us @ vs" "i = str_len us"
    using assms(4) by (auto simp: is_boundary_split)
  then have "s = (xs @ us) @ vs @ zs" "a + i = str_len (xs @ us)" "a + i \<le> b" using s by simp_all
  then show "is_boundary s (a + i)" "a + i \<le> b" by (metis is_boundary_prefix)+
qed

section \<open>Word runs\<close>

lemma walk_runs_forward:
  "case walk_runs E True ph segs pos phase of
     Inl q \<Rightarrow> \<exists>j \<le> length segs. q = pos + sum_list (map snd (take j segs))
   | Inr (q, _) \<Rightarrow> q = pos + sum_list (map snd segs)"
proof (induction segs arbitrary: pos phase)
  case (Cons s segs)
  obtain seg w where s: "s = (seg, w)" by (cases s)
  let ?ph = "if word_class_of E seg \<noteq> phase_class ph phase \<and> phase = 0 then 1 else phase"
  show ?case
  proof (cases "word_class_of E seg \<noteq> phase_class ph phase \<and> word_class_of E seg \<noteq> phase_class ph ?ph")
    case False
    then have step: "walk_runs E True ph (s # segs) pos phase = walk_runs E True ph segs (pos + w) ?ph"
      by (auto simp: s Let_def)
    show ?thesis
    proof (cases "walk_runs E True ph segs (pos + w) ?ph")
      case (Inl q)
      then obtain j where "j \<le> length segs" "q = pos + w + sum_list (map snd (take j segs))"
        using Cons.IH[of "pos + w" ?ph] by auto
      then show ?thesis unfolding step Inl using s by (auto intro!: exI[of _ "Suc j"])
    next
      case (Inr r)
      then show ?thesis using Cons.IH[of "pos + w" ?ph] step s by auto
    qed
  qed (auto simp: s Let_def)
qed auto

lemma walk_runs_backward:
  "case walk_runs E False ph segs pos phase of
     Inl q \<Rightarrow> \<exists>j \<le> length segs. q = pos - sum_list (map snd (take j segs))
   | Inr (q, _) \<Rightarrow> q = pos - sum_list (map snd segs)"
proof (induction segs arbitrary: pos phase)
  case (Cons s segs)
  obtain seg w where s: "s = (seg, w)" by (cases s)
  let ?ph = "if word_class_of E seg \<noteq> phase_class ph phase \<and> phase = 0 then 1 else phase"
  show ?case
  proof (cases "word_class_of E seg \<noteq> phase_class ph phase \<and> word_class_of E seg \<noteq> phase_class ph ?ph")
    case False
    then have step: "walk_runs E False ph (s # segs) pos phase = walk_runs E False ph segs (pos - w) ?ph"
      by (auto simp: s Let_def)
    show ?thesis
    proof (cases "walk_runs E False ph segs (pos - w) ?ph")
      case (Inl q)
      then obtain j where "j \<le> length segs" "q = pos - w - sum_list (map snd (take j segs))"
        using Cons.IH[of "pos - w" ?ph] by auto
      then show ?thesis unfolding step Inl using s by (auto intro!: exI[of _ "Suc j"])
    next
      case (Inr r)
      then show ?thesis using Cons.IH[of "pos - w" ?ph] step s by auto
    qed
  qed (auto simp: s Let_def)
qed auto

text \<open>The first segment of a walk is always consumed: one of the two phases has its class.\<close>

lemma walk_runs_first:
  assumes "fst ph \<noteq> snd ph"
  shows "\<exists>phase. walk_runs E forward ph ((seg, w) # segs) pos 0 =
    walk_runs E forward ph segs (if forward then pos + w else pos - w) phase"
proof -
  have "word_class_of E seg = fst ph \<or> word_class_of E seg = snd ph"
    using assms by (metis word_class.exhaust)
  then show ?thesis by (auto simp: phase_class_def Let_def)
qed

text \<open>Forward: the ends of the walked segments are the piece ends after \<open>rel\<close>.\<close>

lemma walked_forward_all:
  "rel \<le> k \<Longrightarrow> \<forall>p \<in> set ps. p \<noteq> [] \<Longrightarrow>
   walked_segments True rel (indexed_from k ps) = map (\<lambda>p. (p, str_len p)) ps"
proof (induction ps arbitrary: k)
  case (Cons p ps)
  then have "0 < str_len p" by (simp add: zero_less_iff_neq_zero)
  then show ?case using Cons by (simp add: max_def)
qed simp

lemma walked_forward:
  assumes "k \<le> rel" and "rel < k + str_len (concat ps)" and "\<forall>p \<in> set ps. p \<noteq> []"
  shows "\<exists>i seg rest. walked_segments True rel (indexed_from k ps) =
      (seg, k + str_len (concat (take (Suc i) ps)) - rel) # map (\<lambda>p. (p, str_len p)) rest \<and>
    i < length ps \<and> rest = drop (Suc i) ps \<and> rel < k + str_len (concat (take (Suc i) ps))"
  using assms
proof (induction ps arbitrary: k)
  case (Cons p ps)
  show ?case
  proof (cases "k + str_len p > rel")
    case True
    have "walked_segments True rel (indexed_from (k + str_len p) ps) = map (\<lambda>p. (p, str_len p)) ps"
      using True Cons.prems(3) by (intro walked_forward_all) auto
    then show ?thesis
      using True Cons.prems(1) by (intro exI[of _ 0] exI[of _ p] exI[of _ ps]) (simp add: max_def)
  next
    case False
    then obtain i seg rest where i: "walked_segments True rel (indexed_from (k + str_len p) ps) =
        (seg, k + str_len p + str_len (concat (take (Suc i) ps)) - rel) # map (\<lambda>p. (p, str_len p)) rest"
      "i < length ps" "rest = drop (Suc i) ps" "rel < k + str_len p + str_len (concat (take (Suc i) ps))"
      using Cons.IH[of "k + str_len p"] Cons.prems by auto
    show ?thesis
      using False i by (intro exI[of _ "Suc i"] exI[of _ seg] exI[of _ rest]) (simp add: add.assoc)
  qed
qed simp

lemma sum_piece_lens: "sum_list (map snd (map (\<lambda>p. (p, str_len p)) ps)) = str_len (concat ps)"
  by (simp add: str_len_concat comp_def)

lemma walked_forward_positions:
  assumes "rel < str_len (concat ps)" and "\<forall>p \<in> set ps. p \<noteq> []" and "is_boundary (concat ps) rel"
  defines "w \<equiv> walked_segments True rel (indexed_from 0 ps)"
  shows "w \<noteq> []" and "0 < snd (hd w)" and "rel + sum_list (map snd w) = str_len (concat ps)"
    and "is_boundary (concat ps) (rel + sum_list (map snd (take j w)))"
proof -
  obtain i seg where w: "w = (seg, str_len (concat (take (Suc i) ps)) - rel) #
      map (\<lambda>p. (p, str_len p)) (drop (Suc i) ps)"
    and lt: "rel < str_len (concat (take (Suc i) ps))"
    using walked_forward[of 0 rel ps] assms(1,2) unfolding w_def by auto
  have split: "str_len (concat ps) = str_len (concat (take (Suc i) ps)) + str_len (concat (drop (Suc i) ps))"
    by (metis append_take_drop_id concat_append str_len_append)
  show "w \<noteq> []" "0 < snd (hd w)" using w lt by simp_all
  show "rel + sum_list (map snd w) = str_len (concat ps)"
    unfolding w list.map sum_list.Cons sum_piece_lens split snd_conv using lt by simp
  show "is_boundary (concat ps) (rel + sum_list (map snd (take j w)))"
  proof (cases j)
    case (Suc j')
    have "rel + sum_list (map snd (take j w)) =
        str_len (concat (take (Suc i) ps)) + str_len (concat (take j' (drop (Suc i) ps)))"
      unfolding w Suc take_Suc_Cons take_map list.map sum_list.Cons sum_piece_lens snd_conv using lt by simp
    also have "\<dots> = str_len (concat (take (Suc i + j') ps))"
      by (simp only: take_add concat_append str_len_append)
    finally show ?thesis by (metis is_boundary_concat_take)
  qed (use assms(3) in simp)
qed

text \<open>Backward: dropping segments from the right leads to piece starts before \<open>rel\<close>.\<close>

lemma walked_backward_none: "rel \<le> j \<Longrightarrow> walked_segments False rel (indexed_from j qs) = []"
  by (induction qs arbitrary: j) (auto simp: Let_def)

lemma walked_backward:
  "k \<le> rel \<Longrightarrow> rel \<le> k + str_len (concat ps) \<Longrightarrow> \<forall>p \<in> set ps. p \<noteq> [] \<Longrightarrow>
   (let w = walked_segments False rel (indexed_from k ps)
    in k + sum_list (map snd w) = rel \<and>
       (\<forall>n < length w. sum_list (map snd (take n w)) = str_len (concat (take n ps))) \<and>
       (rel > k \<longrightarrow> w \<noteq> [] \<and> 0 < snd (last w)))"
proof (induction ps arbitrary: k)
  case (Cons p ps)
  let ?w = "walked_segments False rel (indexed_from (k + str_len p) ps)"
  have p: "0 < str_len p" using Cons.prems(3) by (simp add: zero_less_iff_neq_zero)
  consider (eq) "rel = k" | (inside) "k < rel" "rel \<le> k + str_len p" | (beyond) "k + str_len p < rel"
    using Cons.prems(1) by linarith
  then show ?case
  proof cases
    case eq
    then show ?thesis by (simp add: walked_backward_none Let_def)
  next
    case inside
    then show ?thesis by (simp add: walked_backward_none Let_def)
  next
    case beyond
    then have IH: "k + str_len p + sum_list (map snd ?w) = rel"
      "\<forall>n < length ?w. sum_list (map snd (take n ?w)) = str_len (concat (take n ps))"
      "?w \<noteq> []" "0 < snd (last ?w)"
      using Cons.IH[of "k + str_len p"] Cons.prems by (auto simp: Let_def)
    have w: "walked_segments False rel (indexed_from k (p # ps)) = (p, str_len p) # ?w"
      using beyond by (simp add: Let_def min_def)
    have "\<forall>n < length ((p, str_len p) # ?w). sum_list (map snd (take n ((p, str_len p) # ?w))) =
        str_len (concat (take n (p # ps)))"
    proof (intro allI impI)
      fix n
      assume "n < length ((p, str_len p) # ?w)"
      then show "sum_list (map snd (take n ((p, str_len p) # ?w))) = str_len (concat (take n (p # ps)))"
        using IH(2) by (cases n) auto
    qed
    then show ?thesis using IH w by (simp add: Let_def add.assoc)
  qed
qed simp

lemma walked_backward_positions:
  assumes "0 < rel" and "rel \<le> str_len (concat ps)" and "\<forall>p \<in> set ps. p \<noteq> []"
    and "is_boundary (concat ps) rel"
  defines "w \<equiv> rev (walked_segments False rel (indexed_from 0 ps))"
  shows "w \<noteq> []" and "0 < snd (hd w)" and "sum_list (map snd w) = rel"
    and "is_boundary (concat ps) (rel - sum_list (map snd (take j w)))"
    and "sum_list (map snd (take j w)) \<le> rel"
proof -
  let ?v = "walked_segments False rel (indexed_from 0 ps)"
  have v: "sum_list (map snd ?v) = rel"
    "\<And>n. n < length ?v \<Longrightarrow> sum_list (map snd (take n ?v)) = str_len (concat (take n ps))"
    "?v \<noteq> []" "0 < snd (last ?v)"
    using walked_backward[of 0 rel ps] assms(1-3) by (auto simp: Let_def)
  show "w \<noteq> []" "0 < snd (hd w)" using v(3,4) by (simp_all add: w_def hd_rev)
  show "sum_list (map snd w) = rel" using v(1) by (simp add: w_def rev_map[symmetric] sum_list_rev)
  have split: "sum_list (map snd (take (length ?v - j) ?v)) + sum_list (map snd (take j w)) = rel"
  proof -
    have "take j w = rev (drop (length ?v - j) ?v)" by (simp add: w_def take_rev)
    then have "sum_list (map snd (take j w)) = sum_list (map snd (drop (length ?v - j) ?v))"
      by (simp add: rev_map[symmetric] sum_list_rev)
    then show ?thesis
      using v(1) by (metis append_take_drop_id map_append sum_list_append)
  qed
  then show "sum_list (map snd (take j w)) \<le> rel" by simp
  show "is_boundary (concat ps) (rel - sum_list (map snd (take j w)))"
  proof (cases "j = 0")
    case False
    then have "length ?v - j < length ?v" using v(3) by simp
    then have "rel - sum_list (map snd (take j w)) = str_len (concat (take (length ?v - j) ps))"
      using split v(2) by (metis add_diff_cancel_right')
    then show ?thesis by (metis is_boundary_concat_take)
  qed (use assms(4) in simp)
qed

section \<open>Targets\<close>

context ropey
begin

text \<open>The line of a position, as a span of the text.\<close>

lemma line_at:
  assumes inv: "buffer_inv R b" and p: "is_boundary (full_text R b) p"
  obtains l where "line_for_offset R b p = Ok l" and "l < length (source_lines (full_text R b))"
    and "line_range R b l = Ok (line_span (full_text R b) l)"
    and "line_content_range R b l = Ok (content_span (full_text R b) l)"
    and "range_start (line_span (full_text R b) l) \<le> p" and "p \<le> range_end (line_span (full_text R b) l)"
    and "p < str_len (full_text R b) \<Longrightarrow> p < range_end (line_span (full_text R b) l)"
proof -
  let ?s = "full_text R b"
  obtain l rg where l: "line_for_offset R b p = Ok l" "l < line_count R b" "line_range R b l = Ok rg"
    "range_start rg \<le> p" "p \<le> range_end rg" "l + 1 < line_count R b \<longrightarrow> p < range_end rg"
    using line_for_offset_span[OF assms] by blast
  have n: "l < length (source_lines ?s)" using l(2) line_count_eq[OF inv] by simp
  have rg: "rg = line_span ?s l" using l(3) n line_range_eq[OF inv] by simp
  have "p < str_len ?s \<Longrightarrow> p < range_end rg"
    using l(6) line_span_last[of l ?s] n rg line_count_eq[OF inv] by (cases "Suc l = length (source_lines ?s)") auto
  then show ?thesis
    using that[OF l(1) n] l rg line_content_range_eq[OF inv, of l] n by simp
qed

lemma line_text:
  assumes "l < length (source_lines (full_text R b))"
  shows "buf_text R b (line_span (full_text R b) l) = Ok (source_lines (full_text R b) ! l)"
  using buf_text_Ok[of b "line_span (full_text R b) l"] line_span_valid[OF assms]
  by (simp add: valid_range_def)

lemma content_text:
  assumes "l < length (source_lines (full_text R b))"
  shows "buf_text R b (content_span (full_text R b) l) = Ok (line_content (source_lines (full_text R b) ! l))"
  using buf_text_Ok[of b "content_span (full_text R b) l"] content_span_valid[OF assms]
  by (simp add: valid_range_def)

end

context text_segments
begin

lemma grapheme_index_boundary:
  "map_option fst (get (grapheme_indices R t) n) = Some i \<Longrightarrow> is_boundary t i"
  using is_boundary_concat_take[of "graphemes R t" n]
  by (auto simp: grapheme_indices_def get_indexed_from split: if_splits)

text \<open>The next grapheme boundary is the end of the first cluster of the rest of the line.\<close>

lemma next_grapheme_Ok:
  assumes inv: "buffer_inv R b" and p: "is_boundary (full_text R b) p"
  shows "\<exists>q. next_grapheme R b p = Ok q \<and> is_boundary (full_text R b) q \<and> p \<le> q \<and>
    (p < str_len (full_text R b) \<longrightarrow> p < q)"
proof (cases "p = str_len (full_text R b)")
  case True
  then show ?thesis using p by (simp add: next_grapheme_def len_bytes_eq res_bind_Ok_iff)
next
  case False
  let ?s = "full_text R b"
  have lt: "p < str_len ?s" using False is_boundary_le[OF p] by simp
  obtain l where l: "line_for_offset R b p = Ok l" "l < length (source_lines ?s)"
    "line_range R b l = Ok (line_span ?s l)" "p < range_end (line_span ?s l)"
    using line_at[OF inv p] lt by metis
  let ?e = "range_end (line_span ?s l)" and ?t = "byte_slice ?s p (range_end (line_span ?s l))"
  have e: "is_boundary ?s ?e" using line_span_valid[OF l(2)] by simp
  have t: "buf_text R b (source_range_new p ?e) = Ok ?t"
    using buf_text_Ok[of b "source_range_new p ?e"] p e l(4) by (simp add: valid_range_def)
  have len: "str_len ?t = ?e - p" using str_len_byte_slice[OF p e] l(4) by simp
  define i where "i = (case map_option fst (get (grapheme_indices R ?t) 1) of Some i \<Rightarrow> i | None \<Rightarrow> str_len ?t)"
  have q: "next_grapheme R b p = Ok (p + i)"
    using p False l t by (simp add: next_grapheme_def len_bytes_eq i_def del: option.map)
  have "is_boundary ?t i"
    using grapheme_index_boundary[of ?t 1] by (auto simp: i_def split: option.splits)
  then have bd: "is_boundary ?s (p + i)" using boundary_in_slice(1)[OF p e] l(4) by simp
  have "0 < i"
  proof (cases "1 < length (graphemes R ?t)")
    case True
    then obtain g gs where g: "graphemes R ?t = g # gs" by (cases "graphemes R ?t") auto
    then have "0 < str_len g" using graphemes_nonempty[of g ?t] by (simp add: zero_less_iff_neq_zero)
    then show ?thesis using g True by (simp add: i_def grapheme_indices_def get_indexed_from)
  qed (use len l(4) in \<open>simp add: i_def grapheme_indices_def get_indexed_from\<close>)
  then show ?thesis using q bd by auto
qed

lemma last_grapheme_index:
  assumes "t \<noteq> []"
  shows "\<exists>i. map_option fst (last_of (grapheme_indices R t)) = Some i \<and> is_boundary t i \<and> i < str_len t"
proof -
  let ?gs = "graphemes R t"
  have ne: "?gs \<noteq> []" using graphemes_concat[of t] assms by (metis concat.simps(1))
  then have gs: "?gs = butlast ?gs @ [last ?gs]" by simp
  then have t: "t = concat (butlast ?gs) @ last ?gs"
    by (metis append.right_neutral concat.simps concat_append graphemes_concat)
  have "0 < str_len (last ?gs)" using graphemes_nonempty[of "last ?gs" t] ne by (simp add: zero_less_iff_neq_zero)
  then show ?thesis
    using last_indexed_from[OF ne, of 0] arg_cong[OF t, of str_len]
      is_boundary_prefix[of "concat (butlast ?gs)" "last ?gs", folded t]
    by (intro exI[of _ "str_len (concat (butlast ?gs))"]) (simp add: grapheme_indices_def)
qed

lemma previous_grapheme_Ok:
  assumes inv: "buffer_inv R b" and p: "is_boundary (full_text R b) p"
  shows "\<exists>q. previous_grapheme R b p = Ok q \<and> is_boundary (full_text R b) q \<and> q \<le> p \<and> (0 < p \<longrightarrow> q < p)"
proof (cases "p = 0")
  case True
  then show ?thesis by (auto simp: previous_grapheme_def res_bind_Ok_iff)
next
  case False
  let ?s = "full_text R b"
  obtain l where l: "line_for_offset R b p = Ok l" "l < length (source_lines ?s)"
    "range_start (line_span ?s l) \<le> p" using line_at[OF inv p] by metis
  let ?a = "range_start (line_span ?s l)"
  have a: "offset_for_line_col R b l 0 = Ok ?a" using offset_for_line_col_eq[OF inv l(2), of 0] by (simp add: Let_def)
  have ab: "is_boundary ?s ?a" using line_span_valid[OF l(2)] by simp
  show ?thesis
  proof (cases "p = ?a \<and> l > 0")
    case True
    let ?k = "l - 1"
    have k: "Suc ?k < length (source_lines ?s)" "Suc ?k = l" using True l(2) by auto
    have "range_end (content_span ?s ?k) < p"
      using line_content_shorter[OF k(1)] line_span_end[of ?k ?s] line_span_next[of ?s ?k] k True
      by (simp add: content_span_def Let_def line_span_def)
    moreover have "previous_grapheme R b p = Ok (range_end (content_span ?s ?k))"
      using p False l a True line_content_range_eq[OF inv, of ?k] k by (simp add: previous_grapheme_def)
    ultimately show ?thesis using content_span_valid[of ?k ?s] k by simp
  next
    case notstart: False
    have lt: "?a < p"
    proof (cases l)
      case 0
      then show ?thesis using False line_span_0[of ?s] by simp
    qed (use notstart l(3) in auto)
    let ?t = "byte_slice ?s ?a p"
    have t: "buf_text R b (source_range_new ?a p) = Ok ?t"
      using buf_text_Ok[of b "source_range_new ?a p"] p ab lt by (simp add: valid_range_def)
    have len: "str_len ?t = p - ?a" using str_len_byte_slice[OF ab p] lt by simp
    then have "?t \<noteq> []" using lt by auto
    then obtain i where i: "map_option fst (last_of (grapheme_indices R ?t)) = Some i" "is_boundary ?t i" "i < str_len ?t"
      using last_grapheme_index by blast
    have "previous_grapheme R b p = Ok (?a + i)"
      using p False l a notstart t i(1) by (auto simp: previous_grapheme_def)
    moreover have "is_boundary ?s (?a + i)" using boundary_in_slice(1)[OF ab p _ i(2)] lt by simp
    ultimately show ?thesis using i(3) len lt by auto
  qed
qed

section \<open>The walk over words\<close>

text \<open>What a round of the walk yields: it stops on a boundary, or reaches the end of its line.\<close>

lemma forward_round:
  assumes l: "l < length (source_lines (full_text R b))" and inv: "buffer_inv R b"
    and p: "is_boundary (full_text R b) p" and ph: "fst ph \<noteq> snd ph"
    and at: "range_start (line_span (full_text R b) l) \<le> p" "p < range_end (line_span (full_text R b) l)"
  defines "w \<equiv> walked_segments True (p - range_start (line_span (full_text R b) l))
      (indexed_from 0 (word_bounds R (source_lines (full_text R b) ! l)))"
  shows "case walk_runs R True ph w p phase of
      Inl q \<Rightarrow> is_boundary (full_text R b) q \<and> p \<le> q \<and> (phase = 0 \<longrightarrow> p < q)
    | Inr (q, _) \<Rightarrow> is_boundary (full_text R b) q \<and> p < q"
proof -
  let ?s = "full_text R b" and ?x = "source_lines (full_text R b) ! l"
  let ?a = "range_start (line_span ?s l)" and ?ps = "word_bounds R ?x"
  have x: "byte_slice ?s ?a (range_end (line_span ?s l)) = ?x" and ab: "is_boundary ?s ?a"
    "is_boundary ?s (range_end (line_span ?s l))" "?a \<le> range_end (line_span ?s l)"
    using line_span_valid[OF l] by auto
  have e: "range_end (line_span ?s l) = ?a + str_len ?x" using line_span_end[OF l] .
  have rel: "p - ?a < str_len ?x" using at e by simp
  have relb: "is_boundary ?x (p - ?a)"
  proof -
    obtain us vs ws where s: "?s = us @ vs @ ws" "?a = str_len us" "p = str_len us + str_len vs"
      by (rule boundary_range_split[OF ab(1) p at(1)])
    have "?x = byte_slice ?s ?a p @ byte_slice ?s p (range_end (line_span ?s l))"
      using byte_slice_adjacent[OF ab(1) p ab(2) at(1)] at(2) x by simp
    moreover have "str_len (byte_slice ?s ?a p) = p - ?a" using str_len_byte_slice[OF ab(1) p at(1)] .
    ultimately show ?thesis by (metis is_boundary_prefix)
  qed
  have ne: "\<forall>p \<in> set ?ps. p \<noteq> []" using word_bounds_nonempty by blast
  note W = walked_forward_positions[of "p - ?a" ?ps, unfolded word_bounds_concat, OF rel ne relb,
      folded w_def]
  have pos: "is_boundary ?s (p + sum_list (map snd (take j w)))" for j
    using boundary_in_slice(1)[OF ab(1,2,3), of "p - ?a + sum_list (map snd (take j w))"] W(4)[of j] x at(1)
    by simp
  obtain seg k rest where w: "w = (seg, k) # rest" "0 < k" using W(1,2) by (cases w) auto
  note run = walk_runs_forward[where E=R and ph=ph and segs=w and pos=p and phase=phase]
  show ?thesis
  proof (cases "walk_runs R True ph w p phase")
    case (Inl q)
    then obtain j where q: "q = p + sum_list (map snd (take j w))" using run by auto
    have "phase = 0 \<Longrightarrow> p < q"
    proof -
      assume "phase = 0"
      then obtain phase' where "walk_runs R True ph rest (p + k) phase' = Inl q"
        using walk_runs_first[OF ph, of R True seg k rest p] Inl w by (auto simp del: walk_runs.simps)
      then show "p < q" using walk_runs_forward[where E=R and ph=ph and segs=rest and pos="p + k" and phase=phase'] w(2) by auto
    qed
    then show ?thesis using Inl pos q by simp
  next
    case (Inr r)
    then have "fst r = p + sum_list (map snd w)" using run by auto
    then show ?thesis using Inr pos[of "length w"] w by (auto split: prod.splits)
  qed
qed

lemma backward_round:
  assumes l: "l < length (source_lines (full_text R b))" and inv: "buffer_inv R b"
    and p: "is_boundary (full_text R b) p" and ph: "fst ph \<noteq> snd ph"
    and at: "range_start (line_span (full_text R b) l) < p" "p \<le> range_end (line_span (full_text R b) l)"
  defines "w \<equiv> rev (walked_segments False (p - range_start (line_span (full_text R b) l))
      (indexed_from 0 (word_bounds R (source_lines (full_text R b) ! l))))"
  shows "case walk_runs R False ph w p phase of
      Inl q \<Rightarrow> is_boundary (full_text R b) q \<and> q \<le> p \<and> (phase = 0 \<longrightarrow> q < p)
    | Inr (q, _) \<Rightarrow> is_boundary (full_text R b) q \<and> q < p"
proof -
  let ?s = "full_text R b" and ?x = "source_lines (full_text R b) ! l"
  let ?a = "range_start (line_span ?s l)" and ?ps = "word_bounds R ?x"
  have x: "byte_slice ?s ?a (range_end (line_span ?s l)) = ?x" and ab: "is_boundary ?s ?a"
    "is_boundary ?s (range_end (line_span ?s l))" "?a \<le> range_end (line_span ?s l)"
    using line_span_valid[OF l] by auto
  have e: "range_end (line_span ?s l) = ?a + str_len ?x" using line_span_end[OF l] .
  have rel: "0 < p - ?a" "p - ?a \<le> str_len ?x" using at e by simp_all
  have relb: "is_boundary ?x (p - ?a)"
  proof -
    have "?x = byte_slice ?s ?a p @ byte_slice ?s p (range_end (line_span ?s l))"
      using byte_slice_adjacent[OF ab(1) p ab(2)] at x by simp
    moreover have "str_len (byte_slice ?s ?a p) = p - ?a" using str_len_byte_slice[OF ab(1) p] at(1) by simp
    ultimately show ?thesis by (metis is_boundary_prefix)
  qed
  have ne: "\<forall>p \<in> set ?ps. p \<noteq> []" using word_bounds_nonempty by blast
  note W = walked_backward_positions[of "p - ?a" ?ps, unfolded word_bounds_concat, OF rel ne relb,
      folded w_def]
  have pos: "is_boundary ?s (p - sum_list (map snd (take j w)))" for j
    using boundary_in_slice(1)[OF ab(1,2,3), of "p - ?a - sum_list (map snd (take j w))"] W(4,5)[of j] x at(1)
    by simp
  obtain seg k rest where w: "w = (seg, k) # rest" "0 < k" using W(1,2) by (cases w) auto
  have kp: "k \<le> p" using W(3) w at(1) by simp
  note run = walk_runs_backward[where E=R and ph=ph and segs=w and pos=p and phase=phase]
  show ?thesis
  proof (cases "walk_runs R False ph w p phase")
    case (Inl q)
    then obtain j where q: "q = p - sum_list (map snd (take j w))" using run by auto
    have "phase = 0 \<Longrightarrow> q < p"
    proof -
      assume "phase = 0"
      then obtain phase' where "walk_runs R False ph rest (p - k) phase' = Inl q"
        using walk_runs_first[OF ph, of R False seg k rest p] Inl w by (auto simp del: walk_runs.simps)
      then have "q \<le> p - k" using walk_runs_backward[where E=R and ph=ph and segs=rest and pos="p - k" and phase=phase'] by auto
      then show "q < p" using w(2) kp by simp
    qed
    then show ?thesis using Inl pos q by simp
  next
    case (Inr r)
    then have "fst r = p - sum_list (map snd w)" using run by auto
    then show ?thesis using Inr pos[of "length w"] W(3) w at(1) by (auto split: prod.splits)
  qed
qed

lemma scan_loop_forward:
  assumes inv: "buffer_inv R b" and ph: "fst ph \<noteq> snd ph"
  shows "is_boundary (full_text R b) p \<Longrightarrow> str_len (full_text R b) - p < fuel \<Longrightarrow>
    \<exists>q. scan_loop R b True ph fuel p phase = Ok q \<and> is_boundary (full_text R b) q \<and> p \<le> q \<and>
      (phase = 0 \<and> p < str_len (full_text R b) \<longrightarrow> p < q)"
proof (induction fuel arbitrary: p phase)
  case (Suc fuel)
  let ?s = "full_text R b"
  show ?case
  proof (cases "p \<ge> str_len ?s")
    case True
    then show ?thesis using Suc.prems(1) by (simp add: scan_line_def len_bytes_eq)
  next
    case False
    obtain l where l: "line_for_offset R b p = Ok l" "l < length (source_lines ?s)"
      "line_range R b l = Ok (line_span ?s l)" "range_start (line_span ?s l) \<le> p" "p < range_end (line_span ?s l)"
      using line_at[OF inv Suc.prems(1)] False by (metis linorder_not_le)
    define w where "w = walked_segments True (p - range_start (line_span ?s l))
      (indexed_from 0 (word_bounds R (source_lines ?s ! l)))"
    have step: "scan_loop R b True ph (Suc fuel) p phase =
        (case walk_runs R True ph w p phase of Inl stop \<Rightarrow> Ok stop
         | Inr (pos', phase') \<Rightarrow> scan_loop R b True ph fuel pos' phase')"
      using False l line_text[OF l(2)]
      by (simp add: scan_line_def len_bytes_eq checked_sub_def Let_def w_def)
    note round = forward_round[OF l(2) inv Suc.prems(1) ph l(4,5), of phase, folded w_def]
    show ?thesis
    proof (cases "walk_runs R True ph w p phase")
      case (Inl q)
      then show ?thesis using round step by auto
    next
      case (Inr r)
      obtain q ph' where r: "r = (q, ph')" by (cases r)
      have q: "is_boundary ?s q" "p < q" using round Inr r by auto
      then have "str_len ?s - q < fuel" using Suc.prems(2) False by simp
      then show ?thesis using Suc.IH[OF q(1), of ph'] q(2) step Inr r by fastforce
    qed
  qed
qed simp

lemma scan_loop_backward:
  assumes inv: "buffer_inv R b" and ph: "fst ph \<noteq> snd ph"
  shows "is_boundary (full_text R b) p \<Longrightarrow> p < fuel \<Longrightarrow>
    \<exists>q. scan_loop R b False ph fuel p phase = Ok q \<and> is_boundary (full_text R b) q \<and> q \<le> p \<and>
      (phase = 0 \<and> 0 < p \<longrightarrow> q < p)"
proof (induction fuel arbitrary: p phase)
  case (Suc fuel)
  let ?s = "full_text R b"
  show ?case
  proof (cases "p = 0")
    case True
    then show ?thesis by (simp add: scan_line_def)
  next
    case False
    obtain l0 where l0: "line_for_offset R b p = Ok l0" "l0 < length (source_lines ?s)"
      "line_range R b l0 = Ok (line_span ?s l0)" "range_start (line_span ?s l0) \<le> p"
      "p \<le> range_end (line_span ?s l0)"
      using line_at[OF inv Suc.prems(1)] by metis
    have "\<exists>l. l < length (source_lines ?s) \<and> scan_line R b False p = Ok (Some (line_span ?s l)) \<and>
        range_start (line_span ?s l) < p \<and> p \<le> range_end (line_span ?s l)"
    proof (cases "p = range_start (line_span ?s l0)")
      case True
      have "l0 \<noteq> 0" using True False line_span_0[of ?s] by (cases l0) auto
      then obtain k where k: "l0 = Suc k" by (cases l0) auto
      have "line_range R b k = Ok (line_span ?s k)" using line_range_eq[OF inv, of k] l0(2) k by simp
      moreover have "p = range_end (line_span ?s k)" using line_span_next[of ?s k] True k by simp
      moreover have "range_start (line_span ?s k) < range_end (line_span ?s k)"
        using line_content_shorter[of k ?s] line_span_end[of k ?s] l0(2) k by simp
      ultimately show ?thesis
        using l0 k True False by (intro exI[of _ k]) (simp add: scan_line_def checked_sub_def)
    next
      case notstart: False
      then show ?thesis
        using l0 False by (intro exI[of _ l0]) (simp add: scan_line_def)
    qed
    then obtain l where l: "l < length (source_lines ?s)" "scan_line R b False p = Ok (Some (line_span ?s l))"
      "range_start (line_span ?s l) < p" "p \<le> range_end (line_span ?s l)" by blast
    define w where "w = rev (walked_segments False (p - range_start (line_span ?s l))
      (indexed_from 0 (word_bounds R (source_lines ?s ! l))))"
    have step: "scan_loop R b False ph (Suc fuel) p phase =
        (case walk_runs R False ph w p phase of Inl stop \<Rightarrow> Ok stop
         | Inr (pos', phase') \<Rightarrow> scan_loop R b False ph fuel pos' phase')"
      using l line_text[OF l(1)] by (simp add: checked_sub_def Let_def w_def)
    note round = backward_round[OF l(1) inv Suc.prems(1) ph l(3,4), of phase, folded w_def]
    show ?thesis
    proof (cases "walk_runs R False ph w p phase")
      case (Inl q)
      then show ?thesis using round step by auto
    next
      case (Inr r)
      obtain q ph' where r: "r = (q, ph')" by (cases r)
      have q: "is_boundary ?s q" "q < p" using round Inr r by auto
      then have "q < fuel" using Suc.prems(2) by simp
      then show ?thesis using Suc.IH[OF q(1), of ph'] q(2) step Inr r by fastforce
    qed
  qed
qed simp

lemma word_target_Ok:
  assumes inv: "buffer_inv R b" and p: "is_boundary (full_text R b) p"
  shows "\<exists>q. word_target R b p forward stop = Ok q \<and> is_boundary (full_text R b) q \<and>
    (if forward then p \<le> q \<and> (p < str_len (full_text R b) \<longrightarrow> p < q)
     else q \<le> p \<and> (0 < p \<longrightarrow> q < p))"
proof -
  define ph where "ph = (if forward \<and> stop = NextStart then (Word, Separator) else (Separator, Word))"
  have ph: "fst ph \<noteq> snd ph" by (simp add: ph_def)
  have le: "p \<le> str_len (full_text R b)" using is_boundary_le[OF p] .
  show ?thesis
    using scan_loop_forward[OF inv ph p, of "str_len (full_text R b) + 2" 0]
      scan_loop_backward[OF inv ph p, of "str_len (full_text R b) + 2" 0] le p
    unfolding word_target_def scan_words_def ph_def[symmetric]
    by (cases forward) (auto simp: len_bytes_eq)
qed

section \<open>Lines and paragraphs\<close>

lemma paragraph_target_Ok:
  assumes inv: "buffer_inv R b" and p: "is_boundary (full_text R b) p"
  shows "\<exists>q. paragraph_target R b p forward stop = Ok q \<and> is_boundary (full_text R b) q"
proof -
  let ?s = "full_text R b"
  obtain l where l: "line_for_offset R b p = Ok l" "l < length (source_lines ?s)"
    "line_content_range R b l = Ok (content_span ?s l)" using line_at[OF inv p] by metis
  note n = line_count_eq[OF inv]
  note here = content_span_valid[OF l(2)] line_range_eq[OF inv] line_content_range_eq[OF inv]
  have nxt: "Suc l < length (source_lines ?s) \<Longrightarrow>
      is_boundary ?s (range_start (line_span ?s (Suc l))) \<and> is_boundary ?s (range_end (content_span ?s (Suc l)))"
    using line_span_valid[of "Suc l" ?s] content_span_valid[of "Suc l" ?s] by simp
  have prev: "is_boundary ?s (range_start (content_span ?s (l - 1)))"
    using content_span_valid[of "l - 1" ?s] l(2) by simp
  show ?thesis
    using l n here nxt prev p
    by (cases forward; cases stop; cases l) (auto simp: paragraph_target_def Let_def)
qed

lemma line_boundary_Ok:
  assumes inv: "buffer_inv R b" and p: "is_boundary (full_text R b) p"
  obtains l rg where "line_for_offset R b p = Ok l" and "line_content_range R b l = Ok rg"
    and "is_boundary (full_text R b) (range_start rg)" and "is_boundary (full_text R b) (range_end rg)"
    and "range_start rg \<le> p" and "l < line_count R b" and "range_start rg \<le> range_end rg"
proof -
  let ?s = "full_text R b"
  obtain l where l: "line_for_offset R b p = Ok l" "l < length (source_lines ?s)"
    "line_content_range R b l = Ok (content_span ?s l)" "range_start (line_span ?s l) \<le> p"
    using line_at[OF inv p] by metis
  then show ?thesis
    using that[OF l(1,3)] content_span_valid[OF l(2)] line_count_eq[OF inv] by simp
qed

end

end
