(* ===== verification/Find.thy ===== *)
theory Find
  imports Movement_Facts
begin

text \<open>
  Find in a document (\<open>crates/editor/src/find.rs\<close>): query validation, the scan in
  byte windows, and navigation between matches.  \<open>is_cancelled\<close> is a function of
  how often it has been polled; the number of polls is threaded through the
  loops.  A query is its text.
\<close>

section \<open>Queries and results\<close>

definition max_query_bytes :: nat where "max_query_bytes = 4096"
definition max_matches :: nat where "max_matches = 100000"
definition window_core_bytes :: nat where "window_core_bytes = 256 * 1024"
definition window_slack_bytes :: nat where "window_slack_bytes = max_query_bytes * 4 + 8"
definition cancel_check_interval :: nat where "cancel_check_interval = 2048"

datatype find_query_error = EmptyQuery | MultiLine | TooLong nat nat

definition find_query_parse :: "str \<Rightarrow> (find_query_error, str) res" where
  "find_query_parse raw =
     (if raw = [] then Err EmptyQuery
      else if \<exists>c \<in> set raw. c = LF \<or> c = CR then Err MultiLine
      else if str_len raw > max_query_bytes then Err (TooLong (str_len raw) max_query_bytes)
      else Ok raw)"

record find_options =
  case_sensitive :: bool

record find_results =
  found :: "source_range list"
  truncated :: bool

datatype find_scan = Completed find_results | Cancelled

section \<open>Matching\<close>

definition chars_match :: "('r, 'z) text_env_scheme \<Rightarrow> uchar \<Rightarrow> uchar \<Rightarrow> bool \<Rightarrow> bool" where
  "chars_match E h q cs =
     (if cs then h = q else h = q \<or> to_lowercase E h = to_lowercase E q)"

text \<open>\<open>char_indices\<close>, with the bytes counted from \<open>i\<close>.\<close>

fun char_indices :: "nat \<Rightarrow> str \<Rightarrow> (nat \<times> uchar) list" where
  "char_indices i [] = []"
| "char_indices i (c # cs) = (i, c) # char_indices (i + len_utf8 c) cs"

fun match_query :: "('r, 'z) text_env_scheme \<Rightarrow> bool \<Rightarrow> (nat \<times> uchar) list \<Rightarrow> str \<Rightarrow> bool" where
  "match_query E cs hs [] = True"
| "match_query E cs [] (q # qs) = False"
| "match_query E cs (h # hs) (q # qs) = (chars_match E (snd h) q cs \<and> match_query E cs hs qs)"

definition try_match ::
  "('r, 'z) text_env_scheme \<Rightarrow> (nat \<times> uchar) list \<Rightarrow> nat \<Rightarrow> str \<Rightarrow> bool \<Rightarrow> nat option" where
  "try_match E chars start needle cs =
     (if start + length needle > length chars then None
      else if match_query E cs (drop start chars) needle then Some (start + length needle) else None)"

fun floor_candidate :: "('r, 'z) rope_api_scheme \<Rightarrow> 'r rope_buffer \<Rightarrow> nat \<Rightarrow> nat" where
  "floor_candidate R b 0 = 0"
| "floor_candidate R b (Suc candidate) =
     (if is_ok (validate_offset R b (Suc candidate)) then Suc candidate
      else floor_candidate R b candidate)"

definition floor_char_boundary :: "('r, 'z) rope_api_scheme \<Rightarrow> 'r rope_buffer \<Rightarrow> nat \<Rightarrow> nat" where
  "floor_char_boundary R b byte = floor_candidate R b (min byte (len_bytes R b))"

section \<open>The scan\<close>

text \<open>What survives a window: the matches, the poll counters and where to go on.\<close>

record scan_state =
  sc_matches :: "source_range list"
  sc_checks :: nat
  sc_polls :: nat
  sc_resume :: nat

datatype window_outcome = WindowCancelled | WindowTruncated scan_state | WindowDone scan_state

text \<open>The inner loop of one window.  The fuel is the number of chars; every round advances.\<close>

fun scan_window ::
  "('r, 'z) text_env_scheme \<Rightarrow> (nat \<Rightarrow> bool) \<Rightarrow> str \<Rightarrow> bool \<Rightarrow> nat \<Rightarrow> nat \<Rightarrow> nat \<Rightarrow>
   (nat \<times> uchar) list \<Rightarrow> nat \<Rightarrow> nat \<Rightarrow> scan_state \<Rightarrow> (unit, window_outcome) res" where
  "scan_window E cancelled needle cs start wend text_len chars fuel idx st =
     (if idx < length chars \<and> start + fst (chars ! idx) < wend then
        (case fuel of
           0 \<Rightarrow> Hang
         | Suc fuel \<Rightarrow>
             let abs_byte = start + fst (chars ! idx);
                 poll = sc_checks st + 1 \<ge> cancel_check_interval;
                 stop = poll \<and> cancelled (sc_polls st);
                 st = st\<lparr>sc_checks := (if poll then 0 else sc_checks st + 1),
                         sc_polls := (if poll then sc_polls st + 1 else sc_polls st)\<rparr>
             in if stop then Ok WindowCancelled
                else case try_match E chars idx needle cs of
                       None \<Rightarrow> scan_window E cancelled needle cs start wend text_len chars fuel (idx + 1) st
                     | Some match_end \<Rightarrow>
                         let end_rel = (case get chars match_end of Some e \<Rightarrow> fst e | None \<Rightarrow> text_len);
                             end_abs = start + end_rel
                         in if length (sc_matches st) \<ge> max_matches then Ok (WindowTruncated st)
                            else scan_window E cancelled needle cs start wend text_len chars fuel match_end
                                   (st\<lparr>sc_matches := sc_matches st @ [source_range_new abs_byte end_abs],
                                       sc_resume := max (sc_resume st) end_abs\<rparr>))
      else Ok (WindowDone st))"

declare scan_window.simps [simp del]

text \<open>The outer loop.  \<open>buffer.text(..).expect(..)\<close> panics on an error.\<close>

fun scan_windows ::
  "('r, 'z) text_env_scheme \<Rightarrow> 'r rope_buffer \<Rightarrow> (nat \<Rightarrow> bool) \<Rightarrow> str \<Rightarrow> bool \<Rightarrow> nat \<Rightarrow>
   nat \<Rightarrow> scan_state \<Rightarrow> (unit, find_scan) res" where
  "scan_windows E b cancelled needle cs limit 0 st = Hang"
| "scan_windows E b cancelled needle cs limit (Suc fuel) st =
     (if sc_resume st < limit then
        if cancelled (sc_polls st) then Ok Cancelled
        else
          let start = sc_resume st;
              wend = floor_char_boundary E b (min (start + window_core_bytes) limit);
              fetch_end = floor_char_boundary E b (min (wend + window_slack_bytes) limit)
          in case buf_text E b (source_range_new start fetch_end) of
               Ok t \<Rightarrow>
                 res_bind (scan_window E cancelled needle cs start wend (str_len t) (char_indices 0 t)
                             (length t) 0 (st\<lparr>sc_polls := sc_polls st + 1, sc_resume := wend\<rparr>))
                   (\<lambda>out. case out of
                      WindowCancelled \<Rightarrow> Ok Cancelled
                    | WindowTruncated st' \<Rightarrow> Ok (Completed \<lparr>found = sc_matches st', truncated = True\<rparr>)
                    | WindowDone st' \<Rightarrow> scan_windows E b cancelled needle cs limit fuel st')
             | _ \<Rightarrow> Panic
      else Ok (Completed \<lparr>found = sc_matches st, truncated = False\<rparr>))"

definition scan_bounded ::
  "('r, 'z) text_env_scheme \<Rightarrow> 'r rope_buffer \<Rightarrow> str \<Rightarrow> find_options \<Rightarrow> nat \<Rightarrow> nat \<Rightarrow>
   (nat \<Rightarrow> bool) \<Rightarrow> (unit, find_scan) res" where
  "scan_bounded E b needle options scan_start limit cancelled =
     scan_windows E b cancelled needle (case_sensitive options) limit (limit + 1)
       \<lparr>sc_matches = [], sc_checks = 0, sc_polls = 0, sc_resume = scan_start\<rparr>"

definition find_scan_all ::
  "('r, 'z) text_env_scheme \<Rightarrow> 'r rope_buffer \<Rightarrow> str \<Rightarrow> find_options \<Rightarrow> (nat \<Rightarrow> bool) \<Rightarrow>
   (unit, find_scan) res" where
  "find_scan_all E b needle options cancelled =
     scan_bounded E b needle options 0 (len_bytes E b) cancelled"

text \<open>\<open>scan_range\<close>: the buffer's error, or a scan of the range.\<close>

definition find_scan_range ::
  "('r, 'z) text_env_scheme \<Rightarrow> 'r rope_buffer \<Rightarrow> str \<Rightarrow> find_options \<Rightarrow> source_range \<Rightarrow> (nat \<Rightarrow> bool) \<Rightarrow>
   (buffer_error, (unit, find_scan) res) res" where
  "find_scan_range E b needle options rg cancelled =
     res_bind (validate_range E b rg) (\<lambda>_.
     res_bind (validate_offset E b (range_start rg)) (\<lambda>_.
     res_bind (validate_offset E b (range_end rg)) (\<lambda>_.
     Ok (scan_bounded E b needle options (range_start rg) (range_end rg) cancelled))))"

section \<open>Using matches\<close>

definition matches_in_range :: "source_range list \<Rightarrow> source_range \<Rightarrow> source_range list" where
  "matches_in_range ms viewport =
     (let start = partition_point (\<lambda>m. range_end m \<le> range_start viewport) ms;
          stop = start + partition_point (\<lambda>m. range_start m < range_end viewport) (drop start ms)
      in take (stop - start) (drop start ms))"

record navigation_step =
  nav_index :: nat
  nav_wrapped :: bool

fun position :: "('a \<Rightarrow> bool) \<Rightarrow> 'a list \<Rightarrow> nat option" where
  "position p [] = None"
| "position p (x # xs) = (if p x then Some 0 else map_option Suc (position p xs))"

definition initial_index :: "source_range list \<Rightarrow> nat \<Rightarrow> source_range option \<Rightarrow> nat option" where
  "initial_index ms anch seeded =
     (case Option.bind seeded (\<lambda>seed. position (\<lambda>m. m = seed) ms) of
        Some index \<Rightarrow> Some index
      | None \<Rightarrow>
          (case position (\<lambda>m. range_start m \<ge> anch) ms of
             Some index \<Rightarrow> Some index
           | None \<Rightarrow> if ms = [] then None else Some 0))"

definition nav_next :: "nat \<Rightarrow> nat option \<Rightarrow> navigation_step option" where
  "nav_next matches_len current =
     (if matches_len = 0 then None
      else Some (case current of
          Some index \<Rightarrow> if index + 1 < matches_len then \<lparr>nav_index = index + 1, nav_wrapped = False\<rparr>
                        else \<lparr>nav_index = 0, nav_wrapped = True\<rparr>
        | None \<Rightarrow> \<lparr>nav_index = 0, nav_wrapped = False\<rparr>))"

definition nav_previous :: "nat \<Rightarrow> nat option \<Rightarrow> navigation_step option" where
  "nav_previous matches_len current =
     (if matches_len = 0 then None
      else Some (case current of
          Some index \<Rightarrow> if index > 0 then \<lparr>nav_index = index - 1, nav_wrapped = False\<rparr>
                        else \<lparr>nav_index = matches_len - 1, nav_wrapped = True\<rparr>
        | None \<Rightarrow> \<lparr>nav_index = matches_len - 1, nav_wrapped = False\<rparr>))"

end
