(* ===== verification/Editor.thy ===== *)
theory Editor
  imports Editor_Movement
begin

text \<open>
  The editor's entry points (\<open>crates/editor/src/lib.rs\<close>): \<open>set_selection\<close>,
  \<open>move_vertical_to\<close>, \<open>dispatch\<close> with one command per variant of
  \<open>EditorCommand\<close>, \<open>insert_text\<close> and \<open>replace_range_recorded\<close>.
\<close>

datatype editor_command =
    Insert str
  | Backspace
  | Delete
  | MoveLeft bool
  | MoveRight bool
  | MoveUp bool
  | MoveDown bool
  | MoveToStart bool
  | MoveToEnd bool
  | MoveToLineStart bool
  | MoveToLineEnd bool
  | MoveWord bool forward_stop bool
  | MoveParagraph bool forward_stop bool
  | DeleteWord bool forward_stop
  | SelectAll
  | Undo
  | Redo

text \<open>The commands that may continue an undo group.\<close>

fun may_group :: "editor_command \<Rightarrow> bool" where
  "may_group (Insert _) = True"
| "may_group Backspace = True"
| "may_group Delete = True"
| "may_group _ = False"

fun is_vertical :: "editor_command \<Rightarrow> bool" where
  "is_vertical (MoveUp _) = True"
| "is_vertical (MoveDown _) = True"
| "is_vertical _ = False"

definition set_selection ::
  "('r, 'z) rope_api_scheme \<Rightarrow> nat \<Rightarrow> selection \<Rightarrow> ('r editor, buffer_error, unit) step" where
  "set_selection R now sel e =
     (let e = commit_composition now (break_undo_group e) in
      step_bind (query (\<lambda>e. validate_offset R (ed_document e) (sel_anchor sel)) e) (\<lambda>_ e.
      step_bind (query (\<lambda>e. validate_offset R (ed_document e) (sel_active sel)) e) (\<lambda>_ e.
      (Ok (), clear_preferred (e\<lparr>ed_selection := sel\<rparr>)))))"

definition move_vertical_to ::
  "('r, 'z) rope_api_scheme \<Rightarrow> nat \<Rightarrow> nat \<Rightarrow> bool \<Rightarrow> 32 word \<Rightarrow>
   ('r editor, buffer_error, unit) step" where
  "move_vertical_to R now target extending preferred_x e =
     (let e = commit_composition now (break_undo_group e) in
      step_bind (query (\<lambda>e. validate_offset R (ed_document e) target) e) (\<lambda>_ e.
      (Ok (), (move_to target extending e)\<lparr>ed_preferred_column := None, ed_preferred_x := Some preferred_x\<rparr>)))"

text \<open>A movement yields no edit.\<close>

definition no_edit ::
  "(buffer_error, unit) res \<times> 'r editor \<Rightarrow> (buffer_error, edit_summary option) res \<times> 'r editor" where
  "no_edit rs = step_bind rs (\<lambda>_ e. (Ok None, e))"

fun run_command ::
  "('r, 'z) text_env_scheme \<Rightarrow> nat \<Rightarrow> editor_command \<Rightarrow>
   ('r editor, buffer_error, edit_summary option) step" where
  "run_command E now (Insert t) e =
     step_bind (replace_selection_recorded E t KInsert now e) (\<lambda>sm e. (Ok (Some sm), e))"
| "run_command E now Backspace e = backspace E now e"
| "run_command E now Delete e = delete E now e"
| "run_command E now (MoveLeft extending) e = no_edit (move_grapheme E False extending e)"
| "run_command E now (MoveRight extending) e = no_edit (move_grapheme E True extending e)"
| "run_command E now (MoveUp extending) e = no_edit (move_vertical E False extending e)"
| "run_command E now (MoveDown extending) e = no_edit (move_vertical E True extending e)"
| "run_command E now (MoveToStart extending) e = (Ok None, move_to 0 extending e)"
| "run_command E now (MoveToEnd extending) e =
     (Ok None, move_to (len_bytes E (ed_document e)) extending e)"
| "run_command E now (MoveToLineStart extending) e = no_edit (move_to_line_boundary E False extending e)"
| "run_command E now (MoveToLineEnd extending) e = no_edit (move_to_line_boundary E True extending e)"
| "run_command E now (MoveWord forward stop extending) e = no_edit (move_word E forward stop extending e)"
| "run_command E now (MoveParagraph forward stop extending) e =
     no_edit (move_paragraph E forward stop extending e)"
| "run_command E now (DeleteWord forward stop) e = delete_word E forward stop now e"
| "run_command E now SelectAll e =
     (Ok None, e\<lparr>ed_selection := \<lparr>sel_anchor = 0, sel_active = len_bytes E (ed_document e)\<rparr>\<rparr>)"
| "run_command E now Undo e = editor_undo E e"
| "run_command E now Redo e = editor_redo E e"

definition dispatch ::
  "('r, 'z) text_env_scheme \<Rightarrow> (nat \<Rightarrow> nat) \<Rightarrow> editor_command \<Rightarrow>
   ('r editor, buffer_error, edit_summary option) step" where
  "dispatch E now cmd e =
     (let received = now 0;
          e = (if may_group cmd then e else break_undo_group e);
          e = commit_composition (now 1) e;
          e = (if is_vertical cmd then e else clear_preferred e)
      in step_bind (run_command E received cmd e) (\<lambda>edit e.
           (Ok edit, record_model_update received (now 2) Command e)))"

text \<open>\<open>expect\<close> panics on \<open>None\<close>.\<close>

definition insert_text ::
  "('r, 'z) text_env_scheme \<Rightarrow> (nat \<Rightarrow> nat) \<Rightarrow> str \<Rightarrow> ('r editor, buffer_error, edit_summary) step" where
  "insert_text E now t e =
     step_bind (dispatch E now (Insert t) e) (\<lambda>edit e.
       (case edit of Some sm \<Rightarrow> (Ok sm, e) | None \<Rightarrow> (Panic, e)))"

definition replace_range_recorded ::
  "('r, 'z) rope_api_scheme \<Rightarrow> (nat \<Rightarrow> nat) \<Rightarrow> source_range \<Rightarrow> str \<Rightarrow> selection \<Rightarrow>
   ('r editor, buffer_error, edit_summary) step" where
  "replace_range_recorded R now rg replacement selection_after e =
     (let e = commit_composition (now 0) (break_undo_group e) in
      step_bind (query (\<lambda>e. validate_range R (ed_document e) rg) e) (\<lambda>_ e.
      let next_len = len_bytes R (ed_document e) - range_len rg + str_len replacement in
      if sel_anchor selection_after > next_len
      then (Err (OffsetOutOfBounds (sel_anchor selection_after) next_len), e)
      else if sel_active selection_after > next_len
      then (Err (OffsetOutOfBounds (sel_active selection_after) next_len), e)
      else
        let received = now 1; selection_before = ed_selection e in
        step_bind (on_document (buf_edit R rg replacement) e) (\<lambda>sm e.
        let e = clear_preferred (e\<lparr>ed_selection := selection_after\<rparr>);
            e = e\<lparr>ed_history := record_replacement (range_start (range_before sm))
                    (inverse_replacement (edit_inverse sm)) replacement selection_before
                    selection_after KReplace (now 2) (ed_history e)\<rparr>
        in (Ok sm, record_model_update received (now 3) Command e))))"

end
