(* ===== verification/Session.thy ===== *)
theory Session
  imports File_Service Find Editor
begin

text \<open>
  One open document and its persistence rules
  (\<open>crates/session/src/session.rs\<close>, lines 11-1265).  A method on \<open>&mut self\<close>
  returns its value and the new session.  Counters are wrapping 64-bit words; a
  revision is the document's.  The background jobs (\<open>run_external_check\<close>,
  \<open>run_reload_verification\<close>) are functions of a \<open>FileService\<close>; what they return is
  handed to the \<open>finish_\<close> methods by the caller, at any later time.
\<close>

section \<open>Data\<close>

datatype resolution_kind = ResolveOverwrite | DiscardAndReload

record resolution_approval =
  ap_kind :: resolution_kind
  ap_generation :: u64
  ap_revision :: nat
  ap_shown :: "content_fingerprint option"
  ap_serial :: u64

datatype save_intent =
    SaveCurrent
  | SaveTo path
  | SaveOverwrite
  | SaveCreateNew path
  | SaveConfirmed resolution_approval

record save_ticket =
  st_generation :: u64
  st_sequence :: u64
  st_revision :: nat

record 'r save_job =
  job_path :: path
  job_document :: "'r rope_buffer"
  job_guard :: overwrite_guard
  job_ticket :: save_ticket

datatype 'r save_decision = DecideWrite "'r save_job" | Queued | NeedsPath | ApprovalExpired

datatype save_outcome = Saved | SavedStale | SaveConflict | SaveFailed os_error | Superseded

record autosave_ticket =
  at_generation :: u64
  at_autosave_generation :: u64
  at_revision :: nat

datatype file_event =
    RenamedEvent path path
  | DeletedEvent path
  | ChangedOnDisk path "file_stamp option"

datatype file_event_outcome =
    EventIgnored
  | EventRenamed
  | EventMissing bool
  | EventExternalEdit
  | EventConflict

datatype close_verdict = Close | RejectUnsaved

record external_check_ticket =
  ct_generation :: u64
  ct_sequence :: u64
  ct_revision :: nat
  ct_saves :: u64
  ct_path :: path

record 'r external_check_request =
  cr_ticket :: external_check_ticket
  cr_local :: "'r rope_buffer option"

record 'r external_check_result =
  res_disk :: "'r disk_version"
  res_local :: "content_fingerprint option"

datatype 'r external_check_start = RunCheck "'r external_check_request" | Coalesced | NotTracked

datatype external_check_outcome =
    CheckStale
  | CheckUnchanged
  | CheckReloaded
  | CheckChanged bool
  | CheckMissing bool
  | CheckUnverifiable str

datatype external_status_kind = StatusInSync | StatusChanged | StatusMissing | StatusUnverifiable

record 'r observed_external =
  oe_fingerprint :: content_fingerprint
  oe_stamp :: "file_stamp option"
  oe_document :: "'r rope_buffer"

datatype 'r external_state =
    InSync
  | ExtChanged "'r observed_external"
  | ExtMissing
  | ExtUnverifiable str

datatype reload_outcome = ReloadDone | StaleApproval | ReloadBusy

record reload_verify_request =
  rv_approval :: resolution_approval
  rv_generation :: u64
  rv_revision :: nat
  rv_sequence :: u64
  rv_path :: path

datatype reload_verify_outcome =
    VerifyReloaded
  | VerifyStale
  | VerifyBusy
  | VerifyDiskChanged
  | VerifyMissing
  | VerifyUnverifiable str

definition run_external_check ::
  "('r, 'z) rope_api_scheme \<Rightarrow> 'r file_service \<Rightarrow> 'r external_check_request \<Rightarrow> nat \<Rightarrow>
   'r external_check_result \<times> nat" where
  "run_external_check R sv request t =
     (let (disk, t) = observe_disk R sv (ct_path (cr_ticket request)) t
      in (\<lparr>res_disk = disk, res_local = map_option (fingerprint_of_document R) (cr_local request)\<rparr>, t))"

definition run_reload_verification ::
  "('r, 'z) rope_api_scheme \<Rightarrow> 'r file_service \<Rightarrow> reload_verify_request \<Rightarrow> nat \<Rightarrow> 'r disk_version \<times> nat" where
  "run_reload_verification R sv request t = observe_disk R sv (rv_path request) t"

section \<open>State\<close>

record 'r document_session =
  ds_id :: u64
  ds_generation :: u64
  ds_editor :: "'r editor"
  ds_file :: file_state
  ds_saved_revision :: nat
  ds_autosave_generation :: u64
  ds_in_flight :: "save_ticket option"
  ds_in_flight_target :: "path option"
  ds_save_sequence :: u64
  ds_pending_save :: "save_intent option"
  ds_view :: "32 word"
  ds_auto_title :: "str option"
  ds_external :: "'r external_state"
  ds_check_sequence :: u64
  ds_saves_completed :: u64
  ds_check_in_flight :: "u64 option"
  ds_recheck_pending :: bool
  ds_approval_serial :: u64
  ds_live_approval :: "u64 option"
  ds_verify_sequence :: u64
  ds_verify_in_flight :: "u64 option"

definition session_from_parts :: "u64 \<Rightarrow> 'r editor \<Rightarrow> file_state \<Rightarrow> 'r document_session" where
  "session_from_parts i e f =
     \<lparr>ds_id = i, ds_generation = 0, ds_editor = e, ds_file = f,
      ds_saved_revision = buf_revision (ed_document e), ds_autosave_generation = 0,
      ds_in_flight = None, ds_in_flight_target = None, ds_save_sequence = 0, ds_pending_save = None,
      ds_view = 0, ds_auto_title = None, ds_external = InSync, ds_check_sequence = 0,
      ds_saves_completed = 0, ds_check_in_flight = None, ds_recheck_pending = False,
      ds_approval_serial = 0, ds_live_approval = None, ds_verify_sequence = 0,
      ds_verify_in_flight = None\<rparr>"

definition session_untitled :: "('r, 'z) rope_api_scheme \<Rightarrow> u64 \<Rightarrow> str \<Rightarrow> str \<Rightarrow> 'r document_session" where
  "session_untitled R i text label = session_from_parts i (editor_new R text) (file_untitled label)"

definition loaded_state :: "'r loaded_file \<Rightarrow> file_state" where
  "loaded_state loaded =
     set_baseline (lf_fingerprint loaded) (file_tracked (lf_identity loaded) (lf_stamp loaded))"

definition session_from_loaded :: "('r, 'z) rope_api_scheme \<Rightarrow> u64 \<Rightarrow> 'r loaded_file \<Rightarrow> 'r document_session" where
  "session_from_loaded R i loaded =
     session_from_parts i (editor_from_document R (lf_document loaded)) (loaded_state loaded)"

definition session_revision :: "'r document_session \<Rightarrow> nat" where
  "session_revision s = buf_revision (ed_document (ds_editor s))"

definition is_dirty :: "'r document_session \<Rightarrow> bool" where
  "is_dirty s \<longleftrightarrow> session_revision s \<noteq> ds_saved_revision s"

definition set_view_state :: "32 word \<Rightarrow> 'r document_session \<Rightarrow> 'r document_session" where
  "set_view_state v s = s\<lparr>ds_view := v\<rparr>"

definition reset_external_tracking :: "'r document_session \<Rightarrow> 'r document_session" where
  "reset_external_tracking s =
     s\<lparr>ds_external := InSync, ds_check_in_flight := None, ds_recheck_pending := False,
       ds_live_approval := None\<rparr>"

definition adopt ::
  "('r, 'z) rope_api_scheme \<Rightarrow> 'r loaded_file \<Rightarrow> 'r document_session \<Rightarrow> 'r document_session" where
  "adopt R loaded s =
     (let e = editor_from_document R (lf_document loaded) in
      reset_external_tracking
        (s\<lparr>ds_editor := e, ds_file := loaded_state loaded,
           ds_saved_revision := buf_revision (ed_document e), ds_generation := ds_generation s + 1,
           ds_autosave_generation := 0, ds_in_flight := None, ds_in_flight_target := None,
           ds_pending_save := None, ds_view := 0, ds_auto_title := None\<rparr>))"

definition note_auto_named :: "str \<Rightarrow> 'r document_session \<Rightarrow> 'r document_session" where
  "note_auto_named title s = s\<lparr>ds_auto_title := Some title\<rparr>"

definition stop_auto_naming :: "'r document_session \<Rightarrow> 'r document_session" where
  "stop_auto_naming s = s\<lparr>ds_auto_title := None\<rparr>"

section \<open>Autosave\<close>

definition note_edit :: "'r document_session \<Rightarrow> 'r document_session" where
  "note_edit s = s\<lparr>ds_autosave_generation := ds_autosave_generation s + 1\<rparr>"

definition autosave_ticket_for :: "bool \<Rightarrow> 'r document_session \<Rightarrow> autosave_ticket option" where
  "autosave_ticket_for enabled s =
     (if enabled \<and> file_path (ds_file s) \<noteq> None \<and> is_dirty s
      then Some \<lparr>at_generation = ds_generation s, at_autosave_generation = ds_autosave_generation s,
                 at_revision = session_revision s\<rparr>
      else None)"

definition autosave_is_current :: "autosave_ticket \<Rightarrow> bool \<Rightarrow> 'r document_session \<Rightarrow> bool" where
  "autosave_is_current ticket enabled s \<longleftrightarrow>
     enabled \<and> file_path (ds_file s) \<noteq> None \<and> ds_generation s = at_generation ticket \<and>
     ds_autosave_generation s = at_autosave_generation ticket \<and> session_revision s = at_revision ticket"

section \<open>Approvals and the external state\<close>

definition external_status :: "'r document_session \<Rightarrow> external_status_kind" where
  "external_status s =
     (case ds_external s of
        ExtChanged _ \<Rightarrow> StatusChanged
      | ExtMissing \<Rightarrow> StatusMissing
      | ExtUnverifiable _ \<Rightarrow> StatusUnverifiable
      | InSync \<Rightarrow> if fs_presence (ds_file s) = FileMissing then StatusMissing else StatusInSync)"

definition observed_document :: "'r document_session \<Rightarrow> 'r rope_buffer option" where
  "observed_document s = (case ds_external s of ExtChanged o' \<Rightarrow> Some (oe_document o') | _ \<Rightarrow> None)"

definition observed_fingerprint :: "'r document_session \<Rightarrow> content_fingerprint option" where
  "observed_fingerprint s = (case ds_external s of ExtChanged o' \<Rightarrow> Some (oe_fingerprint o') | _ \<Rightarrow> None)"

definition is_changed :: "'r external_state \<Rightarrow> bool" where
  "is_changed x = (case x of ExtChanged _ \<Rightarrow> True | _ \<Rightarrow> False)"

definition needs_external_recheck :: "'r document_session \<Rightarrow> bool" where
  "needs_external_recheck s \<longleftrightarrow> is_changed (ds_external s) \<and> \<not> is_dirty s"

definition set_external :: "'r external_state \<Rightarrow> 'r document_session \<Rightarrow> 'r document_session" where
  "set_external state s =
     (let same_version = (case (ds_external s, state) of
            (ExtChanged old, ExtChanged new) \<Rightarrow> oe_fingerprint old = oe_fingerprint new
          | (ExtMissing, ExtMissing) \<Rightarrow> True
          | (InSync, InSync) \<Rightarrow> True
          | _ \<Rightarrow> False)
      in (if same_version then s else s\<lparr>ds_live_approval := None\<rparr>)\<lparr>ds_external := state\<rparr>)"

definition current_external_fingerprint :: "'r document_session \<Rightarrow> content_fingerprint option option" where
  "current_external_fingerprint s =
     (case ds_external s of
        ExtChanged o' \<Rightarrow> Some (Some (oe_fingerprint o'))
      | ExtMissing \<Rightarrow> Some None
      | InSync \<Rightarrow> if fs_presence (ds_file s) = FileMissing then Some None else None
      | ExtUnverifiable _ \<Rightarrow> None)"

definition approve_resolution ::
  "resolution_kind \<Rightarrow> content_fingerprint option \<Rightarrow> 'r document_session \<Rightarrow>
   resolution_approval option \<times> 'r document_session" where
  "approve_resolution kind shown s =
     (case current_external_fingerprint s of
        None \<Rightarrow> (None, s)
      | Some known \<Rightarrow>
          if known \<noteq> shown then (None, s)
          else
            let serial = ds_approval_serial s + 1 in
            (Some \<lparr>ap_kind = kind, ap_generation = ds_generation s, ap_revision = session_revision s,
                   ap_shown = shown, ap_serial = serial\<rparr>,
             s\<lparr>ds_approval_serial := serial, ds_live_approval := Some serial\<rparr>))"

definition approval_is_current :: "resolution_approval \<Rightarrow> resolution_kind \<Rightarrow> 'r document_session \<Rightarrow> bool" where
  "approval_is_current a kind s \<longleftrightarrow>
     ap_kind a = kind \<and> ds_live_approval s = Some (ap_serial a) \<and> ap_generation a = ds_generation s \<and>
     ap_revision a = session_revision s \<and> current_external_fingerprint s = Some (ap_shown a)"

section \<open>Saving\<close>

definition save_in_flight :: "'r document_session \<Rightarrow> bool" where
  "save_in_flight s \<longleftrightarrow> ds_in_flight s \<noteq> None"

definition should_defer_h1_create :: "'r document_session \<Rightarrow> bool" where
  "should_defer_h1_create s \<longleftrightarrow> file_path (ds_file s) \<noteq> None \<or> save_in_flight s"

definition start_write ::
  "path \<Rightarrow> overwrite_guard \<Rightarrow> 'r document_session \<Rightarrow> 'r save_job \<times> 'r document_session" where
  "start_write p guard s =
     (let sequence = ds_save_sequence s + 1;
          ticket = \<lparr>st_generation = ds_generation s, st_sequence = sequence, st_revision = session_revision s\<rparr>
      in (\<lparr>job_path = p, job_document = ed_document (ds_editor s), job_guard = guard, job_ticket = ticket\<rparr>,
          s\<lparr>ds_save_sequence := sequence, ds_in_flight := Some ticket, ds_in_flight_target := Some p\<rparr>))"

definition content_guard :: "'r document_session \<Rightarrow> overwrite_guard" where
  "content_guard s = ExpectContent (fs_stamp (ds_file s)) (fs_baseline (ds_file s))"

definition request_confirmed_overwrite ::
  "resolution_approval \<Rightarrow> 'r document_session \<Rightarrow> 'r save_job option \<times> 'r document_session" where
  "request_confirmed_overwrite a s =
     (if ds_in_flight s \<noteq> None then (None, s)
      else if \<not> approval_is_current a ResolveOverwrite s then (None, s)
      else case file_path (ds_file s) of
        None \<Rightarrow> (None, s)
      | Some p \<Rightarrow>
          let guard = (case ds_external s of
                ExtChanged o' \<Rightarrow> ExpectContent (oe_stamp o') (Some (oe_fingerprint o'))
              | _ \<Rightarrow> ExpectContent None None);
              (job, s) = start_write p guard (s\<lparr>ds_live_approval := None\<rparr>)
          in (Some job, s))"

text \<open>The target and the guard of an intent; \<open>None\<close> is the early return \<open>NeedsPath\<close>.\<close>

fun save_target ::
  "disk_view \<Rightarrow> 'r document_session \<Rightarrow> save_intent \<Rightarrow> (path \<times> overwrite_guard) option" where
  "save_target fs s SaveCurrent = map_option (\<lambda>p. (p, content_guard s)) (file_path (ds_file s))"
| "save_target fs s SaveOverwrite = map_option (\<lambda>p. (p, Force)) (file_path (ds_file s))"
| "save_target fs s (SaveTo p) =
     Some (p, if (case fs_identity (ds_file s) of Some i \<Rightarrow> is_same_file_on_disk fs i p | None \<Rightarrow> False)
              then content_guard s else Force)"
| "save_target fs s (SaveCreateNew p) = Some (p, ExpectStamp None)"
| "save_target fs s (SaveConfirmed a) = None"

definition request_save ::
  "disk_view \<Rightarrow> save_intent \<Rightarrow> 'r document_session \<Rightarrow> 'r save_decision \<times> 'r document_session" where
  "request_save fs intent s =
     (case intent of
        SaveConfirmed a \<Rightarrow>
          if ds_in_flight s \<noteq> None then (Queued, s\<lparr>ds_pending_save := Some (SaveConfirmed a)\<rparr>)
          else (case request_confirmed_overwrite a s of
                  (Some job, s) \<Rightarrow> (DecideWrite job, s)
                | (None, s) \<Rightarrow> (ApprovalExpired, s))
      | _ \<Rightarrow>
          (case save_target fs s intent of
             None \<Rightarrow> (NeedsPath, s)
           | Some (p, guard) \<Rightarrow>
               if ds_in_flight s \<noteq> None then (Queued, s\<lparr>ds_pending_save := Some intent\<rparr>)
               else let (job, s) = start_write p guard s in (DecideWrite job, s)))"

definition finish_save ::
  "save_ticket \<Rightarrow> save_failure + saved_file \<Rightarrow> 'r document_session \<Rightarrow>
   save_outcome \<times> 'r document_session" where
  "finish_save ticket result s =
     (if ds_in_flight s \<noteq> Some ticket then (Superseded, s)
      else
        let s = s\<lparr>ds_in_flight := None, ds_in_flight_target := None\<rparr> in
        case result of
          Inr saved \<Rightarrow>
            (let s = s\<lparr>ds_file := set_baseline (sf_fingerprint saved)
                         (set_identity (sf_identity saved) (sf_stamp saved) (ds_file s)),
                       ds_saves_completed := ds_saves_completed s + 1\<rparr>;
                 s = (if external_status s \<noteq> StatusInSync
                      then s\<lparr>ds_external := InSync, ds_live_approval := None\<rparr> else s)
             in if session_revision s = st_revision ticket
                then (Saved, s\<lparr>ds_saved_revision := st_revision ticket\<rparr>)
                else (SavedStale, s))
        | Inl ExternalChangeFailure \<Rightarrow> (SaveConflict, s)
        | Inl (SaveIo e) \<Rightarrow> (SaveFailed e, s))"

definition take_pending_save :: "'r document_session \<Rightarrow> save_intent option \<times> 'r document_session" where
  "take_pending_save s = (ds_pending_save s, s\<lparr>ds_pending_save := None\<rparr>)"

definition begin_rename :: "'r document_session \<Rightarrow> save_ticket option \<times> 'r document_session" where
  "begin_rename s =
     (if ds_in_flight s \<noteq> None then (None, s)
      else
        let sequence = ds_save_sequence s + 1;
            ticket = \<lparr>st_generation = ds_generation s, st_sequence = sequence, st_revision = session_revision s\<rparr>
        in (Some ticket, s\<lparr>ds_save_sequence := sequence, ds_in_flight := Some ticket\<rparr>))"

definition finish_rename :: "save_ticket \<Rightarrow> 'r document_session \<Rightarrow> 'r document_session" where
  "finish_rename ticket s =
     (if ds_in_flight s = Some ticket then s\<lparr>ds_in_flight := None, ds_in_flight_target := None\<rparr> else s)"

section \<open>File events\<close>

fun event_path :: "file_event \<Rightarrow> path" where
  "event_path (RenamedEvent from to) = from"
| "event_path (DeletedEvent p) = p"
| "event_path (ChangedOnDisk p stamp) = p"

definition missing_file :: "'r document_session \<Rightarrow> file_event_outcome \<times> 'r document_session" where
  "missing_file s = (EventMissing (is_dirty s), s\<lparr>ds_file := mark_missing (ds_file s)\<rparr>)"

definition move_file :: "path \<Rightarrow> file_identity \<Rightarrow> 'r document_session \<Rightarrow> file_event_outcome \<times> 'r document_session" where
  "move_file to i s =
     (EventRenamed, s\<lparr>ds_file := set_identity (moved_to i to) (fs_stamp (ds_file s)) (ds_file s)\<rparr>)"

definition apply_file_event ::
  "file_event \<Rightarrow> 'r document_session \<Rightarrow> file_event_outcome \<times> 'r document_session" where
  "apply_file_event event s =
     (case fs_identity (ds_file s) of
        None \<Rightarrow> (EventIgnored, s)
      | Some i \<Rightarrow>
          if \<not> matches_path i (event_path event) then (EventIgnored, s)
          else case event of
            RenamedEvent from to \<Rightarrow> move_file to i s
          | DeletedEvent p \<Rightarrow> missing_file s
          | ChangedOnDisk p stamp \<Rightarrow>
              (case file_compare (ds_file s) stamp of
                 Unchanged \<Rightarrow> (EventIgnored, s)
               | Deleted \<Rightarrow> missing_file s
               | _ \<Rightarrow> if is_dirty s then (EventConflict, s) else (EventExternalEdit, s)))"

definition is_under_folder :: "path \<Rightarrow> 'r document_session \<Rightarrow> bool" where
  "is_under_folder folder s =
     (case fs_identity (ds_file s) of Some i \<Rightarrow> path_starts_with (fi_path i) folder | None \<Rightarrow> False)"

definition writes_under_folder :: "path \<Rightarrow> 'r document_session \<Rightarrow> bool" where
  "writes_under_folder folder s =
     (if (case ds_in_flight_target s of Some target \<Rightarrow> path_starts_with target folder | None \<Rightarrow> False) then True
      else case ds_pending_save s of
        Some (SaveTo p) \<Rightarrow> path_starts_with p folder
      | Some (SaveCreateNew p) \<Rightarrow> path_starts_with p folder
      | Some _ \<Rightarrow> is_under_folder folder s
      | None \<Rightarrow> False)"

definition apply_folder_delete ::
  "path \<Rightarrow> 'r document_session \<Rightarrow> file_event_outcome \<times> 'r document_session" where
  "apply_folder_delete folder s =
     (if \<not> is_under_folder folder s then (EventIgnored, s) else missing_file s)"

definition apply_folder_rename ::
  "path \<Rightarrow> path \<Rightarrow> 'r document_session \<Rightarrow> file_event_outcome \<times> 'r document_session" where
  "apply_folder_rename from to s =
     (case fs_identity (ds_file s) of
        None \<Rightarrow> (EventIgnored, s)
      | Some i \<Rightarrow>
          (case path_strip_prefix (fi_path i) from of
             None \<Rightarrow> (EventIgnored, s)
           | Some relative \<Rightarrow> move_file (if relative = [] then to else path_join to relative) i s))"

section \<open>External checks\<close>

definition take_recheck_request :: "'r document_session \<Rightarrow> bool \<times> 'r document_session" where
  "take_recheck_request s = (ds_recheck_pending s, s\<lparr>ds_recheck_pending := False\<rparr>)"

definition begin_external_check ::
  "'r document_session \<Rightarrow> 'r external_check_start \<times> 'r document_session" where
  "begin_external_check s =
     (case file_path (ds_file s) of
        None \<Rightarrow> (NotTracked, s)
      | Some p \<Rightarrow>
          if ds_check_in_flight s \<noteq> None then (Coalesced, s\<lparr>ds_recheck_pending := True\<rparr>)
          else
            let sequence = ds_check_sequence s + 1;
                local = (if fs_baseline (ds_file s) = None \<and> \<not> is_dirty s
                         then Some (ed_document (ds_editor s)) else None)
            in (RunCheck \<lparr>cr_ticket = \<lparr>ct_generation = ds_generation s, ct_sequence = sequence,
                            ct_revision = session_revision s, ct_saves = ds_saves_completed s, ct_path = p\<rparr>,
                          cr_local = local\<rparr>,
                s\<lparr>ds_check_sequence := sequence, ds_check_in_flight := Some sequence\<rparr>))"

definition abandon_external_check :: "external_check_ticket \<Rightarrow> 'r document_session \<Rightarrow> 'r document_session" where
  "abandon_external_check ticket s =
     (if ds_check_in_flight s = Some (ct_sequence ticket) \<and> ds_generation s = ct_generation ticket
      then s\<lparr>ds_check_in_flight := None\<rparr> else s)"

text \<open>The same loop as \<open>floor_char_boundary\<close>.\<close>

definition nearest_valid_offset :: "('r, 'z) rope_api_scheme \<Rightarrow> 'r editor \<Rightarrow> nat \<Rightarrow> nat" where
  "nearest_valid_offset R e off = floor_candidate R (ed_document e) (min off (len_bytes R (ed_document e)))"

definition replace_with_disk ::
  "('r, 'z) rope_api_scheme \<Rightarrow> nat \<Rightarrow> 'r observed_file \<Rightarrow> 'r document_session \<Rightarrow> 'r document_session" where
  "replace_with_disk R now observed s =
     (let before = ed_selection (ds_editor s);
          e = editor_from_document R (of_document observed);
          e = snd (set_selection R now
                \<lparr>sel_anchor = nearest_valid_offset R e (sel_anchor before),
                 sel_active = nearest_valid_offset R e (sel_active before)\<rparr> e)
      in reset_external_tracking
           (s\<lparr>ds_editor := e,
              ds_file := set_baseline (Some (of_fingerprint observed)) (set_stamp (of_stamp observed) (ds_file s)),
              ds_saved_revision := buf_revision (ed_document e), ds_generation := ds_generation s + 1,
              ds_autosave_generation := ds_autosave_generation s + 1, ds_pending_save := None\<rparr>))"

definition remember_external :: "'r observed_file \<Rightarrow> 'r document_session \<Rightarrow> 'r document_session" where
  "remember_external observed s =
     set_external (ExtChanged \<lparr>oe_fingerprint = of_fingerprint observed, oe_stamp = of_stamp observed,
                               oe_document = of_document observed\<rparr>)
       (s\<lparr>ds_file := mark_present (ds_file s)\<rparr>)"

text \<open>
  The file side after a consistent read: the path may resolve elsewhere, and the
  clean document the check started from stands for a missing baseline.
\<close>

definition observed_file_state ::
  "'r observed_file \<Rightarrow> content_fingerprint option \<Rightarrow> file_state \<Rightarrow> file_state" where
  "observed_file_state observed local f =
     (let f = (case of_canonical observed of Some canonical \<Rightarrow> refresh_canonical canonical f | None \<Rightarrow> f)
      in if fs_baseline f = None \<and> local \<noteq> None then set_baseline local f else f)"

text \<open>Whether the version read is the one the session has.\<close>

definition same_version :: "'r observed_file \<Rightarrow> file_state \<Rightarrow> bool" where
  "same_version observed f =
     (case fs_baseline f of
        Some baseline \<Rightarrow> baseline = of_fingerprint observed
      | None \<Rightarrow> of_stamp observed \<noteq> None \<and> of_stamp observed = fs_stamp f)"

definition apply_observed ::
  "('r, 'z) rope_api_scheme \<Rightarrow> nat \<Rightarrow> external_check_ticket \<Rightarrow> 'r observed_file \<Rightarrow>
   content_fingerprint option \<Rightarrow> 'r document_session \<Rightarrow> external_check_outcome \<times> 'r document_session" where
  "apply_observed R now ticket observed local s =
     (let s = s\<lparr>ds_file := observed_file_state observed local (ds_file s)\<rparr>
      in if same_version observed (ds_file s) then
           (CheckUnchanged,
            set_external InSync
              (s\<lparr>ds_file := set_baseline (Some (of_fingerprint observed)) (set_stamp (of_stamp observed) (ds_file s))\<rparr>))
         else if \<not> is_dirty s \<and> session_revision s = ct_revision ticket \<and> ed_ime (ds_editor s) = None \<and>
                 ds_in_flight s = None
         then (CheckReloaded, replace_with_disk R now observed s)
         else (CheckChanged (is_dirty s), remember_external observed s))"

text \<open>The file is gone: the check's and the reload's common branch.\<close>

definition external_missing :: "'r document_session \<Rightarrow> 'r document_session" where
  "external_missing s = (let s = set_external ExtMissing s in s\<lparr>ds_file := mark_missing (ds_file s)\<rparr>)"

definition finish_external_check ::
  "('r, 'z) rope_api_scheme \<Rightarrow> nat \<Rightarrow> external_check_ticket \<Rightarrow> 'r external_check_result \<Rightarrow>
   'r document_session \<Rightarrow> external_check_outcome \<times> 'r document_session" where
  "finish_external_check R now ticket result s =
     (if ds_check_in_flight s \<noteq> Some (ct_sequence ticket) then (CheckStale, s)
      else
        let s = s\<lparr>ds_check_in_flight := None\<rparr> in
        if ds_generation s \<noteq> ct_generation ticket \<or> file_path (ds_file s) \<noteq> Some (ct_path ticket)
        then (CheckStale, s)
        else if ds_saves_completed s \<noteq> ct_saves ticket then (CheckStale, s\<lparr>ds_recheck_pending := True\<rparr>)
        else case res_disk result of
          DiskMissing \<Rightarrow> (CheckMissing (is_dirty s), external_missing s)
        | DiskUnreadable reason \<Rightarrow> (CheckUnverifiable reason, set_external (ExtUnverifiable reason) s)
        | DiskPresent observed \<Rightarrow> apply_observed R now ticket observed (res_local result) s)"

section \<open>Confirmed reloads\<close>

definition apply_confirmed_reload ::
  "('r, 'z) rope_api_scheme \<Rightarrow> nat \<Rightarrow> resolution_approval \<Rightarrow> 'r document_session \<Rightarrow>
   reload_outcome \<times> 'r document_session" where
  "apply_confirmed_reload R now a s =
     (if ed_ime (ds_editor s) \<noteq> None \<or> ds_in_flight s \<noteq> None then (ReloadBusy, s)
      else if \<not> approval_is_current a DiscardAndReload s then (StaleApproval, s)
      else case ds_external s of
        ExtChanged o' \<Rightarrow>
          (ReloadDone, replace_with_disk R now
             \<lparr>of_document = oe_document o', of_fingerprint = oe_fingerprint o', of_stamp = oe_stamp o',
              of_canonical = None\<rparr> (s\<lparr>ds_external := InSync\<rparr>))
      | _ \<Rightarrow> (StaleApproval, s))"

definition begin_confirmed_reload ::
  "resolution_approval \<Rightarrow> 'r document_session \<Rightarrow>
   (reload_outcome + reload_verify_request) \<times> 'r document_session" where
  "begin_confirmed_reload a s =
     (if ed_ime (ds_editor s) \<noteq> None \<or> ds_in_flight s \<noteq> None then (Inl ReloadBusy, s)
      else if \<not> approval_is_current a DiscardAndReload s \<or> \<not> is_changed (ds_external s)
      then (Inl StaleApproval, s)
      else case file_path (ds_file s) of
        None \<Rightarrow> (Inl StaleApproval, s)
      | Some p \<Rightarrow>
          let sequence = ds_verify_sequence s + 1 in
          (Inr \<lparr>rv_approval = a, rv_generation = ds_generation s, rv_revision = session_revision s,
               rv_sequence = sequence, rv_path = p\<rparr>,
           s\<lparr>ds_verify_sequence := sequence, ds_verify_in_flight := Some sequence\<rparr>))"

definition finish_confirmed_reload ::
  "('r, 'z) rope_api_scheme \<Rightarrow> nat \<Rightarrow> reload_verify_request \<Rightarrow> 'r disk_version \<Rightarrow>
   'r document_session \<Rightarrow> reload_verify_outcome \<times> 'r document_session" where
  "finish_confirmed_reload R now request disk s =
     (if ds_verify_in_flight s \<noteq> Some (rv_sequence request) \<or> ds_generation s \<noteq> rv_generation request \<or>
         file_path (ds_file s) \<noteq> Some (rv_path request) \<or> session_revision s \<noteq> rv_revision request
      then (VerifyStale, s)
      else
        let s = s\<lparr>ds_verify_in_flight := None\<rparr> in
        if ed_ime (ds_editor s) \<noteq> None \<or> ds_in_flight s \<noteq> None then (VerifyBusy, s)
        else case disk of
          DiskPresent observed \<Rightarrow>
            if approval_is_current (rv_approval request) DiscardAndReload s \<and>
               ap_shown (rv_approval request) = Some (of_fingerprint observed)
            then (VerifyReloaded, replace_with_disk R now observed s)
            else (VerifyDiskChanged, remember_external observed s)
        | DiskMissing \<Rightarrow> (VerifyMissing, external_missing s)
        | DiskUnreadable reason \<Rightarrow> (VerifyUnverifiable reason, set_external (ExtUnverifiable reason) s))"

definition close_decision :: "'r document_session \<Rightarrow> close_verdict" where
  "close_decision s = (if is_dirty s then RejectUnsaved else Close)"

end
