(* ===== verification/Session_Set.thy ===== *)
theory Session_Set
  imports Session
begin

text \<open>
  Every open document and which one is active (\<open>crates/session/src/session.rs\<close>,
  lines 1267-1485).
\<close>

datatype open_policy = ReuseActive | NewSession

datatype open_verdict = LoadInto "u64 option" | ActivateOpen u64 | RejectOpen

record 'r session_set =
  ss_sessions :: "'r document_session list"
  ss_active :: u64
  ss_next_id :: u64

definition with_untitled :: "('r, 'z) rope_api_scheme \<Rightarrow> str \<Rightarrow> str \<Rightarrow> 'r session_set" where
  "with_untitled R text label =
     \<lparr>ss_sessions = [session_untitled R 0 text label], ss_active = 0, ss_next_id = 1\<rparr>"

definition with_loaded :: "('r, 'z) rope_api_scheme \<Rightarrow> 'r loaded_file \<Rightarrow> 'r session_set" where
  "with_loaded R loaded =
     \<lparr>ss_sessions = [session_from_loaded R 0 loaded], ss_active = 0, ss_next_id = 1\<rparr>"

definition get_session :: "u64 \<Rightarrow> 'r session_set \<Rightarrow> 'r document_session option" where
  "get_session i ss = List.find (\<lambda>s. ds_id s = i) (ss_sessions ss)"

text \<open>\<open>active()\<close>: \<open>expect\<close> panics when the active session is gone.\<close>

definition active_session :: "'r session_set \<Rightarrow> (unit, 'r document_session) res" where
  "active_session ss = (case get_session (ss_active ss) ss of Some s \<Rightarrow> Ok s | None \<Rightarrow> Panic)"

text \<open>What a caller does through \<open>get_mut\<close>: the first session with the id is changed.\<close>

fun update_first :: "('a \<Rightarrow> bool) \<Rightarrow> ('a \<Rightarrow> 'a) \<Rightarrow> 'a list \<Rightarrow> 'a list" where
  "update_first p f [] = []"
| "update_first p f (x # xs) = (if p x then f x # xs else x # update_first p f xs)"

definition modify_session ::
  "u64 \<Rightarrow> ('r document_session \<Rightarrow> 'r document_session) \<Rightarrow> 'r session_set \<Rightarrow> 'r session_set" where
  "modify_session i f ss = ss\<lparr>ss_sessions := update_first (\<lambda>s. ds_id s = i) f (ss_sessions ss)\<rparr>"

definition activate :: "u64 \<Rightarrow> 'r session_set \<Rightarrow> bool \<times> 'r session_set" where
  "activate i ss =
     (if get_session i ss \<noteq> None then (True, ss\<lparr>ss_active := i\<rparr>) else (False, ss))"

definition session_for_path :: "path \<Rightarrow> 'r session_set \<Rightarrow> u64 option" where
  "session_for_path p ss =
     map_option ds_id
       (List.find (\<lambda>s. case fs_identity (ds_file s) of Some i \<Rightarrow> matches_path i p | None \<Rightarrow> False)
         (ss_sessions ss))"

definition open_decision :: "path \<Rightarrow> open_policy \<Rightarrow> 'r session_set \<Rightarrow> (unit, open_verdict) res" where
  "open_decision p policy ss =
     (case session_for_path p ss of
        Some i \<Rightarrow> Ok (ActivateOpen i)
      | None \<Rightarrow>
          (case policy of
             NewSession \<Rightarrow> Ok (LoadInto None)
           | ReuseActive \<Rightarrow>
               res_bind (active_session ss) (\<lambda>s.
                 Ok (if is_dirty s then RejectOpen else LoadInto (Some (ss_active ss))))))"

definition push_session :: "(u64 \<Rightarrow> 'r document_session) \<Rightarrow> 'r session_set \<Rightarrow> u64 \<times> 'r session_set" where
  "push_session build ss =
     (let i = ss_next_id ss
      in (i, ss\<lparr>ss_next_id := i + 1, ss_sessions := ss_sessions ss @ [build i], ss_active := i\<rparr>))"

definition apply_open ::
  "('r, 'z) rope_api_scheme \<Rightarrow> u64 option \<Rightarrow> 'r loaded_file \<Rightarrow> 'r session_set \<Rightarrow> u64 \<times> 'r session_set" where
  "apply_open R into loaded ss =
     (case Option.bind into (\<lambda>i. get_session i ss) of
        Some s \<Rightarrow> (ds_id s, (modify_session (ds_id s) (adopt R loaded) ss)\<lparr>ss_active := ds_id s\<rparr>)
      | None \<Rightarrow> push_session (\<lambda>i. session_from_loaded R i loaded) ss)"

definition open_untitled ::
  "('r, 'z) rope_api_scheme \<Rightarrow> str \<Rightarrow> str \<Rightarrow> 'r session_set \<Rightarrow> u64 \<times> 'r session_set" where
  "open_untitled R text label ss = push_session (\<lambda>i. session_untitled R i text label) ss"

text \<open>\<open>sessions[0]\<close> panics on an empty list.\<close>

definition close_session ::
  "('r, 'z) rope_api_scheme \<Rightarrow> u64 \<Rightarrow> str \<Rightarrow> ('r session_set, unit, close_verdict) step" where
  "close_session R i label ss =
     (case get_session i ss of
        None \<Rightarrow> (Ok Close, ss)
      | Some s \<Rightarrow>
          if close_decision s = RejectUnsaved then (Ok RejectUnsaved, ss)
          else if length (ss_sessions ss) = 1 then
            let replacement = ss_next_id ss
            in (Ok Close, ss\<lparr>ss_next_id := replacement + 1,
                             ss_sessions := [session_untitled R replacement [] label],
                             ss_active := replacement\<rparr>)
          else
            let ss = ss\<lparr>ss_sessions := filter (\<lambda>s. ds_id s \<noteq> i) (ss_sessions ss)\<rparr>
            in if ss_active ss = i then
                 (case ss_sessions ss of [] \<Rightarrow> (Panic, ss) | s # _ \<Rightarrow> (Ok Close, ss\<lparr>ss_active := ds_id s\<rparr>))
               else (Ok Close, ss))"

text \<open>\<open>iter_mut().filter_map(..)\<close>: every session handles the event, the outcomes that are not \<open>Ignored\<close> are collected.\<close>

fun route_event ::
  "('r document_session \<Rightarrow> file_event_outcome \<times> 'r document_session) \<Rightarrow> 'r document_session list \<Rightarrow>
   (u64 \<times> file_event_outcome) list \<times> 'r document_session list" where
  "route_event f [] = ([], [])"
| "route_event f (s # ss) =
     (let (outcome, s') = f s; (outs, ss') = route_event f ss
      in (if outcome \<noteq> EventIgnored then (ds_id s', outcome) # outs else outs, s' # ss'))"

definition route_to_all ::
  "('r document_session \<Rightarrow> file_event_outcome \<times> 'r document_session) \<Rightarrow> 'r session_set \<Rightarrow>
   (u64 \<times> file_event_outcome) list \<times> 'r session_set" where
  "route_to_all f ss =
     (let (outs, sessions) = route_event f (ss_sessions ss) in (outs, ss\<lparr>ss_sessions := sessions\<rparr>))"

definition set_apply_file_event ::
  "file_event \<Rightarrow> 'r session_set \<Rightarrow> (u64 \<times> file_event_outcome) list \<times> 'r session_set" where
  "set_apply_file_event event = route_to_all (apply_file_event event)"

definition has_unsaved_under :: "path \<Rightarrow> 'r session_set \<Rightarrow> bool" where
  "has_unsaved_under folder ss \<longleftrightarrow>
     (\<exists>s \<in> set (ss_sessions ss). writes_under_folder folder s \<or>
        (is_under_folder folder s \<and> (is_dirty s \<or> save_in_flight s)))"

definition delete_folder :: "path \<Rightarrow> 'r session_set \<Rightarrow> (u64 \<times> file_event_outcome) list \<times> 'r session_set" where
  "delete_folder folder = route_to_all (apply_folder_delete folder)"

definition rename_folder :: "path \<Rightarrow> path \<Rightarrow> 'r session_set \<Rightarrow> (u64 \<times> file_event_outcome) list \<times> 'r session_set" where
  "rename_folder from to = route_to_all (apply_folder_rename from to)"

end
