(* ===== verification/Undo_Contract.thy ===== *)
theory Undo_Contract
  imports Prelude
begin

text \<open>
  What an undo history promises, apart from what its entries are.  An entry has
  an undo and a redo on an abstract document, each the inverse of the other;
  two entries may merge into one whose undo is the two undos in turn.  From
  these laws follows what users rely on: a stack that replays to some document
  still does after a push, a merge, an undo or a redo.
\<close>

text \<open>Applying entries one after the other, the head first.\<close>

fun replay :: "('e \<Rightarrow> 's \<Rightarrow> 's option) \<Rightarrow> 'e list \<Rightarrow> 's \<Rightarrow> 's option" where
  "replay f [] s = Some s"
| "replay f (e # es) s = Option.bind (f e s) (replay f es)"

lemma replay_append: "replay f (es @ ds) s = Option.bind (replay f es s) (replay f ds)"
  by (induction es arbitrary: s) (auto split: bind_splits)

locale reversible =
  fixes undo_of redo_of :: "'e \<Rightarrow> 's \<Rightarrow> 's option"
  assumes undo_iff_redo: "undo_of e s = Some s' \<longleftrightarrow> redo_of e s' = Some s"
begin

text \<open>Redoing in the reverse order what was undone.\<close>

lemma replay_rev: "replay undo_of es s = Some s' \<longleftrightarrow> replay redo_of (rev es) s' = Some s"
proof (induction es arbitrary: s)
  case (Cons e es)
  show ?case
    by (auto simp: replay_append bind_eq_Some_conv Cons.IH undo_iff_redo) 
qed auto

lemma undo_step:
  assumes "replay undo_of (e # us) s = Some s0" and "replay redo_of rs s = Some s1"
  shows "\<exists>s'. undo_of e s = Some s' \<and> replay undo_of us s' = Some s0 \<and>
    replay redo_of (e # rs) s' = Some s1"
  using assms undo_iff_redo by (auto simp: bind_eq_Some_conv)

lemma redo_step:
  assumes "replay redo_of (e # rs) s = Some s1" and "replay undo_of us s = Some s0"
  shows "\<exists>s'. redo_of e s = Some s' \<and> replay redo_of rs s' = Some s1 \<and>
    replay undo_of (e # us) s' = Some s0"
  using assms undo_iff_redo by (auto simp: bind_eq_Some_conv)

lemma push_step:
  assumes "replay undo_of us s = Some s0" and "undo_of e s' = Some s"
  shows "replay undo_of (e # us) s' = Some s0"
  using assms by simp

end

locale mergeable = reversible undo_of redo_of
  for undo_of redo_of :: "'e \<Rightarrow> 's \<Rightarrow> 's option" +
  fixes merge :: "'e \<Rightarrow> 'e \<Rightarrow> 'e option"
  assumes merge_undo: "merge e n = Some m \<Longrightarrow> undo_of n s = Some s1 \<Longrightarrow> undo_of e s1 = Some s0 \<Longrightarrow>
    undo_of m s = Some s0"
begin

lemma merge_step:
  assumes "merge e n = Some m" and "replay undo_of (e # us) s = Some s0" and "undo_of n s' = Some s"
  shows "replay undo_of (m # us) s' = Some s0"
  using assms merge_undo by (auto simp: bind_eq_Some_conv)

text \<open>A merged entry redoes what the two entries redo in turn.\<close>

lemma merge_redo:
  assumes "merge e n = Some m" and "redo_of e s0 = Some s1" and "redo_of n s1 = Some s"
  shows "redo_of m s0 = Some s"
  using assms merge_undo undo_iff_redo by blast

end

end
