(* ===== verification/History_Facts.thy ===== *)
theory History_Facts
  imports Editor_History Undo_Contract
begin

text \<open>
  The undo history on texts.  An entry links the text before an edit with the
  text after it; \<open>text_undo\<close> and \<open>text_redo\<close> are its two directions, guarded by
  what the entry must still find.  They keep the contract of \<open>Undo_Contract\<close>,
  with \<open>try_merge\<close> as the merge, and the history's operations on buffers refine
  them.
\<close>

section \<open>Entries on texts\<close>

definition sel_ok :: "str \<Rightarrow> selection \<Rightarrow> bool" where
  "sel_ok t s \<longleftrightarrow> is_boundary t (sel_anchor s) \<and> is_boundary t (sel_active s)"

lemma sel_ok_caret [simp]: "sel_ok t (caret p) = is_boundary t p"
  by (simp add: sel_ok_def)

lemma sel_ok_range:
  "sel_ok t s \<Longrightarrow> is_boundary t (range_start (sel_range s)) \<and> is_boundary t (range_end (sel_range s))"
  by (auto simp: sel_ok_def sel_range_def min_def max_def)

text \<open>Replace \<open>old\<close>, which must stand at byte \<open>a\<close>, by \<open>new\<close>.\<close>

definition exchange :: "nat \<Rightarrow> str \<Rightarrow> str \<Rightarrow> str \<Rightarrow> str option" where
  "exchange a old new t =
     (if is_boundary t a \<and> is_boundary t (a + str_len old) \<and> byte_slice t a (a + str_len old) = old
      then Some (splice t a (a + str_len old) new) else None)"

definition text_undo :: "history_entry \<Rightarrow> str \<Rightarrow> str option" where
  "text_undo e t =
     Option.bind (exchange (entry_start e) (entry_inserted e) (entry_deleted e) t) (\<lambda>t'.
       if sel_ok t (entry_after e) \<and> sel_ok t' (entry_before e) then Some t' else None)"

definition text_redo :: "history_entry \<Rightarrow> str \<Rightarrow> str option" where
  "text_redo e t =
     Option.bind (exchange (entry_start e) (entry_deleted e) (entry_inserted e) t) (\<lambda>t'.
       if sel_ok t (entry_before e) \<and> sel_ok t' (entry_after e) then Some t' else None)"

lemma exchange_iff:
  "exchange a old new t = Some t' \<longleftrightarrow> (\<exists>p q. t = p @ old @ q \<and> t' = p @ new @ q \<and> a = str_len p)"
proof
  assume ex: "exchange a old new t = Some t'"
  then have b: "is_boundary t a" "is_boundary t (a + str_len old)" and
    old: "byte_slice t a (a + str_len old) = old" and t': "t' = splice t a (a + str_len old) new"
    by (auto simp: exchange_def split: if_splits)
  obtain p m q where s: "t = p @ m @ q" "a = str_len p" "a + str_len old = str_len p + str_len m"
    by (rule boundary_range_split[OF b]) auto
  then have "m = old" using old by simp
  then show "\<exists>p q. t = p @ old @ q \<and> t' = p @ new @ q \<and> a = str_len p"
    using s t' by (intro exI[of _ p] exI[of _ q]) simp
next
  assume "\<exists>p q. t = p @ old @ q \<and> t' = p @ new @ q \<and> a = str_len p"
  then obtain p q where t: "t = p @ old @ q" "t' = p @ new @ q" "a = str_len p" by blast
  have "is_boundary t (a + str_len old)"
    using is_boundary_prefix[of "p @ old" q] t by simp
  then show "exchange a old new t = Some t'" using t by (simp add: exchange_def)
qed

lemma text_undo_iff:
  "text_undo e t = Some t' \<longleftrightarrow>
     (\<exists>p q. t = p @ entry_inserted e @ q \<and> t' = p @ entry_deleted e @ q \<and> entry_start e = str_len p) \<and>
     sel_ok t (entry_after e) \<and> sel_ok t' (entry_before e)"
  by (auto simp: text_undo_def bind_eq_Some_conv exchange_iff)

lemma text_redo_iff:
  "text_redo e t = Some t' \<longleftrightarrow>
     (\<exists>p q. t = p @ entry_deleted e @ q \<and> t' = p @ entry_inserted e @ q \<and> entry_start e = str_len p) \<and>
     sel_ok t (entry_before e) \<and> sel_ok t' (entry_after e)"
  by (auto simp: text_redo_def bind_eq_Some_conv exchange_iff)

lemma text_undoI:
  assumes "t = p @ entry_inserted e @ q" and "t' = p @ entry_deleted e @ q" and "entry_start e = str_len p"
    and "sel_ok t (entry_after e)" and "sel_ok t' (entry_before e)"
  shows "text_undo e t = Some t'"
  using assms unfolding text_undo_iff by blast

lemma prefix_by_len:
  assumes "p @ q = p' @ q'" and "str_len p = str_len p'"
  shows "p = p' \<and> q = q'"
proof -
  obtain us where "p = p' @ us \<and> us @ q = q' \<or> p @ us = p' \<and> q = us @ q'"
    using append_eq_append_conv2[of p q p' q'] assms(1) by blast
  then show ?thesis using assms(2) by auto
qed

lemma try_merge_undo:
  assumes m: "try_merge e n = Some m" and n: "text_undo n s = Some s1" and e: "text_undo e s1 = Some s0"
  shows "text_undo m s = Some s0"
proof -
  obtain pn qn where N: "s = pn @ entry_inserted n @ qn" "s1 = pn @ entry_deleted n @ qn"
    "entry_start n = str_len pn" "sel_ok s (entry_after n)" using n by (auto simp: text_undo_iff)
  obtain pe qe where P: "s1 = pe @ entry_inserted e @ qe" "s0 = pe @ entry_deleted e @ qe"
    "entry_start e = str_len pe" "sel_ok s0 (entry_before e)" using e by (auto simp: text_undo_iff)
  show ?thesis
  proof (cases "entry_kind e")
    case KInsert
    then have M: "entry_deleted n = []" "entry_start n = entry_start e + str_len (entry_inserted e)"
      "m = e\<lparr>entry_inserted := entry_inserted e @ entry_inserted n, entry_after := entry_after n,
             last_edit_at := last_edit_at n\<rparr>"
      using m by (auto simp: try_merge_def split: if_splits)
    have eq: "pn = pe @ entry_inserted e \<and> qn = qe"
      using N(2,3) P(1,3) M by (intro prefix_by_len) simp_all
    show ?thesis
    proof (rule text_undoI[of _ pe _ qn])
      show "sel_ok s (entry_after m)" using N(4) M by simp
      show "sel_ok s0 (entry_before m)" using P(4) M by simp
    qed (use N(1,3) P(2,3) M eq in simp_all)
  next
    case KBackspace
    then have M: "entry_inserted e = []" "entry_inserted n = []"
      "entry_start n + str_len (entry_deleted n) = entry_start e"
      "m = e\<lparr>entry_start := entry_start n, entry_deleted := entry_deleted n @ entry_deleted e,
             entry_after := entry_after n, last_edit_at := last_edit_at n\<rparr>"
      using m by (auto simp: try_merge_def split: if_splits)
    have eq: "pe = pn @ entry_deleted n \<and> qe = qn"
      using N(2,3) P(1,3) M by (intro prefix_by_len) simp_all
    show ?thesis
    proof (rule text_undoI[of _ pn _ qn])
      show "sel_ok s (entry_after m)" using N(4) M by simp
      show "sel_ok s0 (entry_before m)" using P(4) M by simp
    qed (use N(1,3) P(2,3) M eq in simp_all)
  next
    case KDelete
    then have M: "entry_inserted e = []" "entry_inserted n = []" "entry_start n = entry_start e"
      "m = e\<lparr>entry_deleted := entry_deleted e @ entry_deleted n,
             entry_after := entry_after n, last_edit_at := last_edit_at n\<rparr>"
      using m by (auto simp: try_merge_def split: if_splits)
    have eq: "pe = pn \<and> qe = entry_deleted n @ qn"
      using N(2,3) P(1,3) M by (intro prefix_by_len) simp_all
    show ?thesis
    proof (rule text_undoI[of _ pe _ qn])
      show "sel_ok s (entry_after m)" using N(4) M by simp
      show "sel_ok s0 (entry_before m)" using P(4) M by simp
    qed (use N(1,3) P(2,3) M eq in simp_all)
  qed (use m in \<open>auto simp: try_merge_def split: if_splits\<close>)
qed

interpretation entries: mergeable text_undo text_redo try_merge
proof unfold_locales
  show "(text_undo e s = Some s') = (text_redo e s' = Some s)" for e s s'
    by (auto simp: text_undo_iff text_redo_iff)
qed (rule try_merge_undo)

section \<open>The history of a text\<close>

text \<open>
  \<open>hist_ok t0 t h\<close>: undoing everything from \<open>t\<close> leads to \<open>t0\<close>, and the redo
  stack replays from \<open>t\<close>.
\<close>

definition hist_ok :: "str \<Rightarrow> str \<Rightarrow> history \<Rightarrow> bool" where
  "hist_ok t0 t h \<longleftrightarrow>
     replay text_undo (rev (undo_stack h)) t = Some t0 \<and>
     (\<exists>t1. replay text_redo (rev (redo_stack h)) t = Some t1)"

lemma hist_ok_empty [simp]: "hist_ok t0 t empty_history \<longleftrightarrow> t = t0"
  by (auto simp: hist_ok_def empty_history_def)

lemma hist_ok_break_group [simp]: "hist_ok t0 t (break_group h) = hist_ok t0 t h"
  by (simp add: hist_ok_def break_group_def)

lemma rev_stack: "us \<noteq> [] \<Longrightarrow> rev us = last us # rev (butlast us)"
  by (metis append_butlast_last_id rev_eq_Cons_iff rev_rev_ident)

lemma push_or_merge_ok:
  assumes us: "replay text_undo (rev us) t = Some t0" and e: "text_undo e t' = Some t"
  shows "replay text_undo (rev (push_or_merge mg us e)) t' = Some t0"
proof -
  have push: "replay text_undo (rev (us @ [e])) t' = Some t0"
    using entries.push_step[OF us e] by simp
  show ?thesis
  proof (cases "mg \<and> us \<noteq> []")
    case True
    then have l: "last_of us = Some (last us)" by (simp add: last_of_eq)
    have rs: "rev us = last us # rev (butlast us)" using True by (simp add: rev_stack)
    show ?thesis
    proof (cases "try_merge (last us) e")
      case (Some m)
      have "replay text_undo (m # rev (butlast us)) t' = Some t0"
        using entries.merge_step[OF Some _ e] us rs by simp
      then show ?thesis using True l Some by (simp add: push_or_merge_def)
    qed (use True l push in \<open>simp add: push_or_merge_def\<close>)
  next
    case False
    then show ?thesis using push by (cases us rule: rev_cases) (auto simp: push_or_merge_def last_of_def)
  qed
qed

lemma hist_ok_record:
  assumes "hist_ok t0 t h" and "text_undo (entry_from_summary sm ins sb sa kind now) t' = Some t"
  shows "hist_ok t0 t' (history_record sm ins sb sa kind now h)"
  using assms by (auto simp: hist_ok_def history_record_def Let_def intro: push_or_merge_ok)

lemma hist_ok_replacement:
  assumes "hist_ok t0 t h"
    and "t = p @ deleted @ q" and "t' = p @ inserted @ q" and "start = str_len p"
    and "sel_ok t sb" and "sel_ok t' sa"
  shows "hist_ok t0 t' (record_replacement start deleted inserted sb sa kind now h)"
proof -
  have "text_undo \<lparr>entry_start = start, entry_deleted = deleted, entry_inserted = inserted,
      entry_before = sb, entry_after = sa, entry_kind = kind, last_edit_at = now\<rparr> t' = Some t"
    using assms by (intro text_undoI) simp_all
  then show ?thesis
    using assms(1) by (simp add: hist_ok_def record_replacement_def)
qed

lemma entry_of_edit:
  assumes "is_boundary s (range_start rg)" "is_boundary s (range_end rg)" "range_start rg \<le> range_end rg"
    and "sel_ok s sb" and "sel_ok (splice s (range_start rg) (range_end rg) r) sa"
  shows "text_undo (entry_from_summary (summary_of rv s rg r) r sb sa kind now)
    (splice s (range_start rg) (range_end rg) r) = Some s"
proof -
  obtain p m q where s: "s = p @ m @ q" "range_start rg = str_len p" "range_end rg = str_len p + str_len m"
    by (rule boundary_range_split[OF assms(1-3)])
  then have d: "byte_slice s (range_start rg) (range_end rg) = m"
    and t: "splice s (range_start rg) (range_end rg) r = p @ r @ q" by simp_all
  show ?thesis
    unfolding t using assms(4,5) s t d
    by (intro text_undoI[of _ p _ q]) (simp_all add: entry_from_summary_def)
qed

section \<open>Undo and redo on buffers\<close>

context ropey
begin

lemma exchange_edit:
  assumes "buffer_inv R d" and "buf_revision d + 1 < u64_bound"
    and "exchange a old new (full_text R d) = Some t'"
  shows "\<exists>sm d'. buf_edit R (source_range_new a (a + str_len old)) new d = (Ok sm, d') \<and>
    buffer_inv R d' \<and> full_text R d' = t' \<and> buf_revision d' = Suc (buf_revision d)"
proof -
  have v: "valid_range R d (source_range_new a (a + str_len old))"
    and t': "t' = splice (full_text R d) a (a + str_len old) new"
    using assms(3) by (auto simp: exchange_def valid_range_def split: if_splits)
  show ?thesis by (rule buf_edit_Ok[OF assms(1) v assms(2), of new]) (simp add: t')
qed

lemma entry_undo_Ok:
  assumes "buffer_inv R d" and "buf_revision d + 1 < u64_bound"
    and "text_undo e (full_text R d) = Some t'"
  shows "\<exists>sm d'. entry_undo R e d = (Ok sm, d') \<and>
    buffer_inv R d' \<and> full_text R d' = t' \<and> buf_revision d' = Suc (buf_revision d)"
  unfolding entry_undo_def using assms
  by (intro exchange_edit) (auto simp: text_undo_def bind_eq_Some_conv split: if_splits)

lemma entry_redo_Ok:
  assumes "buffer_inv R d" and "buf_revision d + 1 < u64_bound"
    and "text_redo e (full_text R d) = Some t'"
  shows "\<exists>sm d'. entry_redo R e d = (Ok sm, d') \<and>
    buffer_inv R d' \<and> full_text R d' = t' \<and> buf_revision d' = Suc (buf_revision d)"
  unfolding entry_redo_def using assms
  by (intro exchange_edit) (auto simp: text_redo_def bind_eq_Some_conv split: if_splits)

text \<open>One undo: the text, and both stacks, take one step back.\<close>

lemma history_undo_Ok:
  assumes inv: "buffer_inv R d" and room: "buf_revision d + 1 < u64_bound"
    and ok: "hist_ok t0 (full_text R d) h" and us: "undo_stack h = us @ [e]"
  shows "\<exists>sm d' t'. history_undo R (h, d) =
      (Ok (Some (sm, entry_before e)),
       (\<lparr>undo_stack = us, redo_stack = redo_stack h @ [e], can_merge_last = False\<rparr>, d')) \<and>
    buffer_inv R d' \<and> full_text R d' = t' \<and> buf_revision d' = Suc (buf_revision d) \<and>
    text_undo e (full_text R d) = Some t' \<and>
    hist_ok t0 t' \<lparr>undo_stack = us, redo_stack = redo_stack h @ [e], can_merge_last = False\<rparr>"
proof -
  obtain t1 where r: "replay text_undo (e # rev us) (full_text R d) = Some t0"
    "replay text_redo (rev (redo_stack h)) (full_text R d) = Some t1"
    using ok us by (auto simp: hist_ok_def simp del: replay.simps)
  from entries.undo_step[OF r] obtain t' where t': "text_undo e (full_text R d) = Some t'"
    "replay text_undo (rev us) t' = Some t0" "replay text_redo (e # rev (redo_stack h)) t' = Some t1"
    by blast
  from entry_undo_Ok[OF inv room t'(1)] obtain sm d' where "entry_undo R e d = (Ok sm, d')"
    "buffer_inv R d'" "full_text R d' = t'" "buf_revision d' = Suc (buf_revision d)" by blast
  then show ?thesis
    using t' us by (auto simp: history_undo_def break_group_def Let_def hist_ok_def simp del: replay.simps)
qed

lemma history_redo_Ok:
  assumes inv: "buffer_inv R d" and room: "buf_revision d + 1 < u64_bound"
    and ok: "hist_ok t0 (full_text R d) h" and rs: "redo_stack h = rs @ [e]"
  shows "\<exists>sm d' t'. history_redo R (h, d) =
      (Ok (Some (sm, entry_after e)),
       (\<lparr>undo_stack = undo_stack h @ [e], redo_stack = rs, can_merge_last = False\<rparr>, d')) \<and>
    buffer_inv R d' \<and> full_text R d' = t' \<and> buf_revision d' = Suc (buf_revision d) \<and>
    text_redo e (full_text R d) = Some t' \<and>
    hist_ok t0 t' \<lparr>undo_stack = undo_stack h @ [e], redo_stack = rs, can_merge_last = False\<rparr>"
proof -
  obtain t1 where r: "replay text_redo (e # rev rs) (full_text R d) = Some t1"
    "replay text_undo (rev (undo_stack h)) (full_text R d) = Some t0"
    using ok rs by (auto simp: hist_ok_def simp del: replay.simps)
  from entries.redo_step[OF r] obtain t' where t': "text_redo e (full_text R d) = Some t'"
    "replay text_redo (rev rs) t' = Some t1" "replay text_undo (e # rev (undo_stack h)) t' = Some t0"
    by blast
  from entry_redo_Ok[OF inv room t'(1)] obtain sm d' where "entry_redo R e d = (Ok sm, d')"
    "buffer_inv R d'" "full_text R d' = t'" "buf_revision d' = Suc (buf_revision d)" by blast
  then show ?thesis
    using t' rs by (auto simp: history_redo_def break_group_def Let_def hist_ok_def simp del: replay.simps)
qed

lemma history_undo_empty: "undo_stack h = [] \<Longrightarrow> history_undo R (h, d) = (Ok None, (break_group h, d))"
  by (simp add: history_undo_def break_group_def Let_def)

lemma history_redo_empty: "redo_stack h = [] \<Longrightarrow> history_redo R (h, d) = (Ok None, (break_group h, d))"
  by (simp add: history_redo_def break_group_def Let_def)

end

end
