(* ===== verification/Editor_Facts.thy ===== *)
theory Editor_Facts
  imports Editor Movement_Facts History_Facts
begin

text \<open>
  The editor's invariant and what every operation does under it.  The invariant
  ties the pieces together: the buffer's own invariant, a selection on char
  boundaries, and a history that replays from the text as it would be without
  the running composition (\<open>base_text\<close>), because a composition edits the document
  without recording it.
\<close>

section \<open>The invariant\<close>

definition base_text :: "('r, 'z) rope_api_scheme \<Rightarrow> 'r editor \<Rightarrow> str" where
  "base_text R e =
     (case ed_ime e of
        None \<Rightarrow> full_text R (ed_document e)
      | Some ime \<Rightarrow> splice (full_text R (ed_document e)) (range_start (ime_current_range ime))
                     (range_end (ime_current_range ime)) (ime_original_text ime))"

text \<open>
  A running composition: its current range holds the marked text, starts where
  the original range started, and the deltas since it began carry the original
  ends to the current ones.
\<close>

definition ime_ok :: "('r, 'z) rope_api_scheme \<Rightarrow> 'r rope_buffer \<Rightarrow> ime_state \<Rightarrow> bool" where
  "ime_ok R d ime \<longleftrightarrow>
     valid_range R d (ime_current_range ime) \<and>
     byte_slice (full_text R d) (range_start (ime_current_range ime)) (range_end (ime_current_range ime))
       = ime_marked_text ime \<and>
     range_start (ime_original_range ime) = range_start (ime_current_range ime) \<and>
     ime_start_anchor ime = \<lparr>anchor_offset = range_start (ime_original_range ime), anchor_bias = Before\<rparr> \<and>
     ime_end_anchor ime = \<lparr>anchor_offset = range_end (ime_original_range ime), anchor_bias = After\<rparr> \<and>
     sel_ok (splice (full_text R d) (range_start (ime_current_range ime))
               (range_end (ime_current_range ime)) (ime_original_text ime)) (ime_original_selection ime) \<and>
     ime_expected_revision ime = buf_revision d \<and> ime_base_revision ime < buf_revision d \<and>
     (\<forall>ds. deltas_since d (ime_base_revision ime) = Ok ds \<longrightarrow>
        transform_all ds (range_start (ime_original_range ime)) Before = Some (range_start (ime_current_range ime)) \<and>
        transform_all ds (range_end (ime_original_range ime)) After = Some (range_end (ime_current_range ime)))"

definition editor_inv :: "('r, 'z) rope_api_scheme \<Rightarrow> str \<Rightarrow> 'r editor \<Rightarrow> bool" where
  "editor_inv R t0 e \<longleftrightarrow>
     buffer_inv R (ed_document e) \<and>
     sel_ok (full_text R (ed_document e)) (ed_selection e) \<and>
     rw_inv (ed_measurements e) \<and>
     hist_ok t0 (base_text R e) (ed_history e) \<and>
     (case ed_ime e of None \<Rightarrow> True | Some ime \<Rightarrow> ime_ok R (ed_document e) ime)"

text \<open>No composition is running.\<close>

definition idle :: "('r, 'z) rope_api_scheme \<Rightarrow> str \<Rightarrow> 'r editor \<Rightarrow> bool" where
  "idle R t0 e \<longleftrightarrow> editor_inv R t0 e \<and> ed_ime e = None"

lemma idle_iff:
  "idle R t0 e \<longleftrightarrow>
     buffer_inv R (ed_document e) \<and> sel_ok (full_text R (ed_document e)) (ed_selection e) \<and>
     rw_inv (ed_measurements e) \<and> hist_ok t0 (full_text R (ed_document e)) (ed_history e) \<and>
     ed_ime e = None"
  by (auto simp: idle_def editor_inv_def base_text_def)

section \<open>Updates that keep it\<close>

lemma idle_break [simp]: "idle R t0 (break_undo_group e) = idle R t0 e"
  by (simp add: idle_iff break_undo_group_def)

lemma editor_inv_break [simp]: "editor_inv R t0 (break_undo_group e) = editor_inv R t0 e"
  by (cases "ed_ime e") (simp_all add: editor_inv_def base_text_def break_undo_group_def)

lemma idle_clear_preferred [simp]: "idle R t0 (clear_preferred e) = idle R t0 e"
  by (simp add: idle_iff clear_preferred_def)

lemma idle_preferred_column [simp]: "idle R t0 (e\<lparr>ed_preferred_column := c\<rparr>) = idle R t0 e"
  by (simp add: idle_iff)

lemma editor_inv_preferred_column [simp]: "editor_inv R t0 (e\<lparr>ed_preferred_column := c\<rparr>) = editor_inv R t0 e"
  by (cases "ed_ime e") (simp_all add: editor_inv_def base_text_def)

lemma idle_record_update [simp]: "idle R t0 e \<Longrightarrow> idle R t0 (record_model_update a u k e)"
  by (simp add: idle_iff record_model_update_def)

lemma editor_inv_record_update [simp]:
  "editor_inv R t0 e \<Longrightarrow> editor_inv R t0 (record_model_update a u k e)"
  by (cases "ed_ime e") (simp_all add: editor_inv_def base_text_def record_model_update_def)

lemma document_simps [simp]:
  "ed_document (break_undo_group e) = ed_document e" "ed_document (clear_preferred e) = ed_document e"
  "ed_document (record_model_update a u k e) = ed_document e" "ed_document (move_to p x e) = ed_document e"
  "ed_selection (break_undo_group e) = ed_selection e" "ed_selection (clear_preferred e) = ed_selection e"
  "ed_selection (record_model_update a u k e) = ed_selection e"
  "ed_ime (break_undo_group e) = ed_ime e" "ed_ime (clear_preferred e) = ed_ime e"
  "ed_ime (record_model_update a u k e) = ed_ime e" "ed_ime (move_to p x e) = ed_ime e"
  "ed_history (clear_preferred e) = ed_history e" "ed_history (record_model_update a u k e) = ed_history e"
  "ed_history (move_to p x e) = ed_history e" "ed_history (break_undo_group e) = break_group (ed_history e)"
  by (simp_all add: break_undo_group_def clear_preferred_def record_model_update_def move_to_def)

lemma idle_move_to:
  "idle R t0 e \<Longrightarrow> is_boundary (full_text R (ed_document e)) p \<Longrightarrow> idle R t0 (move_to p extending e)"
  by (auto simp: idle_iff move_to_def sel_ok_def)

lemma idle_select:
  "idle R t0 e \<Longrightarrow> sel_ok (full_text R (ed_document e)) s \<Longrightarrow> idle R t0 (e\<lparr>ed_selection := s\<rparr>)"
  by (simp add: idle_iff)

text \<open>Committing a composition records it: what is undone is the whole composition.\<close>

lemma commit_composition_idle:
  assumes "editor_inv R t0 e"
  shows "idle R t0 (commit_composition now e)"
proof (cases "ed_ime e")
  case None
  then show ?thesis using assms by (simp add: commit_composition_def idle_def)
next
  case (Some ime)
  let ?s = "full_text R (ed_document e)" and ?c = "ime_current_range ime"
  have ok: "ime_ok R (ed_document e) ime" and h: "hist_ok t0 (base_text R e) (ed_history e)"
    and sel: "sel_ok ?s (ed_selection e)"
    using assms Some by (auto simp: editor_inv_def)
  have v: "is_boundary ?s (range_start ?c)" "is_boundary ?s (range_end ?c)" "range_start ?c \<le> range_end ?c"
    using ok by (auto simp: ime_ok_def valid_range_def)
  obtain p m q where s: "?s = p @ m @ q" "range_start ?c = str_len p" "range_end ?c = str_len p + str_len m"
    by (rule boundary_range_split[OF v])
  have m: "m = ime_marked_text ime" using ok s by (simp add: ime_ok_def)
  have bt: "base_text R e = p @ ime_original_text ime @ q" using Some s by (simp add: base_text_def)
  have "hist_ok t0 ?s (record_replacement (range_start (ime_original_range ime))
      (ime_original_text ime) (ime_marked_text ime) (ime_original_selection ime) (ed_selection e)
      KIme now (ed_history e))"
    using ok s m bt sel
    by (intro hist_ok_replacement[OF h, of p _ q]) (auto simp: ime_ok_def)
  then show ?thesis
    using assms Some by (simp add: commit_composition_def idle_iff editor_inv_def)
qed

lemma commit_composition_simps [simp]:
  "ed_document (commit_composition now e) = ed_document e"
  "ed_selection (commit_composition now e) = ed_selection e"
  "ed_ime (commit_composition now e) = None"
  by (simp_all add: commit_composition_def split: option.splits)

section \<open>Edits\<close>

context ropey
begin

lemma on_document_edit:
  assumes inv: "buffer_inv R (ed_document e)" and v: "valid_range R (ed_document e) rg"
    and room: "buf_revision (ed_document e) + 1 < u64_bound"
  obtains d' where "on_document (buf_edit R rg t) e =
      (Ok (summary_of (buf_revision (ed_document e)) (full_text R (ed_document e)) rg t), e\<lparr>ed_document := d'\<rparr>)"
    and "buffer_inv R d'" and "full_text R d' = splice (full_text R (ed_document e)) (range_start rg) (range_end rg) t"
    and "buf_revision d' = Suc (buf_revision (ed_document e))"
    and "buf_deltas d' = buf_deltas (push_delta (ed_document e) (delta_of (buf_revision (ed_document e)) rg (str_len t)))"
    and "delta_capacity d' = delta_capacity (ed_document e)"
proof -
  obtain d' where "buf_edit R rg t (ed_document e) =
      (Ok (summary_of (buf_revision (ed_document e)) (full_text R (ed_document e)) rg t), d')"
    "buffer_inv R d'" "full_text R d' = splice (full_text R (ed_document e)) (range_start rg) (range_end rg) t"
    "buf_revision d' = Suc (buf_revision (ed_document e))"
    "buf_deltas d' = buf_deltas (push_delta (ed_document e) (delta_of (buf_revision (ed_document e)) rg (str_len t)))"
    "delta_capacity d' = delta_capacity (ed_document e)"
    by (rule buf_edit_Ok[OF inv v room, of t])
  then show ?thesis by (intro that[of d']) (simp_all add: on_document_def)
qed

lemma splice_end_boundary:
  assumes "is_boundary s a" "is_boundary s b" "a \<le> b" and "is_boundary t i"
  shows "is_boundary (splice s a b t) (a + i)"
proof -
  obtain xs ys zs where s: "s = xs @ ys @ zs" "a = str_len xs" "b = str_len xs + str_len ys"
    by (rule boundary_range_split[OF assms(1-3)])
  obtain us vs where "t = us @ vs" "i = str_len us" using assms(4) by (auto simp: is_boundary_split)
  then have "splice s a b t = (xs @ us) @ vs @ zs" "a + i = str_len (xs @ us)" using s by simp_all
  then show ?thesis by (metis is_boundary_prefix)
qed

lemma sel_valid_range:
  "sel_ok (full_text R d) s \<Longrightarrow> valid_range R d (sel_range s)"
  using sel_ok_range by (simp add: valid_range_def)

text \<open>Replacing the selection records one entry and puts the caret after the text.\<close>

lemma recorded_from_Ok:
  assumes e: "idle R t0 e" and sb: "sel_ok (full_text R (ed_document e)) sel_before"
    and room: "buf_revision (ed_document e) + 1 < u64_bound"
  defines "rg \<equiv> sel_range (ed_selection e)" and "s \<equiv> full_text R (ed_document e)"
  shows "\<exists>e'. replace_selection_recorded_from R t sel_before kind now e =
      (Ok (summary_of (buf_revision (ed_document e)) s rg t), e') \<and> idle R t0 e' \<and>
    full_text R (ed_document e') = splice s (range_start rg) (range_end rg) t \<and>
    ed_selection e' = caret (range_start rg + str_len t) \<and>
    buf_revision (ed_document e') = Suc (buf_revision (ed_document e))"
proof -
  have inv: "buffer_inv R (ed_document e)" and sel: "sel_ok s (ed_selection e)"
    using e by (simp_all add: idle_iff s_def)
  have v: "valid_range R (ed_document e) rg" using sel sel_valid_range by (simp add: rg_def s_def)
  then have bd: "is_boundary s (range_start rg)" "is_boundary s (range_end rg)" "range_start rg \<le> range_end rg"
    by (simp_all add: valid_range_def s_def)
  obtain d' where d': "on_document (buf_edit R rg t) e =
      (Ok (summary_of (buf_revision (ed_document e)) s rg t), e\<lparr>ed_document := d'\<rparr>)" "buffer_inv R d'"
    "full_text R d' = splice s (range_start rg) (range_end rg) t" "buf_revision d' = Suc (buf_revision (ed_document e))"
    using on_document_edit[OF inv v room, of t] unfolding s_def by metis
  have caret: "is_boundary (full_text R d') (range_start rg + str_len t)"
    unfolding d'(3) using splice_end_boundary[OF bd, of t "str_len t"] by simp
  have "hist_ok t0 (full_text R d') (history_record (summary_of (buf_revision (ed_document e)) s rg t) t sel_before
      (caret (range_start rg + str_len t)) kind now (ed_history e))"
  proof (rule hist_ok_record)
    show "hist_ok t0 s (ed_history e)" using e by (simp add: idle_iff s_def)
    show "text_undo (entry_from_summary (summary_of (buf_revision (ed_document e)) s rg t) t sel_before
        (caret (range_start rg + str_len t)) kind now) (full_text R d') = Some s"
      unfolding d'(3) using sb caret d'(3) by (intro entry_of_edit[OF bd]) (simp_all add: s_def)
  qed
  then show ?thesis
    using e d' caret
    by (simp add: replace_selection_recorded_from_def replace_selection_def rg_def[symmetric] idle_iff)
qed

lemma recorded_eq:
  "replace_selection_recorded R t kind now e = replace_selection_recorded_from R t (ed_selection e) kind now e"
  by (simp add: replace_selection_recorded_def replace_selection_recorded_from_def Let_def)

end

section \<open>Commands\<close>

text \<open>A command that cannot fail: it returns, leaves the editor idle, and edits at most once.\<close>

definition lands :: "('r, 'z) rope_api_scheme \<Rightarrow> str \<Rightarrow> nat \<Rightarrow> ('e, 'a) res \<times> 'r editor \<Rightarrow> bool" where
  "lands R t0 n rs \<longleftrightarrow>
     (\<exists>a e'. rs = (Ok a, e') \<and> idle R t0 e' \<and> buf_revision (ed_document e') \<le> n)"

lemma landsI: "idle R t0 e' \<Longrightarrow> buf_revision (ed_document e') \<le> n \<Longrightarrow> lands R t0 n (Ok a, e')"
  by (simp add: lands_def)

lemma lands_no_edit: "lands R t0 n rs \<Longrightarrow> lands R t0 n (no_edit rs)"
  by (auto simp: lands_def no_edit_def)

context text_segments
begin

lemma recorded_from_lands:
  assumes "idle R t0 e" and "sel_ok (full_text R (ed_document e)) sel_before"
    and "buf_revision (ed_document e) + 1 < u64_bound"
  shows "lands R t0 (Suc (buf_revision (ed_document e)))
    (step_bind (replace_selection_recorded_from R t sel_before kind now e) (\<lambda>sm e. (Ok (Some sm), e)))"
  using recorded_from_Ok[OF assms, of t kind now] by (auto simp: lands_def)

lemma active_boundary: "idle R t0 e \<Longrightarrow> is_boundary (full_text R (ed_document e)) (sel_active (ed_selection e))"
  by (simp add: idle_iff sel_ok_def)

lemma edge_boundary:
  "idle R t0 e \<Longrightarrow> is_boundary (full_text R (ed_document e)) (range_start (sel_range (ed_selection e))) \<and>
    is_boundary (full_text R (ed_document e)) (range_end (sel_range (ed_selection e)))"
  using sel_ok_range by (simp add: idle_iff)

lemma idle_buffer: "idle R t0 e \<Longrightarrow> buffer_inv R (ed_document e)"
  by (simp add: idle_iff)

lemma move_grapheme_lands:
  assumes e: "idle R t0 e"
  shows "lands R t0 (buf_revision (ed_document e)) (move_grapheme R right extending e)"
proof -
  note nxt = next_grapheme_Ok[OF idle_buffer[OF e] active_boundary[OF e]]
  note prv = previous_grapheme_Ok[OF idle_buffer[OF e] active_boundary[OF e]]
  show ?thesis
    using nxt prv edge_boundary[OF e] idle_move_to[OF e]
    by (auto simp: move_grapheme_def query_def Let_def lands_def)
qed

lemma move_word_lands:
  assumes e: "idle R t0 e"
  shows "lands R t0 (buf_revision (ed_document e)) (move_word R forward stop extending e)"
  using word_target_Ok[OF idle_buffer[OF e] active_boundary[OF e], of forward stop]
    edge_boundary[OF e] idle_move_to[OF e]
  by (auto simp: move_word_def query_def Let_def lands_def collapsed_edge_def)

lemma move_paragraph_lands:
  assumes e: "idle R t0 e"
  shows "lands R t0 (buf_revision (ed_document e)) (move_paragraph R forward stop extending e)"
  using paragraph_target_Ok[OF idle_buffer[OF e] active_boundary[OF e], of forward stop]
    edge_boundary[OF e] idle_move_to[OF e]
  by (auto simp: move_paragraph_def query_def Let_def lands_def collapsed_edge_def)

lemma move_to_line_boundary_lands:
  assumes e: "idle R t0 e"
  shows "lands R t0 (buf_revision (ed_document e)) (move_to_line_boundary R to_end extending e)"
  by (rule line_boundary_Ok[OF idle_buffer[OF e] active_boundary[OF e]])
    (use idle_move_to[OF e] in \<open>auto simp: move_to_line_boundary_def query_def lands_def\<close>)

lemma column_boundary:
  assumes l: "l < length (source_lines (full_text R b))"
  shows "is_boundary (full_text R b) (range_start (content_span (full_text R b) l) +
    (case map_option fst (get (grapheme_indices R (line_content (source_lines (full_text R b) ! l))) c) of
       Some i \<Rightarrow> i | None \<Rightarrow> str_len (line_content (source_lines (full_text R b) ! l))))"
    (is "is_boundary ?s (?a + ?i)")
proof -
  let ?x = "line_content (source_lines ?s ! l)"
  have "is_boundary ?x ?i" using grapheme_index_boundary[of ?x c] by (auto split: option.splits)
  then show ?thesis
    using boundary_in_slice(1)[of ?s ?a "range_end (content_span ?s l)"] content_span_valid[OF l] by simp
qed

lemma move_vertical_lands:
  assumes e: "idle R t0 e"
  shows "lands R t0 (buf_revision (ed_document e)) (move_vertical R down extending e)"
proof -
  let ?d = "ed_document e" and ?s = "full_text R (ed_document e)" and ?p = "sel_active (ed_selection e)"
  note inv = idle_buffer[OF e] and p = active_boundary[OF e]
  obtain l rg where l: "line_for_offset R ?d ?p = Ok l" "line_content_range R ?d l = Ok rg"
    "is_boundary ?s (range_start rg)" "is_boundary ?s (range_end rg)" "range_start rg \<le> ?p"
    "l < line_count R ?d" "range_start rg \<le> range_end rg"
    by (rule line_boundary_Ok[OF inv p])
  have "valid_range R ?d (source_range_new (range_start rg) (min ?p (range_end rg)))"
    using l p by (simp add: valid_range_def min_def)
  then obtain pre where pre: "buf_text R ?d (source_range_new (range_start rg) (min ?p (range_end rg))) = Ok pre"
    using buf_text_Ok by blast
  have tgt: "vertical_target_line R ?d down l = Some k \<Longrightarrow> k < length (source_lines ?s)" for k
    using l(6) line_count_eq[OF inv]
    by (auto simp: vertical_target_line_def checked_sub_def split: if_splits)
  show ?thesis
  proof (cases "vertical_target_line R ?d down l")
    case None
    then show ?thesis
      using e l pre by (simp add: move_vertical_def query_def Let_def lands_def)
  next
    case (Some k)
    have k: "k < length (source_lines ?s)" using tgt[OF Some] .
    have "line_content_range R ?d k = Ok (content_span ?s k)"
      using line_content_range_eq[OF inv, of k] k by simp
    then show ?thesis
      using e l pre Some content_text[OF k] column_boundary[OF k]
      by (simp add: move_vertical_def query_def Let_def lands_def idle_move_to)
  qed
qed

lemma backspace_lands:
  assumes e: "idle R t0 e" and room: "buf_revision (ed_document e) + 1 < u64_bound"
  shows "lands R t0 (Suc (buf_revision (ed_document e))) (backspace R now e)"
proof -
  let ?s = "full_text R (ed_document e)"
  have sel: "sel_ok ?s (ed_selection e)" using e by (simp add: idle_iff)
  obtain q where q: "previous_grapheme R (ed_document e) (sel_active (ed_selection e)) = Ok q" "is_boundary ?s q"
    using previous_grapheme_Ok[OF idle_buffer[OF e] active_boundary[OF e]] by blast
  let ?e = "e\<lparr>ed_selection := (ed_selection e)\<lparr>sel_anchor := q\<rparr>\<rparr>"
  have "idle R t0 ?e" using idle_select[OF e, of "(ed_selection e)\<lparr>sel_anchor := q\<rparr>"] sel q by (simp add: sel_ok_def)
  then show ?thesis
    using recorded_from_lands[of t0 ?e "ed_selection e" "[]" KBackspace now] recorded_from_lands[OF e sel room] sel room q e
    by (auto simp: backspace_def query_def Let_def intro: landsI)
qed

lemma delete_lands:
  assumes e: "idle R t0 e" and room: "buf_revision (ed_document e) + 1 < u64_bound"
  shows "lands R t0 (Suc (buf_revision (ed_document e))) (delete R now e)"
proof -
  let ?s = "full_text R (ed_document e)"
  have sel: "sel_ok ?s (ed_selection e)" using e by (simp add: idle_iff)
  obtain q where q: "next_grapheme R (ed_document e) (sel_active (ed_selection e)) = Ok q" "is_boundary ?s q"
    using next_grapheme_Ok[OF idle_buffer[OF e] active_boundary[OF e]] by blast
  let ?e = "e\<lparr>ed_selection := (ed_selection e)\<lparr>sel_active := q\<rparr>\<rparr>"
  have "idle R t0 ?e" using idle_select[OF e, of "(ed_selection e)\<lparr>sel_active := q\<rparr>"] sel q by (simp add: sel_ok_def)
  then show ?thesis
    using recorded_from_lands[of t0 ?e "ed_selection e" "[]" KDelete now] recorded_from_lands[OF e sel room] sel room q e
    by (auto simp: delete_def query_def Let_def intro: landsI)
qed

lemma delete_word_lands:
  assumes e: "idle R t0 e" and room: "buf_revision (ed_document e) + 1 < u64_bound"
  shows "lands R t0 (Suc (buf_revision (ed_document e))) (delete_word R forward stop now e)"
proof -
  let ?s = "full_text R (ed_document e)" and ?p = "sel_active (ed_selection e)"
  have sel: "sel_ok ?s (ed_selection e)" using e by (simp add: idle_iff)
  obtain q where q: "word_target R (ed_document e) ?p forward stop = Ok q" "is_boundary ?s q"
    using word_target_Ok[OF idle_buffer[OF e] active_boundary[OF e]] by blast
  let ?e = "e\<lparr>ed_selection := \<lparr>sel_anchor = ?p, sel_active = q\<rparr>\<rparr>"
  have "idle R t0 ?e" using idle_select[OF e, of "\<lparr>sel_anchor = ?p, sel_active = q\<rparr>"] sel q by (simp add: sel_ok_def)
  then show ?thesis
    using recorded_from_lands[of t0 ?e "ed_selection e" "[]" KReplace now] recorded_from_lands[OF e sel room] sel room q e
    by (auto simp: delete_word_def query_def Let_def intro: landsI)
qed

lemma undo_entry:
  assumes e: "idle R t0 e" and room: "buf_revision (ed_document e) + 1 < u64_bound"
    and us: "undo_stack (ed_history e) = us @ [en]"
  shows "\<exists>sm e'. editor_undo R e = (Ok (Some sm), e') \<and> idle R t0 e' \<and>
    buf_revision (ed_document e') = Suc (buf_revision (ed_document e)) \<and>
    text_undo en (full_text R (ed_document e)) = Some (full_text R (ed_document e')) \<and>
    ed_selection e' = entry_before en \<and>
    ed_history e' = \<lparr>undo_stack = us, redo_stack = redo_stack (ed_history e) @ [en], can_merge_last = False\<rparr>"
proof -
  have h: "hist_ok t0 (full_text R (ed_document e)) (ed_history e)" using e by (simp add: idle_iff)
  obtain sm d' where u: "history_undo R (ed_history e, ed_document e) = (Ok (Some (sm, entry_before en)),
      (\<lparr>undo_stack = us, redo_stack = redo_stack (ed_history e) @ [en], can_merge_last = False\<rparr>, d'))"
    "buffer_inv R d'" "buf_revision d' = Suc (buf_revision (ed_document e))"
    "text_undo en (full_text R (ed_document e)) = Some (full_text R d')"
    "hist_ok t0 (full_text R d') \<lparr>undo_stack = us, redo_stack = redo_stack (ed_history e) @ [en], can_merge_last = False\<rparr>"
    using history_undo_Ok[OF idle_buffer[OF e] room h us] by blast
  have "sel_ok (full_text R d') (entry_before en)" using u(4) by (simp add: text_undo_iff)
  then show ?thesis
    using u e by (simp add: editor_undo_def idle_iff)
qed

lemma redo_entry:
  assumes e: "idle R t0 e" and room: "buf_revision (ed_document e) + 1 < u64_bound"
    and rs: "redo_stack (ed_history e) = rs @ [en]"
  shows "\<exists>sm e'. editor_redo R e = (Ok (Some sm), e') \<and> idle R t0 e' \<and>
    buf_revision (ed_document e') = Suc (buf_revision (ed_document e)) \<and>
    text_redo en (full_text R (ed_document e)) = Some (full_text R (ed_document e')) \<and>
    ed_selection e' = entry_after en \<and>
    ed_history e' = \<lparr>undo_stack = undo_stack (ed_history e) @ [en], redo_stack = rs, can_merge_last = False\<rparr>"
proof -
  have h: "hist_ok t0 (full_text R (ed_document e)) (ed_history e)" using e by (simp add: idle_iff)
  obtain sm d' where u: "history_redo R (ed_history e, ed_document e) = (Ok (Some (sm, entry_after en)),
      (\<lparr>undo_stack = undo_stack (ed_history e) @ [en], redo_stack = rs, can_merge_last = False\<rparr>, d'))"
    "buffer_inv R d'" "buf_revision d' = Suc (buf_revision (ed_document e))"
    "text_redo en (full_text R (ed_document e)) = Some (full_text R d')"
    "hist_ok t0 (full_text R d') \<lparr>undo_stack = undo_stack (ed_history e) @ [en], redo_stack = rs, can_merge_last = False\<rparr>"
    using history_redo_Ok[OF idle_buffer[OF e] room h rs] by blast
  have "sel_ok (full_text R d') (entry_after en)" using u(4) by (simp add: text_redo_iff)
  then show ?thesis
    using u e by (simp add: editor_redo_def idle_iff)
qed

lemma undo_lands:
  assumes e: "idle R t0 e" and room: "buf_revision (ed_document e) + 1 < u64_bound"
  shows "lands R t0 (Suc (buf_revision (ed_document e))) (editor_undo R e)"
proof (cases "undo_stack (ed_history e)" rule: rev_cases)
  case Nil
  then show ?thesis
    using e by (simp add: editor_undo_def history_undo_empty lands_def idle_iff)
next
  case (snoc us en)
  then show ?thesis using undo_entry[OF e room snoc] by (auto simp: lands_def)
qed

lemma redo_lands:
  assumes e: "idle R t0 e" and room: "buf_revision (ed_document e) + 1 < u64_bound"
  shows "lands R t0 (Suc (buf_revision (ed_document e))) (editor_redo R e)"
proof (cases "redo_stack (ed_history e)" rule: rev_cases)
  case Nil
  then show ?thesis
    using e by (simp add: editor_redo_def history_redo_empty lands_def idle_iff)
next
  case (snoc rs en)
  then show ?thesis using redo_entry[OF e room snoc] by (auto simp: lands_def)
qed

lemma lands_mono: "lands R t0 n rs \<Longrightarrow> n \<le> m \<Longrightarrow> lands R t0 m rs"
  by (auto simp: lands_def)

lemma run_command_lands:
  assumes e: "idle R t0 e" and room: "buf_revision (ed_document e) + 1 < u64_bound"
  shows "lands R t0 (Suc (buf_revision (ed_document e))) (run_command R now cmd e)"
proof -
  let ?n = "buf_revision (ed_document e)" and ?s = "full_text R (ed_document e)"
  have moves: "lands R t0 ?n rs \<Longrightarrow> lands R t0 (Suc ?n) (no_edit rs)" for rs :: "(buffer_error, unit) res \<times> 'r editor"
    by (erule lands_mono[OF lands_no_edit]) simp
  have sel: "sel_ok ?s (ed_selection e)" using e by (simp add: idle_iff)
  have whole: "sel_ok ?s \<lparr>sel_anchor = 0, sel_active = len_bytes R (ed_document e)\<rparr>"
    by (simp add: sel_ok_def len_bytes_eq)
  show ?thesis
    using recorded_from_lands[OF e sel room] backspace_lands[OF e room] delete_lands[OF e room]
      moves[OF move_grapheme_lands[OF e]] moves[OF move_vertical_lands[OF e]]
      moves[OF move_to_line_boundary_lands[OF e]] moves[OF move_word_lands[OF e]]
      moves[OF move_paragraph_lands[OF e]] delete_word_lands[OF e room] undo_lands[OF e room] redo_lands[OF e room]
      idle_move_to[OF e] idle_select[OF e whole]
    by (cases cmd) (auto simp: recorded_eq len_bytes_eq intro!: landsI)
qed

lemma dispatch_lands:
  assumes e: "editor_inv R t0 e" and room: "buf_revision (ed_document e) + 1 < u64_bound"
  shows "lands R t0 (Suc (buf_revision (ed_document e))) (dispatch R now cmd e)"
proof -
  let ?e0 = "if may_group cmd then e else break_undo_group e"
  let ?e1 = "if is_vertical cmd then commit_composition (now 1) ?e0 else clear_preferred (commit_composition (now 1) ?e0)"
  have "editor_inv R t0 ?e0" using e by simp
  then have i: "idle R t0 ?e1" using commit_composition_idle[of R t0 ?e0 "now 1"] by simp
  have d: "ed_document ?e1 = ed_document e" by simp
  obtain a e' where r: "run_command R (now 0) cmd ?e1 = (Ok a, e')" "idle R t0 e'"
    "buf_revision (ed_document e') \<le> Suc (buf_revision (ed_document e))"
    using run_command_lands[OF i, of "now 0" cmd] d room by (auto simp: lands_def)
  then show ?thesis unfolding dispatch_def Let_def r(1) by (simp add: lands_def)
qed

end

end
