(* ===== verification/Editor_Ime_Facts.thy ===== *)
theory Editor_Ime_Facts
  imports Editor_Facts
begin

text \<open>
  Compositions under the editor's invariant: updates replace only the marked
  text, so the text underneath (\<open>base_text\<close>) never changes; a commit is one undo
  entry; a cancel restores text and selection as long as the delta window still
  reaches back to where the composition began.
\<close>

section \<open>Deltas and UTF-16 ranges\<close>

lemma transform_all_snoc:
  "transform_all (ds @ [d]) p bs = Option.bind (transform_all ds p bs) (\<lambda>q. transform_offset d q bs)"
  by (induction ds arbitrary: p) (auto split: option.splits)

lemma push_delta_nonempty: "history_inv d \<Longrightarrow> buf_deltas (push_delta d \<delta>) \<noteq> []"
  by (cases "buf_deltas d") (auto simp: push_delta_def history_inv_def Let_def)

text \<open>After a push, what is available since a revision is what was, and the new delta.\<close>

lemma deltas_since_push:
  assumes h: "history_inv d" and h': "history_inv d'"
    and rv: "buf_revision d' = Suc (buf_revision d)"
    and ds: "buf_deltas d' = buf_deltas (push_delta d \<delta>)" and le: "b \<le> buf_revision d"
    and ok: "deltas_since d' b = Ok ds'"
  shows "\<exists>ds. deltas_since d b = Ok ds \<and> ds' = ds @ [\<delta>]"
proof -
  let ?n = "length (buf_deltas d)" and ?c = "delta_capacity d"
  have n: "?n \<le> ?c" "?n \<le> buf_revision d" "0 < ?c" using h by (auto simp: history_inv_def)
  define k where "k = ?n + 1 - ?c"
  have k: "k \<le> 1" "k \<le> ?n" using n by (auto simp: k_def)
  have d': "buf_deltas d' = drop k (buf_deltas d @ [\<delta>])"
    using ds push_delta_deltas[OF n(1)] by (simp add: k_def)
  have len: "length (buf_deltas d') = ?n + 1 - k" using d' by simp
  have win: "buf_revision d' - length (buf_deltas d') = buf_revision d - ?n + k"
    using len k n rv by simp
  have in': "buf_revision d - ?n + k \<le> b" and dd: "ds' = drop (b - (buf_revision d - ?n + k)) (buf_deltas d')"
    using deltas_since_total[OF h', of b] ok win rv le by (auto split: if_splits)
  have "deltas_since d b = Ok (drop (b - (buf_revision d - ?n)) (buf_deltas d))"
    using deltas_since_total[OF h, of b] in' le by simp
  moreover have "ds' = drop (b - (buf_revision d - ?n)) (buf_deltas d @ [\<delta>])"
    unfolding dd d' drop_drop using in' by (simp add: add.commute del: drop_append)
  moreover have "b - (buf_revision d - ?n) \<le> ?n" using le n by simp
  ultimately show ?thesis by simp
qed

lemma utf16_loops_agree: "utf16_offset_to_byte_loop cs off u b = utf16_to_byte_loop cs off u b"
  by (induction cs off u b rule: utf16_to_byte_loop.induct) auto

lemma utf16_loop_ge: "b \<le> utf16_to_byte_loop cs off u b"
  using utf16_to_byte_loop_boundary[of cs off u b] by auto

lemma utf16_loop_mono: "x \<le> y \<Longrightarrow> utf16_to_byte_loop cs x u b \<le> utf16_to_byte_loop cs y u b"
proof (induction cs x u b rule: utf16_to_byte_loop.induct)
  case (2 ch cs off u b)
  show ?case
  proof (cases "u \<ge> off \<or> off < u + len_utf16 ch")
    case True
    then show ?thesis using utf16_loop_ge[of b "ch # cs" y u] by auto
  next
    case False
    then show ?thesis using 2 by auto
  qed
qed simp

lemma relative_boundary:
  "is_boundary t (fst (utf16_range_to_byte t r))" "is_boundary t (snd (utf16_range_to_byte t r))"
  using utf16_to_byte_loop_boundary[of t "fst r" 0 0] utf16_to_byte_loop_boundary[of t "snd r" 0 0]
  by (auto simp: utf16_range_to_byte_def utf16_loops_agree is_boundaryI)

context ropey
begin

lemma utf16_range_valid:
  assumes "fst r \<le> snd r"
  shows "utf16_range_to_source R e r =
      Ok (source_range_new (utf16_to_byte R (ed_document e) (fst r)) (utf16_to_byte R (ed_document e) (snd r)))"
    and "valid_range R (ed_document e)
      (source_range_new (utf16_to_byte R (ed_document e) (fst r)) (utf16_to_byte R (ed_document e) (snd r)))"
proof -
  let ?d = "ed_document e"
  have le: "utf16_to_byte R ?d (fst r) \<le> utf16_to_byte R ?d (snd r)"
    using utf16_loop_mono[OF assms] by (simp add: utf16_to_byte_def)
  show v: "valid_range R ?d (source_range_new (utf16_to_byte R ?d (fst r)) (utf16_to_byte R ?d (snd r)))"
    using le utf16_to_byte_boundary by (simp add: valid_range_def)
  then show "utf16_range_to_source R e r =
      Ok (source_range_new (utf16_to_byte R ?d (fst r)) (utf16_to_byte R ?d (snd r)))"
    by (simp add: utf16_range_to_source_def Let_def)
qed

end

section \<open>Starting and updating a composition\<close>

text \<open>The replacement range of a call, where it must be given in order.\<close>

definition replacement_ok :: "(nat \<times> nat) option \<Rightarrow> bool" where
  "replacement_ok r \<longleftrightarrow> (case r of None \<Rightarrow> True | Some (a, b) \<Rightarrow> a \<le> b)"


text \<open>What holds of a composition just before its text is replaced.\<close>

definition ime_ready :: "('r, 'z) rope_api_scheme \<Rightarrow> 'r rope_buffer \<Rightarrow> ime_state \<Rightarrow> bool" where
  "ime_ready R d ime \<longleftrightarrow>
     valid_range R d (ime_current_range ime) \<and>
     range_start (ime_original_range ime) = range_start (ime_current_range ime) \<and>
     ime_start_anchor ime = \<lparr>anchor_offset = range_start (ime_original_range ime), anchor_bias = Before\<rparr> \<and>
     ime_end_anchor ime = \<lparr>anchor_offset = range_end (ime_original_range ime), anchor_bias = After\<rparr> \<and>
     sel_ok (splice (full_text R d) (range_start (ime_current_range ime))
               (range_end (ime_current_range ime)) (ime_original_text ime)) (ime_original_selection ime) \<and>
     ime_base_revision ime \<le> buf_revision d \<and>
     (\<forall>ds. deltas_since d (ime_base_revision ime) = Ok ds \<longrightarrow>
        transform_all ds (range_start (ime_original_range ime)) Before = Some (range_start (ime_current_range ime)) \<and>
        transform_all ds (range_end (ime_original_range ime)) After = Some (range_end (ime_current_range ime)))"

lemma ime_ok_ready: "ime_ok R d ime \<Longrightarrow> ime_ready R d ime"
  unfolding ime_ok_def ime_ready_def by (elim conjE, intro conjI) (assumption | erule less_imp_le)+

context ropey
begin

lemma splice_own_text:
  assumes "is_boundary s a" "is_boundary s b" "a \<le> b"
  shows "splice s a b (byte_slice s a b) = s"
  by (rule boundary_range_split[OF assms]) simp

lemma ime_begin_Ok:
  assumes v: "valid_range R (ed_document e) rg" and sel: "sel_ok (full_text R (ed_document e)) (ed_selection e)"
  shows "\<exists>ime. ime_begin R e tid rg = Ok ime \<and> ime_ready R (ed_document e) ime \<and>
    ime_current_range ime = rg \<and> ime_original_text ime = byte_slice (full_text R (ed_document e)) (range_start rg) (range_end rg) \<and>
    ime_original_selection ime = ed_selection e \<and> ime_base_revision ime = buf_revision (ed_document e)"
proof -
  let ?s = "full_text R (ed_document e)"
  have bd: "is_boundary ?s (range_start rg)" "is_boundary ?s (range_end rg)" "range_start rg \<le> range_end rg"
    using v by (simp_all add: valid_range_def)
  have t: "buf_text R (ed_document e) rg = Ok (byte_slice ?s (range_start rg) (range_end rg))"
    using v by (rule buf_text_Ok)
  show ?thesis
    using v bd sel splice_own_text[OF bd] t
    by (simp add: ime_begin_def make_anchor_def ime_ready_def deltas_since_def)
qed

lemma transform_end_after:
  assumes "range_start rg \<le> range_end rg" and "range_start rg + n < u64_bound"
  shows "transform_offset (delta_of rv rg n) (range_end rg) After = Some (range_start rg + n)"
proof (cases "range_start rg = range_end rg")
  case True
  then show ?thesis by (subst transform_offset_inside) auto
next
  case False
  then have "range_end rg - range_len rg + n = range_start rg + n" using assms(1) by (simp add: range_len_def)
  then show ?thesis using False assms transform_offset_after[of rg "range_end rg" n rv After] by simp
qed

text \<open>Replacing the text of a composition keeps it well-formed and its base text.\<close>

lemma ime_update_ok:
  fixes selected :: "nat \<times> nat"
  assumes inv: "buffer_inv R d" and inv': "buffer_inv R d'" and ready: "ime_ready R d ime"
    and s': "full_text R d' = splice (full_text R d) (range_start (ime_current_range ime)) (range_end (ime_current_range ime)) t"
    and rv: "buf_revision d' = Suc (buf_revision d)"
    and ds: "buf_deltas d' = buf_deltas (push_delta d (delta_of (buf_revision d) (ime_current_range ime) (str_len t)))"
    and room: "range_start (ime_current_range ime) + str_len t < u64_bound"
  defines "ime' \<equiv> ime_update (summary_of (buf_revision d) (full_text R d) (ime_current_range ime) t) t selected ime"
  shows "ime_ok R d' ime'"
    and "splice (full_text R d') (range_start (ime_current_range ime')) (range_end (ime_current_range ime'))
          (ime_original_text ime') =
         splice (full_text R d) (range_start (ime_current_range ime)) (range_end (ime_current_range ime))
          (ime_original_text ime)"
proof -
  let ?s = "full_text R d" and ?c = "ime_current_range ime"
  have bd: "is_boundary ?s (range_start ?c)" "is_boundary ?s (range_end ?c)" "range_start ?c \<le> range_end ?c"
    using ready by (simp_all add: ime_ready_def valid_range_def)
  obtain p m q where s: "?s = p @ m @ q" "range_start ?c = str_len p" "range_end ?c = str_len p + str_len m"
    by (rule boundary_range_split[OF bd])
  have s2: "full_text R d' = p @ t @ q" using s' s by simp
  have c': "ime_current_range ime' = source_range_new (str_len p) (str_len p + str_len t)"
    "ime_original_text ime' = ime_original_text ime" "ime_marked_text ime' = t"
    "ime_base_revision ime' = ime_base_revision ime" "ime_expected_revision ime' = Suc (buf_revision d)"
    "ime_original_range ime' = ime_original_range ime" "ime_start_anchor ime' = ime_start_anchor ime"
    "ime_end_anchor ime' = ime_end_anchor ime" "ime_original_selection ime' = ime_original_selection ime"
    using s by (simp_all add: ime'_def ime_update_def)
  show same: "splice (full_text R d') (range_start (ime_current_range ime')) (range_end (ime_current_range ime'))
      (ime_original_text ime') = splice ?s (range_start ?c) (range_end ?c) (ime_original_text ime)"
    using s s2 c' by simp
  have v: "valid_range R d' (ime_current_range ime')"
    using is_boundary_prefix[of p "t @ q"] is_boundary_prefix[of "p @ t" q] s2 c' by (simp add: valid_range_def)
  have win: "transform_all ds' (range_start (ime_original_range ime)) Before = Some (str_len p) \<and>
      transform_all ds' (range_end (ime_original_range ime)) After = Some (str_len p + str_len t)"
    if "deltas_since d' (ime_base_revision ime) = Ok ds'" for ds'
  proof -
    have hi: "history_inv d" "history_inv d'" using inv inv' by (simp_all add: buffer_inv_def)
    have le: "ime_base_revision ime \<le> buf_revision d" using ready by (simp add: ime_ready_def)
    note deltas = that
    obtain ds0 where ds0: "deltas_since d (ime_base_revision ime) = Ok ds0"
      "ds' = ds0 @ [delta_of (buf_revision d) ?c (str_len t)]"
      using deltas_since_push[OF hi rv ds le deltas] by blast
    have "transform_all ds0 (range_start (ime_original_range ime)) Before = Some (range_start ?c)"
      "transform_all ds0 (range_end (ime_original_range ime)) After = Some (range_end ?c)"
      using ready ds0(1) unfolding ime_ready_def by blast+
    then show ?thesis
      using transform_end_after[OF bd(3) room] transform_offset_before[of "range_start ?c" ?c Before] s(2)
      by (simp add: ds0(2) transform_all_snoc)
  qed
  show "ime_ok R d' ime'"
    using ready v same win rv s2 c' s(2)
    unfolding ime_ok_def ime_ready_def by simp
qed

lemma replacement_source:
  assumes "replacement_ok r" and "sel_ok (full_text R (ed_document e)) (ed_selection e)"
  shows "\<exists>rg. (case r of Some u \<Rightarrow> utf16_range_to_source R e u | None \<Rightarrow> Ok (sel_range (ed_selection e))) = Ok rg \<and>
    valid_range R (ed_document e) rg"
  using assms utf16_range_valid[of "the r" e] sel_valid_range
  by (cases r) (auto simp: replacement_ok_def)

text \<open>The range a composition update replaces, with the composition it belongs to.\<close>

lemma composition_target_Ok:
  assumes e: "editor_inv R t0 e" and r: "replacement_ok r"
  shows "\<exists>rg ime tid. composition_target R r e =
      (Ok rg, e\<lparr>ed_ime := Some ime, ed_next_transaction := tid\<rparr>) \<and>
    ime_ready R (ed_document e) ime \<and> ime_current_range ime = rg \<and>
    splice (full_text R (ed_document e)) (range_start rg) (range_end rg) (ime_original_text ime) = base_text R e \<and>
    (ed_ime e = None \<longrightarrow> ime_original_selection ime = ed_selection e \<and>
      ime_base_revision ime = buf_revision (ed_document e)) \<and>
    (\<forall>i. ed_ime e = Some i \<longrightarrow> ime_original_selection ime = ime_original_selection i \<and>
      ime_base_revision ime = ime_base_revision i)"
proof (cases "ed_ime e")
  case (Some i)
  then have "ime_ready R (ed_document e) i" using e ime_ok_ready by (auto simp: editor_inv_def)
  then show ?thesis
    using Some by (intro exI[of _ "ime_current_range i"] exI[of _ i] exI[of _ "ed_next_transaction e"])
      (simp add: composition_target_def base_text_def)
next
  case None
  let ?s = "full_text R (ed_document e)"
  have sel: "sel_ok ?s (ed_selection e)" using e by (simp add: editor_inv_def)
  obtain rg where rg: "(case r of Some u \<Rightarrow> utf16_range_to_source R e u | None \<Rightarrow> Ok (sel_range (ed_selection e))) = Ok rg"
    "valid_range R (ed_document e) rg"
    using replacement_source[OF r sel] by blast
  let ?e = "e\<lparr>ed_next_transaction := ed_next_transaction e + 1\<rparr>"
  obtain ime where ime: "ime_begin R ?e (ed_next_transaction e) rg = Ok ime" "ime_ready R (ed_document e) ime"
    "ime_current_range ime = rg" "ime_original_text ime = byte_slice ?s (range_start rg) (range_end rg)"
    "ime_original_selection ime = ed_selection e" "ime_base_revision ime = buf_revision (ed_document e)"
    using ime_begin_Ok[of ?e rg] rg(2) sel by auto
  have "splice ?s (range_start rg) (range_end rg) (ime_original_text ime) = base_text R e"
    using rg(2) None splice_own_text[of ?s "range_start rg" "range_end rg"] ime(4)
    by (simp add: valid_range_def base_text_def)
  then show ?thesis
    using None rg(1) ime
    by (intro exI[of _ rg] exI[of _ ime] exI[of _ "ed_next_transaction e + 1"])
      (simp add: composition_target_def query_def Let_def)
qed

lemma replace_and_mark_Ok:
  assumes e: "editor_inv R t0 e" and r: "replacement_ok r"
    and room: "buf_revision (ed_document e) + 1 < u64_bound"
    and small: "str_len (full_text R (ed_document e)) + str_len t < u64_bound"
  shows "\<exists>sm e' ime. replace_and_mark_text R now r t selected e = (Ok sm, e') \<and> editor_inv R t0 e' \<and>
    ed_ime e' = Some ime \<and> ime_marked_text ime = t \<and> base_text R e' = base_text R e \<and>
    buf_revision (ed_document e') = Suc (buf_revision (ed_document e)) \<and>
    (ed_ime e = None \<longrightarrow> ime_original_selection ime = ed_selection e \<and>
      ime_base_revision ime = buf_revision (ed_document e)) \<and>
    (\<forall>i. ed_ime e = Some i \<longrightarrow> ime_original_selection ime = ime_original_selection i \<and>
      ime_base_revision ime = ime_base_revision i) \<and>
    ed_history e' = ed_history e \<and> buf_deltas (ed_document e') \<noteq> [] \<and>
    delta_capacity (ed_document e') = delta_capacity (ed_document e) \<and>
    str_len (full_text R (ed_document e')) \<le> str_len (full_text R (ed_document e)) + str_len t"
proof -
  let ?e0 = "e\<lparr>ed_preferred_column := None\<rparr>" and ?d = "ed_document e" and ?s = "full_text R (ed_document e)"
  have e0: "editor_inv R t0 ?e0" using e by simp
  have bt: "base_text R ?e0 = base_text R e" by (cases "ed_ime e") (simp_all add: base_text_def)
  obtain rg ime tid where tgt: "composition_target R r ?e0 =
      (Ok rg, ?e0\<lparr>ed_ime := Some ime, ed_next_transaction := tid\<rparr>)"
    and ready: "ime_ready R ?d ime" and rg: "ime_current_range ime = rg"
    and base: "splice ?s (range_start rg) (range_end rg) (ime_original_text ime) = base_text R e"
    and os: "ed_ime e = None \<longrightarrow> ime_original_selection ime = ed_selection e \<and>
        ime_base_revision ime = buf_revision (ed_document e)"
      "\<forall>i. ed_ime e = Some i \<longrightarrow> ime_original_selection ime = ime_original_selection i \<and>
        ime_base_revision ime = ime_base_revision i"
    using composition_target_Ok[OF e0 r] bt by auto
  let ?e1 = "?e0\<lparr>ed_ime := Some ime, ed_next_transaction := tid\<rparr>"
  have inv: "buffer_inv R (ed_document ?e1)" using e by (simp add: editor_inv_def)
  have v: "valid_range R (ed_document ?e1) rg" using ready rg by (simp add: ime_ready_def)
  then have bd: "is_boundary ?s (range_start rg)" "is_boundary ?s (range_end rg)" "range_start rg \<le> range_end rg"
    by (simp_all add: valid_range_def)
  obtain d' where d': "on_document (buf_edit R rg t) ?e1 =
      (Ok (summary_of (buf_revision ?d) ?s rg t), ?e1\<lparr>ed_document := d'\<rparr>)" "buffer_inv R d'"
    "full_text R d' = splice ?s (range_start rg) (range_end rg) t" "buf_revision d' = Suc (buf_revision ?d)"
    "buf_deltas d' = buf_deltas (push_delta ?d (delta_of (buf_revision ?d) rg (str_len t)))"
    "delta_capacity d' = delta_capacity ?d"
    using on_document_edit[OF inv v, of t] room by auto
  define sel where "sel = (case selected of Some s \<Rightarrow> s | None \<Rightarrow> (utf16_len t, utf16_len t))"
  define ime' where "ime' = ime_update (summary_of (buf_revision ?d) ?s rg t) t sel ime"
  have small': "range_start rg + str_len t < u64_bound" using small is_boundary_le[OF bd(1)] by simp
  note upd = ime_update_ok[OF _ d'(2) ready, unfolded rg, OF _ d'(3,4,5) small', of sel, folded ime'_def]
  have ok: "ime_ok R d' ime'"
    and same: "splice (full_text R d') (range_start (ime_current_range ime')) (range_end (ime_current_range ime'))
      (ime_original_text ime') = base_text R e"
    using upd e base by (simp_all add: editor_inv_def)
  define new_sel where "new_sel = \<lparr>sel_anchor = range_start rg + fst (utf16_range_to_byte t sel),
    sel_active = range_start rg + snd (utf16_range_to_byte t sel)\<rparr>"
  have sok: "sel_ok (full_text R d') new_sel"
    unfolding d'(3) using splice_end_boundary[OF bd] relative_boundary by (simp add: sel_ok_def new_sel_def)
  define e2 where "e2 = ?e1\<lparr>ed_document := d', ed_ime := Some ime', ed_selection := new_sel\<rparr>"
  have run: "replace_and_mark_text R now r t selected e =
      (Ok (summary_of (buf_revision ?d) ?s rg t), record_model_update (now 0) (now 1) ImeComposition e2)"
    unfolding replace_and_mark_text_def Let_def tgt step_bind_simps d'(1)
    by (simp add: e2_def ime'_def sel_def new_sel_def)
  have "editor_inv R t0 e2"
    using e ok d'(2) sok same by (simp add: editor_inv_def e2_def base_text_def)
  moreover have "base_text R (record_model_update (now 0) (now 1) ImeComposition e2) = base_text R e"
    using same by (simp add: base_text_def e2_def)
  moreover have "ime_marked_text ime' = t" "ime_original_selection ime' = ime_original_selection ime"
    "ime_base_revision ime' = ime_base_revision ime"
    by (simp_all add: ime'_def ime_update_def)
  moreover have "str_len (full_text R d') \<le> str_len ?s + str_len t"
    unfolding d'(3) using str_len_splice[OF bd, of t] by simp
  moreover have "buf_deltas d' \<noteq> []"
    using push_delta_nonempty[of ?d] e d'(5) by (simp add: editor_inv_def buffer_inv_def)
  ultimately show ?thesis
    using run d'(4,6) os by (auto simp: e2_def)
qed

section \<open>Ending a composition\<close>

lemma commit_text_Ok:
  assumes e: "editor_inv R t0 e" and r: "replacement_ok r"
    and room: "buf_revision (ed_document e) + 1 < u64_bound"
  shows "\<exists>sm e'. commit_text R now r t e = (Ok sm, e') \<and> idle R t0 e' \<and>
    buf_revision (ed_document e') = Suc (buf_revision (ed_document e)) \<and>
    (\<forall>ime. ed_ime e = Some ime \<longrightarrow>
      (\<exists>en. ed_history e' = \<lparr>undo_stack = undo_stack (ed_history e) @ [en], redo_stack = [], can_merge_last = False\<rparr> \<and>
        text_undo en (full_text R (ed_document e')) = Some (base_text R e) \<and>
        entry_before en = ime_original_selection ime \<and> entry_inserted en = t))"
proof -
  let ?d = "ed_document e" and ?s = "full_text R (ed_document e)"
  have inv: "buffer_inv R ?d" and sel: "sel_ok ?s (ed_selection e)" and rw: "rw_inv (ed_measurements e)"
    and h: "hist_ok t0 (base_text R e) (ed_history e)"
    using e by (simp_all add: editor_inv_def)
  obtain rg where rg: "(case ed_ime e of Some ime \<Rightarrow> Ok (ime_current_range ime)
      | None \<Rightarrow> (case r of Some u \<Rightarrow> utf16_range_to_source R (e\<lparr>ed_preferred_column := None\<rparr>) u
               | None \<Rightarrow> Ok (sel_range (ed_selection e)))) = Ok rg" "valid_range R ?d rg"
  proof (cases "ed_ime e")
    case None
    obtain rg where rg: "(case r of Some u \<Rightarrow> utf16_range_to_source R (e\<lparr>ed_preferred_column := None\<rparr>) u
        | None \<Rightarrow> Ok (sel_range (ed_selection (e\<lparr>ed_preferred_column := None\<rparr>)))) = Ok rg" "valid_range R ?d rg"
      using replacement_source[OF r, of "e\<lparr>ed_preferred_column := None\<rparr>"] sel by auto
    then show ?thesis using that[of rg] None by (cases r) simp_all
  next
    case (Some ime)
    then show ?thesis using that e by (auto simp: editor_inv_def ime_ok_def)
  qed
  then have bd: "is_boundary ?s (range_start rg)" "is_boundary ?s (range_end rg)" "range_start rg \<le> range_end rg"
    by (simp_all add: valid_range_def)
  let ?e1 = "e\<lparr>ed_preferred_column := None, ed_ime := None\<rparr>" and ?sm = "summary_of (buf_revision ?d) ?s rg t"
  obtain d' where d': "on_document (buf_edit R rg t) ?e1 = (Ok ?sm, ?e1\<lparr>ed_document := d'\<rparr>)" "buffer_inv R d'"
    "full_text R d' = splice ?s (range_start rg) (range_end rg) t" "buf_revision d' = Suc (buf_revision ?d)"
    using on_document_edit[of ?e1 rg t] inv rg(2) room by auto
  define c where "c = caret (range_start rg + str_len t)"
  have caret: "sel_ok (full_text R d') c"
    unfolding d'(3) c_def using splice_end_boundary[OF bd, of t "str_len t"] by simp
  define hs where "hs = (case ed_ime e of
      Some i \<Rightarrow> record_replacement (range_start (ime_original_range i)) (ime_original_text i) t
                 (ime_original_selection i) c KIme (now 1) (ed_history e)
    | None \<Rightarrow> history_record ?sm t (ed_selection e) c
                (if range_is_empty (sel_range (ed_selection e)) then KInsert else KReplace) (now 0) (ed_history e))"
  define e2 where "e2 = ?e1\<lparr>ed_document := d', ed_selection := c, ed_history := hs\<rparr>"
  have run: "commit_text R now r t e = (Ok ?sm, record_model_update (now 0) (now 2) ImeCommit e2)"
    using rg(1) d'(1) by (simp add: commit_text_def Let_def query_def e2_def hs_def c_def cong: option.case_cong)
  have hist: "hist_ok t0 (full_text R d') hs \<and> (\<forall>ime. ed_ime e = Some ime \<longrightarrow>
      (\<exists>en. hs = \<lparr>undo_stack = undo_stack (ed_history e) @ [en], redo_stack = [], can_merge_last = False\<rparr> \<and>
        text_undo en (full_text R d') = Some (base_text R e) \<and>
        entry_before en = ime_original_selection ime \<and> entry_inserted en = t))"
  proof (cases "ed_ime e")
    case None
    then have "hist_ok t0 ?s (ed_history e)" using h by (simp add: base_text_def)
    then have "hist_ok t0 (full_text R d') hs"
      using sel caret None entry_of_edit[OF bd] d'(3)
      by (auto simp: hs_def intro!: hist_ok_record)
    then show ?thesis using None by simp
  next
    case (Some i)
    have ok: "ime_ok R ?d i" using e Some by (simp add: editor_inv_def)
    have rgi: "rg = ime_current_range i" using rg(1) Some by simp
    obtain p m q where s: "?s = p @ m @ q" "range_start rg = str_len p" "range_end rg = str_len p + str_len m"
      by (rule boundary_range_split[OF bd])
    have bt: "base_text R e = p @ ime_original_text i @ q" using Some s rgi by (simp add: base_text_def)
    have s2: "full_text R d' = p @ t @ q" using d'(3) s by simp
    have os: "sel_ok (base_text R e) (ime_original_selection i)" "range_start (ime_original_range i) = str_len p"
      using ok Some s(2) rgi by (simp_all add: ime_ok_def base_text_def)
    let ?en = "\<lparr>entry_start = range_start (ime_original_range i), entry_deleted = ime_original_text i,
      entry_inserted = t, entry_before = ime_original_selection i, entry_after = c,
      entry_kind = KIme, last_edit_at = now 1\<rparr>"
    have "text_undo ?en (full_text R d') = Some (base_text R e)"
      using os caret s2 bt by (intro text_undoI[of _ p _ q]) simp_all
    moreover have "hist_ok t0 (full_text R d') hs"
      using Some os caret s2 bt by (auto simp: hs_def intro!: hist_ok_replacement[OF h])
    ultimately show ?thesis using Some by (simp add: hs_def record_replacement_def)
  qed
  have "idle R t0 e2" using hist caret rw d'(2) by (simp add: idle_iff e2_def)
  then show ?thesis using run hist d'(4) by (simp add: e2_def)
qed

text \<open>Cancelling restores the text underneath and the selection the composition began with.\<close>

lemma cancel_composition_Ok:
  assumes e: "editor_inv R t0 e" and ime: "ed_ime e = Some ime"
    and win: "buf_revision (ed_document e) - length (buf_deltas (ed_document e)) \<le> ime_base_revision ime"
    and room: "buf_revision (ed_document e) + 1 < u64_bound"
  shows "\<exists>e'. cancel_composition R e = (Ok Restored, e') \<and> idle R t0 e' \<and>
    full_text R (ed_document e') = base_text R e \<and> ed_selection e' = ime_original_selection ime \<and>
    buf_revision (ed_document e') = Suc (buf_revision (ed_document e)) \<and> ed_history e' = ed_history e"
proof -
  let ?d = "ed_document e" and ?c = "ime_current_range ime"
  have inv: "buffer_inv R ?d" and ok: "ime_ok R ?d ime" and rw: "rw_inv (ed_measurements e)"
    and h: "hist_ok t0 (base_text R e) (ed_history e)"
    using e ime by (simp_all add: editor_inv_def)
  have hi: "history_inv ?d" using inv by (simp add: buffer_inv_def)
  have lt: "ime_base_revision ime < buf_revision ?d" using ok by (simp add: ime_ok_def)
  obtain ds where ds: "deltas_since ?d (ime_base_revision ime) = Ok ds"
    using deltas_since_total[OF hi] win lt by (auto split: if_splits)
  have tr: "transform_all ds (range_start (ime_original_range ime)) Before = Some (range_start ?c)"
    "transform_all ds (range_end (ime_original_range ime)) After = Some (range_end ?c)"
    using ok ds unfolding ime_ok_def by blast+
  have v: "valid_range R ?d ?c" using ok by (simp add: ime_ok_def)
  have anchors: "ime_start_anchor ime = \<lparr>anchor_offset = range_start (ime_original_range ime), anchor_bias = Before\<rparr>"
    "ime_end_anchor ime = \<lparr>anchor_offset = range_end (ime_original_range ime), anchor_bias = After\<rparr>"
    "ime_expected_revision ime = buf_revision ?d"
    using ok unfolding ime_ok_def by blast+
  have res: "resolve_anchor R ?d (ime_start_anchor ime) (ime_base_revision ime) = Ok (range_start ?c)"
    "resolve_anchor R ?d (ime_end_anchor ime) (ime_base_revision ime) = Ok (range_end ?c)"
    using ds tr v lt anchors by (simp_all add: resolve_anchor_def valid_range_def)
  let ?e1 = "e\<lparr>ed_ime := None\<rparr>"
  obtain d' where d': "on_document (buf_edit R ?c (ime_original_text ime)) ?e1 =
      (Ok (summary_of (buf_revision ?d) (full_text R ?d) ?c (ime_original_text ime)), ?e1\<lparr>ed_document := d'\<rparr>)"
    "buffer_inv R d'" "full_text R d' = splice (full_text R ?d) (range_start ?c) (range_end ?c) (ime_original_text ime)"
    "buf_revision d' = Suc (buf_revision ?d)"
    using on_document_edit[of ?e1 ?c "ime_original_text ime"] inv v room by auto
  define e' where "e' = ?e1\<lparr>ed_document := d', ed_selection := ime_original_selection ime, ed_preferred_column := None\<rparr>"
  have run: "cancel_composition R e = (Ok Restored, e')"
    using ime res anchors d'(1) by (simp add: cancel_composition_def query_def e'_def)
  have bt: "base_text R e = full_text R d'" using ime d'(3) by (simp add: base_text_def)
  have "sel_ok (full_text R d') (ime_original_selection ime)" using ok d'(3) by (simp add: ime_ok_def)
  then have "idle R t0 e'" using h bt rw d'(2) by (simp add: idle_iff e'_def)
  then show ?thesis using run bt d'(4) by (simp add: e'_def)
qed

text \<open>A composition older than the delta window cannot be cancelled: it is dropped unrecorded.\<close>

lemma cancel_composition_lost:
  assumes e: "editor_inv R t0 e" and ime: "ed_ime e = Some ime"
    and lost: "ime_base_revision ime < buf_revision (ed_document e) - length (buf_deltas (ed_document e))"
  shows "cancel_composition R e =
    (Err (RevisionHistoryUnavailable (ime_base_revision ime) (buf_revision (ed_document e))), e\<lparr>ed_ime := None\<rparr>)"
proof -
  let ?d = "ed_document e"
  have hi: "history_inv ?d" using e by (simp add: editor_inv_def buffer_inv_def)
  have exp: "ime_expected_revision ime = buf_revision ?d" "ime_base_revision ime \<noteq> buf_revision ?d"
    using e ime by (auto simp: editor_inv_def ime_ok_def)
  have "deltas_since ?d (ime_base_revision ime) =
      Err (RevisionHistoryUnavailable (ime_base_revision ime) (buf_revision ?d))"
    using deltas_since_total[OF hi, of "ime_base_revision ime"] lost by auto
  then show ?thesis
    using ime exp by (simp add: cancel_composition_def resolve_anchor_def query_def)
qed

section \<open>Selections and caller-planned edits\<close>

lemma set_selection_Ok:
  assumes e: "editor_inv R t0 e"
  shows "if sel_ok (full_text R (ed_document e)) sel
    then \<exists>e'. set_selection R now sel e = (Ok (), e') \<and> idle R t0 e' \<and> ed_selection e' = sel \<and>
      ed_document e' = ed_document e \<and> ed_preferred_column e' = None \<and> ed_preferred_x e' = None
    else \<exists>er. set_selection R now sel e = (Err er, commit_composition now (break_undo_group e))"
proof -
  let ?e = "commit_composition now (break_undo_group e)"
  have i: "idle R t0 ?e" using commit_composition_idle[of R t0 "break_undo_group e" now] e by simp
  show ?thesis
  proof (cases "sel_ok (full_text R (ed_document e)) sel")
    case True
    then have "idle R t0 (?e\<lparr>ed_selection := sel\<rparr>)" using idle_select[OF i, of sel] by simp
    then show ?thesis
      using True by (simp add: set_selection_def query_def Let_def sel_ok_def clear_preferred_def idle_iff)
  next
    case False
    then show ?thesis
      by (auto simp: set_selection_def query_def Let_def sel_ok_def validate_offset_eq)
  qed
qed

lemma move_vertical_to_Ok:
  assumes e: "editor_inv R t0 e" and p: "is_boundary (full_text R (ed_document e)) p"
  shows "\<exists>e'. move_vertical_to R now p extending x e = (Ok (), e') \<and> idle R t0 e' \<and>
    sel_active (ed_selection e') = p \<and> ed_preferred_x e' = Some x"
proof -
  let ?e = "commit_composition now (break_undo_group e)"
  have i: "idle R t0 ?e" using commit_composition_idle[of R t0 "break_undo_group e" now] e by simp
  have "idle R t0 (move_to p extending ?e)" using idle_move_to[OF i, of p] p by simp
  then show ?thesis
    using p by (simp add: move_vertical_to_def query_def Let_def idle_iff) (simp add: move_to_def)
qed

lemma replace_range_recorded_Ok:
  assumes e: "editor_inv R t0 e" and v: "valid_range R (ed_document e) rg"
    and sa: "sel_ok (splice (full_text R (ed_document e)) (range_start rg) (range_end rg) t) sel_after"
    and room: "buf_revision (ed_document e) + 1 < u64_bound"
  shows "\<exists>sm e' en. replace_range_recorded R now rg t sel_after e = (Ok sm, e') \<and> idle R t0 e' \<and>
    full_text R (ed_document e') = splice (full_text R (ed_document e)) (range_start rg) (range_end rg) t \<and>
    ed_selection e' = sel_after \<and> buf_revision (ed_document e') = Suc (buf_revision (ed_document e)) \<and>
    (\<exists>us. undo_stack (ed_history e') = us @ [en]) \<and>
    text_undo en (full_text R (ed_document e')) = Some (full_text R (ed_document e)) \<and>
    entry_before en = ed_selection e \<and> can_merge_last (ed_history e') = False"
proof -
  let ?e = "commit_composition (now 0) (break_undo_group e)" and ?s = "full_text R (ed_document e)"
  have i: "idle R t0 ?e" using commit_composition_idle[of R t0 "break_undo_group e" "now 0"] e by simp
  have bd: "is_boundary ?s (range_start rg)" "is_boundary ?s (range_end rg)" "range_start rg \<le> range_end rg"
    using v by (simp_all add: valid_range_def)
  have inv: "buffer_inv R (ed_document ?e)" using i by (simp add: idle_iff)
  obtain d' where d': "on_document (buf_edit R rg t) ?e =
      (Ok (summary_of (buf_revision (ed_document e)) ?s rg t), ?e\<lparr>ed_document := d'\<rparr>)" "buffer_inv R d'"
    "full_text R d' = splice ?s (range_start rg) (range_end rg) t" "buf_revision d' = Suc (buf_revision (ed_document e))"
    using on_document_edit[of ?e rg t] inv v room by auto
  obtain p m q where s: "?s = p @ m @ q" "range_start rg = str_len p" "range_end rg = str_len p + str_len m"
    by (rule boundary_range_split[OF bd])
  have s2: "full_text R d' = p @ t @ q" and del: "byte_slice ?s (range_start rg) (range_end rg) = m"
    using d'(3) s by simp_all
  have len: "len_bytes R (ed_document e) - range_len rg + str_len t = str_len (full_text R d')"
    using s s2 by (simp add: len_bytes_eq range_len_def)
  have in_range: "\<not> sel_anchor sel_after > str_len (full_text R d')" "\<not> sel_active sel_after > str_len (full_text R d')"
    using sa d'(3) is_boundary_le by (auto simp: sel_ok_def not_less)
  define en where "en = \<lparr>entry_start = range_start rg, entry_deleted = m, entry_inserted = t,
    entry_before = ed_selection e, entry_after = sel_after, entry_kind = KReplace, last_edit_at = now 2\<rparr>"
  define e2 where "e2 = (clear_preferred (?e\<lparr>ed_document := d', ed_selection := sel_after\<rparr>))\<lparr>ed_history :=
    record_replacement (range_start rg) m t (ed_selection e) sel_after KReplace (now 2) (ed_history ?e)\<rparr>"
  have run: "replace_range_recorded R now rg t sel_after e =
      (Ok (summary_of (buf_revision (ed_document e)) ?s rg t), record_model_update (now 1) (now 3) Command e2)"
    using v d'(1) in_range
    by (simp add: replace_range_recorded_def query_def Let_def len del e2_def clear_preferred_def)
  have sel: "sel_ok ?s (ed_selection e)" using e by (simp add: editor_inv_def)
  have "hist_ok t0 (full_text R d') (ed_history e2)"
    using i sel sa s s2 d'(3)
    by (auto simp: e2_def idle_iff intro!: hist_ok_replacement)
  then have "idle R t0 e2" using i d'(2,3) sa by (simp add: idle_iff e2_def clear_preferred_def)
  moreover have "text_undo en (full_text R d') = Some ?s"
    using s s2 sel sa d'(3) by (intro text_undoI[of _ p _ q]) (simp_all add: en_def)
  moreover have "undo_stack (ed_history e2) = undo_stack (ed_history ?e) @ [en]" "can_merge_last (ed_history e2) = False"
    by (simp_all add: e2_def record_replacement_def en_def)
  ultimately show ?thesis
    using run d'(3,4) by (auto simp: e2_def en_def clear_preferred_def)
qed

end

end
