(* ===== verification/Editor_Runs.thy ===== *)
theory Editor_Runs
  imports Editor_Ime_Facts
begin

text \<open>
  The editor as a state machine: \<open>editor_step\<close> is one call of its interface,
  \<open>editor_run R s n e\<close> says that \<open>e\<close> is reached from a new editor on \<open>s\<close> by \<open>n\<close>
  calls.  Callers hand in ordered UTF-16 ranges, plan edits whose selection lies
  on char boundaries of the new text, and cancel compositions within the delta
  window; every other argument is arbitrary.
\<close>

inductive editor_step :: "('r, 'z) text_env_scheme \<Rightarrow> 'r editor \<Rightarrow> 'r editor \<Rightarrow> bool"
  for E where
  step_dispatch: "editor_step E e (snd (dispatch E now cmd e))"
| step_set_selection: "editor_step E e (snd (set_selection E t sel e))"
| step_move_vertical_to: "editor_step E e (snd (move_vertical_to E t p extending x e))"
    if "is_boundary (full_text E (ed_document e)) p"
| step_replace_range: "editor_step E e (snd (replace_range_recorded E now rg t sel e))"
    if "valid_range E (ed_document e) rg"
      and "sel_ok (splice (full_text E (ed_document e)) (range_start rg) (range_end rg) t) sel"
| step_mark_text: "editor_step E e (snd (replace_and_mark_text E now r t selected e))"
    if "replacement_ok r" and "str_len (full_text E (ed_document e)) + str_len t < u64_bound"
| step_commit_text: "editor_step E e (snd (commit_text E now r t e))" if "replacement_ok r"
| step_commit_composition: "editor_step E e (commit_composition t e)"
| step_cancel: "editor_step E e (snd (cancel_composition E e))"
    if "\<forall>ime. ed_ime e = Some ime \<longrightarrow>
          buf_revision (ed_document e) - length (buf_deltas (ed_document e)) \<le> ime_base_revision ime"
| step_frame_painted: "editor_step E e (snd (mark_frame_painted t e))"

inductive editor_run :: "('r, 'z) text_env_scheme \<Rightarrow> str \<Rightarrow> nat \<Rightarrow> 'r editor \<Rightarrow> bool"
  for E s where
  run_new: "editor_run E s 0 (editor_new E s)"
| run_step: "editor_run E s (Suc n) e'" if "editor_run E s n e" and "editor_step E e e'"

inductive_cases editor_runE: "editor_run E s (Suc n) e"

text \<open>Pressing undo \<open>k\<close> times.\<close>

fun undo_times :: "('r, 'z) text_env_scheme \<Rightarrow> (nat \<Rightarrow> nat) \<Rightarrow> nat \<Rightarrow> 'r editor \<Rightarrow> 'r editor" where
  "undo_times E now 0 e = e"
| "undo_times E now (Suc k) e = undo_times E now k (snd (dispatch E now Undo e))"

lemma idle_inv: "idle R t0 e \<Longrightarrow> editor_inv R t0 e"
  by (simp add: idle_def)

lemma rw_inv_take_all: "rw_inv w \<Longrightarrow> rw_inv (snd (rw_take_all w))"
  by (simp add: rw_inv_def rw_take_all_def)

lemma frame_painted_inv: "editor_inv R t0 e \<Longrightarrow> editor_inv R t0 (snd (mark_frame_painted t e))"
  by (cases "ed_ime e")
    (simp_all add: editor_inv_def base_text_def mark_frame_painted_def rw_take_all_def rw_inv_def)

context text_segments
begin

lemma editor_new_idle: "idle R s (editor_new R s)"
  using buffer_inv_from_text[of s]
  by (simp add: idle_iff editor_new_def sel_ok_def rw_inv_def)

lemma set_selection_inv:
  assumes "editor_inv R t0 e"
  shows "idle R t0 (snd (set_selection R t sel e)) \<and> ed_document (snd (set_selection R t sel e)) = ed_document e"
  using set_selection_Ok[OF assms, of sel t] commit_composition_idle[of R t0 "break_undo_group e" t] assms
  by (auto split: if_splits)

lemma cancel_inactive: "ed_ime e = None \<Longrightarrow> cancel_composition R e = (Ok Inactive, e)"
  by (simp add: cancel_composition_def)

lemma editor_step_inv:
  assumes "editor_step R e e'" and "editor_inv R t0 e" and "buf_revision (ed_document e) + 1 < u64_bound"
  shows "editor_inv R t0 e' \<and> buf_revision (ed_document e') \<le> Suc (buf_revision (ed_document e))"
  using assms
proof cases
  case (step_dispatch now cmd)
  then show ?thesis using dispatch_lands[OF assms(2,3), of now cmd] by (auto simp: lands_def dest: idle_inv)
next
  case (step_set_selection t sel)
  then show ?thesis using set_selection_inv[OF assms(2), of t sel] by (auto intro: idle_inv)
next
  case (step_move_vertical_to p t extending x)
  let ?e = "commit_composition t (break_undo_group e)"
  have "ed_document (snd (move_vertical_to R t p extending x e)) = ed_document e"
    using step_move_vertical_to by (simp add: move_vertical_to_def query_def Let_def)
  then show ?thesis
    using move_vertical_to_Ok[OF assms(2), of p t extending x] step_move_vertical_to by (auto intro: idle_inv)
next
  case (step_replace_range rg t sel now)
  then show ?thesis
    using replace_range_recorded_Ok[OF assms(2) step_replace_range(2,3) assms(3), of now] by (fastforce intro: idle_inv)
next
  case (step_mark_text r t now selected)
  then show ?thesis
    using replace_and_mark_Ok[OF assms(2) step_mark_text(2) assms(3) step_mark_text(3), of now selected] by fastforce
next
  case (step_commit_text r now t)
  then show ?thesis
    using commit_text_Ok[OF assms(2) step_commit_text(2) assms(3), of now t] by (fastforce intro: idle_inv)
next
  case (step_commit_composition t)
  then show ?thesis using commit_composition_idle[OF assms(2), of t] by (simp add: idle_inv)
next
  case step_cancel
  then show ?thesis
    using cancel_composition_Ok[OF assms(2) _ _ assms(3)] cancel_inactive[of e] assms(2)
    by (cases "ed_ime e") (fastforce intro: idle_inv)+
next
  case (step_frame_painted t)
  then show ?thesis
    using frame_painted_inv[OF assms(2), of t] by (simp add: mark_frame_painted_def rw_take_all_def)
qed

lemma editor_run_inv:
  "editor_run R s n e \<Longrightarrow> n < u64_bound \<Longrightarrow>
   editor_inv R s e \<and> buf_revision (ed_document e) \<le> n"
proof (induction rule: editor_run.induct)
  case run_new
  then show ?case using idle_inv[OF editor_new_idle[of s]]
    by (auto simp: editor_new_def from_text_def from_rope_def)
next
  case (run_step n e e')
  then have "editor_inv R s e" "buf_revision (ed_document e) \<le> n" by auto
  then show ?case using editor_step_inv[OF run_step.hyps(2)] run_step.prems by fastforce
qed

section \<open>Undoing everything\<close>

lemma dispatch_undo_idle:
  assumes e: "idle R t0 e" and room: "buf_revision (ed_document e) + 1 < u64_bound"
    and us: "undo_stack (ed_history e) = us @ [en]"
  shows "\<exists>sm e'. dispatch R now Undo e = (Ok (Some sm), e') \<and> idle R t0 e' \<and>
    buf_revision (ed_document e') = Suc (buf_revision (ed_document e)) \<and>
    text_undo en (full_text R (ed_document e)) = Some (full_text R (ed_document e')) \<and>
    ed_selection e' = entry_before en \<and>
    ed_history e' = \<lparr>undo_stack = us, redo_stack = redo_stack (ed_history e) @ [en], can_merge_last = False\<rparr>"
proof -
  let ?e = "clear_preferred (break_undo_group e)"
  have i: "idle R t0 ?e" using e by simp
  have prep: "commit_composition t (break_undo_group e) = break_undo_group e" for t
    using e by (simp add: commit_composition_def idle_iff)
  have us': "undo_stack (ed_history ?e) = us @ [en]" and rs: "redo_stack (ed_history ?e) = redo_stack (ed_history e)"
    using us by (simp_all add: break_group_def)
  have room': "buf_revision (ed_document ?e) + 1 < u64_bound" using room by simp
  from undo_entry[OF i room' us'] rs show ?thesis
    by (auto simp: dispatch_def prep Let_def)
qed

lemma dispatch_redo_idle:
  assumes e: "idle R t0 e" and room: "buf_revision (ed_document e) + 1 < u64_bound"
    and rs: "redo_stack (ed_history e) = rs @ [en]"
  shows "\<exists>sm e'. dispatch R now Redo e = (Ok (Some sm), e') \<and> idle R t0 e' \<and>
    text_redo en (full_text R (ed_document e)) = Some (full_text R (ed_document e')) \<and>
    ed_selection e' = entry_after en \<and>
    ed_history e' = \<lparr>undo_stack = undo_stack (ed_history e) @ [en], redo_stack = rs, can_merge_last = False\<rparr>"
proof -
  let ?e = "clear_preferred (break_undo_group e)"
  have i: "idle R t0 ?e" using e by simp
  have prep: "commit_composition t (break_undo_group e) = break_undo_group e" for t
    using e by (simp add: commit_composition_def idle_iff)
  have rs': "redo_stack (ed_history ?e) = rs @ [en]" and us: "undo_stack (ed_history ?e) = undo_stack (ed_history e)"
    using rs by (simp_all add: break_group_def)
  have room': "buf_revision (ed_document ?e) + 1 < u64_bound" using room by simp
  from redo_entry[OF i room' rs'] us show ?thesis
    by (auto simp: dispatch_def prep Let_def)
qed

lemma undo_times_idle:
  "idle R t0 e \<Longrightarrow> length (undo_stack (ed_history e)) \<le> k \<Longrightarrow>
   buf_revision (ed_document e) + k < u64_bound \<Longrightarrow>
   full_text R (ed_document (undo_times R now k e)) = t0"
proof (induction k arbitrary: e)
  case 0
  then show ?case by (simp add: idle_iff hist_ok_def)
next
  case (Suc k)
  show ?case
  proof (cases "undo_stack (ed_history e)" rule: rev_cases)
    case Nil
    let ?e = "clear_preferred (break_undo_group e)"
    have prep: "commit_composition t (break_undo_group e) = break_undo_group e" for t
      using Suc.prems(1) by (simp add: commit_composition_def idle_iff)
    have "history_undo R (ed_history ?e, ed_document ?e) = (Ok None, (break_group (ed_history ?e), ed_document ?e))"
      using Nil by (intro history_undo_empty) (simp add: break_group_def)
    then have step: "snd (dispatch R now Undo e) = record_model_update (now 0) (now 2) Command (break_undo_group ?e)"
      by (simp add: dispatch_def prep Let_def editor_undo_def)
        (simp add: break_undo_group_def clear_preferred_def)
    then show ?thesis
      using Suc.IH[of "snd (dispatch R now Undo e)"] Suc.prems Nil by (simp add: break_group_def)
  next
    case (snoc us en)
    have room: "buf_revision (ed_document e) + 1 < u64_bound" using Suc.prems(3) by simp
    obtain e' where e': "snd (dispatch R now Undo e) = e'" "idle R t0 e'"
      "buf_revision (ed_document e') = Suc (buf_revision (ed_document e))" "undo_stack (ed_history e') = us"
      using dispatch_undo_idle[OF Suc.prems(1) room snoc, of now] by fastforce
    then show ?thesis using Suc.IH[OF e'(2)] Suc.prems(2,3) snoc by simp
  qed
qed

section \<open>What the editing commands do to the text\<close>

lemma prepared_idle:
  assumes "editor_inv R t0 e"
  shows "idle R t0 (clear_preferred (commit_composition t e))"
  using commit_composition_idle[OF assms] by simp

lemma dispatch_insert:
  assumes e: "editor_inv R t0 e" and room: "buf_revision (ed_document e) + 1 < u64_bound"
  shows "\<exists>sm e'. dispatch R now (Insert t) e = (Ok (Some sm), e') \<and>
    full_text R (ed_document e') = splice (full_text R (ed_document e))
      (range_start (sel_range (ed_selection e))) (range_end (sel_range (ed_selection e))) t \<and>
    ed_selection e' = caret (range_start (sel_range (ed_selection e)) + str_len t)"
proof -
  let ?e = "clear_preferred (commit_composition (now 1) e)"
  have i: "idle R t0 ?e" using prepared_idle[OF e] .
  have sb: "sel_ok (full_text R (ed_document ?e)) (ed_selection ?e)" using i by (simp add: idle_iff)
  from recorded_from_Ok[OF i sb, of t KInsert "now 0"] room show ?thesis
    by (auto simp: dispatch_def recorded_eq)
qed

lemma dispatch_backspace:
  assumes e: "editor_inv R t0 e" and room: "buf_revision (ed_document e) + 1 < u64_bound"
    and sel: "ed_selection e = caret p" and p: "0 < p"
  shows "\<exists>q sm e'. previous_grapheme R (ed_document e) p = Ok q \<and> q < p \<and>
    dispatch R now Backspace e = (Ok (Some sm), e') \<and>
    full_text R (ed_document e') = splice (full_text R (ed_document e)) q p [] \<and> ed_selection e' = caret q"
proof -
  let ?e = "clear_preferred (commit_composition (now 1) e)" and ?s = "full_text R (ed_document e)"
  have i: "idle R t0 ?e" using prepared_idle[OF e] .
  have pb: "is_boundary ?s p" using i sel by (simp add: idle_iff)
  obtain q where q: "previous_grapheme R (ed_document e) p = Ok q" "is_boundary ?s q" "q < p"
    using previous_grapheme_Ok[of "ed_document e" p] pb p i by (auto simp: idle_iff)
  let ?e1 = "?e\<lparr>ed_selection := \<lparr>sel_anchor = q, sel_active = p\<rparr>\<rparr>"
  have i1: "idle R t0 ?e1"
    using idle_select[OF i, of "\<lparr>sel_anchor = q, sel_active = p\<rparr>"] pb q(2) by (simp add: sel_ok_def)
  have room1: "buf_revision (ed_document ?e1) + 1 < u64_bound" using room by simp
  have sb1: "sel_ok (full_text R (ed_document ?e1)) (caret p)" using pb by simp
  have rg: "sel_range (ed_selection ?e1) = source_range_new q p" using q(3) by (simp add: sel_range_def)
  obtain sm e' where "replace_selection_recorded_from R [] (caret p) KBackspace (now 0) ?e1 = (Ok sm, e')"
    "full_text R (ed_document e') = splice ?s q p []" "ed_selection e' = caret q"
    using recorded_from_Ok[OF i1 sb1 room1, of "[]" KBackspace "now 0"] rg by auto
  then show ?thesis
    using q sel
    by (simp add: dispatch_def backspace_def query_def range_is_empty_def sel_range_def caret_def Let_def)
qed

text \<open>One undo and one redo lead back to the text.\<close>

lemma undo_redo_pair:
  assumes e: "idle R t0 e" and room: "buf_revision (ed_document e) + 2 < u64_bound"
    and us: "undo_stack (ed_history e) = us @ [en]"
  shows "\<exists>sm e1 sm' e2. dispatch R now Undo e = (Ok (Some sm), e1) \<and>
    text_undo en (full_text R (ed_document e)) = Some (full_text R (ed_document e1)) \<and>
    ed_selection e1 = entry_before en \<and>
    dispatch R now' Redo e1 = (Ok (Some sm'), e2) \<and>
    full_text R (ed_document e2) = full_text R (ed_document e) \<and> ed_selection e2 = entry_after en \<and>
    undo_stack (ed_history e2) = undo_stack (ed_history e) \<and> redo_stack (ed_history e2) = redo_stack (ed_history e)"
proof -
  have room0: "buf_revision (ed_document e) + 1 < u64_bound" using room by simp
  obtain sm e1 where e1: "dispatch R now Undo e = (Ok (Some sm), e1)" "idle R t0 e1"
    "buf_revision (ed_document e1) = Suc (buf_revision (ed_document e))"
    "text_undo en (full_text R (ed_document e)) = Some (full_text R (ed_document e1))"
    "ed_selection e1 = entry_before en"
    "ed_history e1 = \<lparr>undo_stack = us, redo_stack = redo_stack (ed_history e) @ [en], can_merge_last = False\<rparr>"
    using dispatch_undo_idle[OF e room0 us, of now] by blast
  have room1: "buf_revision (ed_document e1) + 1 < u64_bound" using room e1(3) by simp
  have rs: "redo_stack (ed_history e1) = redo_stack (ed_history e) @ [en]" using e1(6) by simp
  obtain sm' e2 where e2: "dispatch R now' Redo e1 = (Ok (Some sm'), e2)"
    "text_redo en (full_text R (ed_document e1)) = Some (full_text R (ed_document e2))"
    "ed_selection e2 = entry_after en"
    "ed_history e2 = \<lparr>undo_stack = undo_stack (ed_history e1) @ [en], redo_stack = redo_stack (ed_history e),
      can_merge_last = False\<rparr>"
    using dispatch_redo_idle[OF e1(2) room1 rs, of now'] by blast
  have "text_redo en (full_text R (ed_document e1)) = Some (full_text R (ed_document e))"
    using e1(4) entries.undo_iff_redo by blast
  then show ?thesis using e1 e2 us by auto
qed

end

end
