(* ===== verification/Editor_Revisions.thy ===== *)
theory Editor_Revisions
  imports Editor_Runs
begin

text \<open>
  The revision tells texts apart: whatever a call of the editor does, the
  document's revision never goes back, and a document with the same revision is
  the same document.  No invariant is needed: the only way to change the document
  is \<open>buf_edit\<close>, which counts.
\<close>

definition grows :: "'r rope_buffer \<Rightarrow> ('e, 'a) res \<times> 'r editor \<Rightarrow> bool" where
  "grows d rs \<longleftrightarrow> fst rs = Panic \<or>
     (let d' = ed_document (snd rs) in buf_revision d \<le> buf_revision d' \<and> (buf_revision d' = buf_revision d \<longrightarrow> d' = d))"

lemma grows_same: "ed_document e = d \<Longrightarrow> grows d (r, e)"
  by (simp add: grows_def)

lemma grows_bind:
  assumes "grows d rs" and "\<And>a e. grows (ed_document e) (f a e)"
  shows "grows d (step_bind rs f)"
proof (cases rs)
  case (Pair r e)
  show ?thesis
  proof (cases r)
    case (Ok a)
    then show ?thesis using assms(1) assms(2)[of e a] Pair by (auto simp: grows_def Let_def)
  qed (use assms(1) Pair in \<open>auto simp: grows_def\<close>)
qed

lemma grows_query: "ed_document e = d \<Longrightarrow> grows d (query q e)"
  by (simp add: grows_def query_def)

lemma grows_update: "ed_document e' = ed_document e \<Longrightarrow> grows (ed_document e') rs \<Longrightarrow> grows (ed_document e) rs"
  by simp

lemma buf_edit_revision:
  "fst (buf_edit R rg r d) \<noteq> Panic \<Longrightarrow>
   buf_revision d \<le> buf_revision (snd (buf_edit R rg r d)) \<and>
   (buf_revision (snd (buf_edit R rg r d)) = buf_revision d \<longrightarrow> snd (buf_edit R rg r d) = d)"
  by (cases "validate_range R d rg")
    (auto simp: buf_edit_def Let_def checked_add_def push_delta_def split: option.splits)

lemma grows_edit: "ed_document e = d \<Longrightarrow> grows d (on_document (buf_edit R rg t) e)"
  using buf_edit_revision[of R rg t "ed_document e"]
  by (auto simp: grows_def on_document_def Let_def case_prod_beta)

lemmas grows_intros = grows_bind grows_query grows_edit grows_same

lemma grows_replace_selection: "ed_document e = d \<Longrightarrow> grows d (replace_selection R t e)"
  by (auto simp: replace_selection_def intro!: grows_intros)

lemma grows_recorded:
  "ed_document e = d \<Longrightarrow> grows d (replace_selection_recorded R t k now e)"
  "ed_document e = d \<Longrightarrow> grows d (replace_selection_recorded_from R t sel k now e)"
  by (auto simp: replace_selection_recorded_def replace_selection_recorded_from_def Let_def
      intro!: grows_bind grows_replace_selection grows_same)

lemma grows_deletions:
  "ed_document e = d \<Longrightarrow> grows d (delete_word E fw stop now e)"
  "ed_document e = d \<Longrightarrow> grows d (backspace E now e)"
  "ed_document e = d \<Longrightarrow> grows d (delete E now e)"
  by (auto simp: delete_word_def backspace_def delete_def Let_def
      intro!: grows_bind grows_query grows_recorded grows_same)

lemma ed_document_move_to [simp]: "ed_document (move_to p extending e) = ed_document e"
  by (simp add: move_to_def)

lemma grows_no_edit: "grows d rs \<Longrightarrow> grows d (no_edit rs)"
  by (auto simp: no_edit_def intro!: grows_bind grows_same)

lemma grows_moves:
  "ed_document e = d \<Longrightarrow> grows d (move_grapheme E right extending e)"
  "ed_document e = d \<Longrightarrow> grows d (move_to_line_boundary E to_end extending e)"
  by (auto simp: move_grapheme_def move_to_line_boundary_def Let_def intro!: grows_bind grows_query grows_same)

lemma grows_move_word:
  "ed_document e = d \<Longrightarrow> grows d (move_word E fw stop extending e)"
  "ed_document e = d \<Longrightarrow> grows d (move_paragraph E fw stop extending e)"
  by (auto simp: move_word_def move_paragraph_def intro!: grows_bind grows_query grows_same)

lemma grows_move_vertical: "ed_document e = d \<Longrightarrow> grows d (move_vertical E down extending e)"
  unfolding move_vertical_def Let_def
  by (intro grows_bind) (auto intro!: grows_bind grows_query grows_same split: option.splits)

lemma entry_edit_revision:
  "entry_undo R en d = (r, d') \<Longrightarrow> r \<noteq> Panic \<Longrightarrow>
   buf_revision d \<le> buf_revision d' \<and> (buf_revision d' = buf_revision d \<longrightarrow> d' = d)"
  "entry_redo R en d = (r, d') \<Longrightarrow> r \<noteq> Panic \<Longrightarrow>
   buf_revision d \<le> buf_revision d' \<and> (buf_revision d' = buf_revision d \<longrightarrow> d' = d)"
  using buf_edit_revision[where d = d] by (metis entry_undo_def fst_conv snd_conv, metis entry_redo_def fst_conv snd_conv)

lemma history_revision:
  "history_undo R (h, d) = (r, h', d') \<Longrightarrow> r \<noteq> Panic \<Longrightarrow>
   buf_revision d \<le> buf_revision d' \<and> (buf_revision d' = buf_revision d \<longrightarrow> d' = d)"
  "history_redo R (h, d) = (r, h', d') \<Longrightarrow> r \<noteq> Panic \<Longrightarrow>
   buf_revision d \<le> buf_revision d' \<and> (buf_revision d' = buf_revision d \<longrightarrow> d' = d)"
  unfolding history_undo_def history_redo_def Let_def fst_conv snd_conv
  by (auto split: option.splits prod.splits res.splits dest: entry_edit_revision)

lemma grows_history_state:
  "history_undo R (ed_history e, d) = (r, h', d') \<Longrightarrow> grows d (r, e\<lparr>ed_history := h', ed_document := d'\<rparr>)"
  "history_redo R (ed_history e, d) = (r, h', d') \<Longrightarrow> grows d (r, e\<lparr>ed_history := h', ed_document := d'\<rparr>)"
  using history_revision by (fastforce simp: grows_def)+

lemma grows_undo: "ed_document e = d \<Longrightarrow> grows d (editor_undo R e)"
  unfolding editor_undo_def Let_def
  by (auto intro!: grows_bind grows_same grows_history_state(1) split: option.splits prod.splits)

lemma grows_redo: "ed_document e = d \<Longrightarrow> grows d (editor_redo R e)"
  unfolding editor_redo_def Let_def
  by (auto intro!: grows_bind grows_same grows_history_state(2) split: option.splits prod.splits)

section \<open>The calls of the interface\<close>

lemma ed_document_commit_composition [simp]: "ed_document (commit_composition t e) = ed_document e"
  by (simp add: commit_composition_def split: option.splits)

lemma ed_document_updates [simp]:
  "ed_document (break_undo_group e) = ed_document e" "ed_document (clear_preferred e) = ed_document e"
  "ed_document (record_model_update a b k e) = ed_document e"
  by (simp_all add: break_undo_group_def clear_preferred_def record_model_update_def)

lemma grows_run_command: "ed_document e = d \<Longrightarrow> grows d (run_command E now cmd e)"
  by (cases cmd) (auto intro!: grows_bind grows_recorded grows_deletions grows_no_edit grows_moves
      grows_move_word grows_move_vertical grows_undo grows_redo grows_same)

lemma grows_dispatch: "grows (ed_document e) (dispatch E now cmd e)"
  unfolding dispatch_def Let_def by (intro grows_bind grows_run_command) (auto intro!: grows_same)

lemma grows_set_selection: "grows (ed_document e) (set_selection R t sel e)"
  "grows (ed_document e) (move_vertical_to R t p extending x e)"
  unfolding set_selection_def move_vertical_to_def Let_def by (auto intro!: grows_bind grows_query grows_same)

lemma grows_replace_range: "grows (ed_document e) (replace_range_recorded R now rg t sel e)"
  unfolding replace_range_recorded_def Let_def by (auto intro!: grows_bind grows_query grows_edit grows_same)

lemma grows_mark_text: "grows (ed_document e) (replace_and_mark_text R now r t sel e)"
  unfolding replace_and_mark_text_def composition_target_def Let_def
  by (intro grows_bind) (auto intro!: grows_bind grows_query grows_edit grows_same split: option.splits)

lemma grows_commit_text: "grows (ed_document e) (commit_text R now r t e)"
  unfolding commit_text_def Let_def by (auto intro!: grows_bind grows_query grows_edit grows_same)

lemma grows_cancel: "grows (ed_document e) (cancel_composition R e)"
  unfolding cancel_composition_def Let_def
  by (auto intro!: grows_bind grows_query grows_edit grows_same split: option.splits)

lemmas grows_calls = grows_dispatch grows_set_selection grows_replace_range grows_mark_text grows_commit_text
  grows_cancel

text \<open>The revision after a step tells whether the text is still the same.\<close>

lemma growsD: "grows d rs \<Longrightarrow> fst rs \<noteq> Panic \<Longrightarrow>
    buf_revision d \<le> buf_revision (ed_document (snd rs)) \<and>
    (buf_revision (ed_document (snd rs)) = buf_revision d \<longrightarrow> ed_document (snd rs) = d)"
  by (auto simp: grows_def Let_def)

context text_segments
begin

lemma editor_step_grows:
  assumes "editor_step R e e'" and "editor_inv R t0 e" and "buf_revision (ed_document e) + 1 < u64_bound"
  shows "buf_revision (ed_document e) \<le> buf_revision (ed_document e') \<and>
    (buf_revision (ed_document e') = buf_revision (ed_document e) \<longrightarrow> ed_document e' = ed_document e)"
  using assms
proof cases
  case (step_dispatch now cmd)
  then have "fst (dispatch R now cmd e) \<noteq> Panic"
    using dispatch_lands[OF assms(2,3), of now cmd] by (auto simp: lands_def)
  then show ?thesis using growsD[OF grows_dispatch] step_dispatch by blast
next
  case (step_set_selection t sel)
  then show ?thesis using set_selection_inv[OF assms(2), of t sel] by simp
next
  case (step_move_vertical_to p t extending x)
  then have "ed_document e' = ed_document e" by (simp add: move_vertical_to_def query_def Let_def)
  then show ?thesis by simp
next
  case (step_replace_range rg t sel now)
  then have "fst (replace_range_recorded R now rg t sel e) \<noteq> Panic"
    using replace_range_recorded_Ok[OF assms(2) step_replace_range(2,3) assms(3), of now] by auto
  then show ?thesis using growsD[OF grows_replace_range] step_replace_range by blast
next
  case (step_mark_text r t now selected)
  then have "fst (replace_and_mark_text R now r t selected e) \<noteq> Panic"
    using replace_and_mark_Ok[OF assms(2) step_mark_text(2) assms(3) step_mark_text(3), of now selected] by auto
  then show ?thesis using growsD[OF grows_mark_text] step_mark_text by blast
next
  case (step_commit_text r now t)
  then have "fst (commit_text R now r t e) \<noteq> Panic"
    using commit_text_Ok[OF assms(2) step_commit_text(2) assms(3), of now t] by auto
  then show ?thesis using growsD[OF grows_commit_text] step_commit_text by blast
next
  case (step_commit_composition t)
  then show ?thesis by simp
next
  case step_cancel
  then have "fst (cancel_composition R e) \<noteq> Panic"
    using cancel_composition_Ok[OF assms(2) _ _ assms(3)] cancel_inactive[of e] by (cases "ed_ime e") fastforce+
  then show ?thesis using growsD[OF grows_cancel] step_cancel by blast
next
  case (step_frame_painted t)
  then show ?thesis by (simp add: mark_frame_painted_def rw_take_all_def)
qed

end

end
