(* ===== verification/Ticket_Contract.thy ===== *)
theory Ticket_Contract
  imports Prelude
begin

text \<open>
  The contract of a numbered slot: a counter gives every holder a fresh number,
  and a result is accepted only from the number that holds the slot.  A session
  uses it four times (the running write, the running disk check, the running
  reload verification, the live approval).  The number wraps at \<open>2 ^ 64\<close>, so
  "never again" is a statement about runs of fewer than \<open>2 ^ 64\<close> steps.
\<close>

inductive steps :: "('s \<Rightarrow> 's \<Rightarrow> bool) \<Rightarrow> nat \<Rightarrow> 's \<Rightarrow> 's \<Rightarrow> bool"
  for step where
  steps_refl: "steps step 0 s s"
| steps_step: "steps step (Suc n) s u" if "steps step n s t" and "step t u"

inductive_cases steps_0E: "steps step 0 s t"
inductive_cases steps_SucE: "steps step (Suc n) s t"

lemma steps_one: "step s t \<Longrightarrow> steps step 1 s t"
  using steps_step[OF steps_refl] by simp

lemma steps_invariant:
  "steps step n s t \<Longrightarrow> I s \<Longrightarrow> (\<And>u v. step u v \<Longrightarrow> I u \<Longrightarrow> I v) \<Longrightarrow> I t"
  by (induction rule: steps.induct) auto

locale ticket_slot =
  fixes step :: "'s \<Rightarrow> 's \<Rightarrow> bool"
    and counter :: "'s \<Rightarrow> u64"
    and holder :: "'s \<Rightarrow> u64 option"
  assumes slot_step: "step s t \<Longrightarrow>
    (counter t = counter s \<and> (holder t = holder s \<or> holder t = None)) \<or>
    (counter t = counter s + 1 \<and> holder t = Some (counter t))"
begin

lemma steps_counter:
  "steps step n s t \<Longrightarrow>
   \<exists>k \<le> n. counter t = counter s + of_nat k \<and>
     (k = 0 \<longrightarrow> holder t = holder s \<or> holder t = None) \<and>
     (0 < k \<longrightarrow> holder t = Some (counter t) \<or> holder t = None)"
proof (induction rule: steps.induct)
  case (steps_refl s)
  then show ?case by simp
next
  case (steps_step n s t u)
  then obtain k where k: "k \<le> n" "counter t = counter s + of_nat k"
    "k = 0 \<longrightarrow> holder t = holder s \<or> holder t = None" "0 < k \<longrightarrow> holder t = Some (counter t) \<or> holder t = None"
    by blast
  from slot_step[OF steps_step(2)] show ?case
  proof
    assume same: "counter u = counter t \<and> (holder u = holder t \<or> holder u = None)"
    then show ?thesis using k by (intro exI[of _ k]) auto
  next
    assume "counter u = counter t + 1 \<and> holder u = Some (counter u)"
    then show ?thesis using k by (intro exI[of _ "Suc k"]) auto
  qed
qed

lemma of_nat_small: "0 < k \<Longrightarrow> k < u64_bound \<Longrightarrow> (of_nat k :: u64) \<noteq> 0"
  using nat_dvd_not_less[of k "2 ^ 64"] by (simp add: word_of_nat_eq_0_iff u64_bound_def)

text \<open>A number that does not hold the slot, but was handed out last, never holds it again.\<close>

lemma never_again:
  assumes "steps step n s t" and "n < u64_bound" and "holder s \<noteq> Some (counter s)"
  shows "holder t \<noteq> Some (counter s)"
proof -
  obtain k where k: "k \<le> n" "counter t = counter s + of_nat k"
    "k = 0 \<longrightarrow> holder t = holder s \<or> holder t = None" "0 < k \<longrightarrow> holder t = Some (counter t) \<or> holder t = None"
    using steps_counter[OF assms(1)] by blast
  show ?thesis
  proof (cases "k = 0")
    case False
    then have "counter t \<noteq> counter s" using of_nat_small[of k] k(1,2) assms(2) by simp
    then show ?thesis using False k(4) by auto
  qed (use k(3) assms(3) in auto)
qed

text \<open>What holds when the slot is taken and survives every step that keeps the holder, holds as long as it is held.\<close>

lemma while_held:
  assumes "steps step n s t" and "n < u64_bound" and "P s"
    and keep: "\<And>u v. step u v \<Longrightarrow> P u \<Longrightarrow> holder u = Some (counter s) \<Longrightarrow> holder v = Some (counter s) \<Longrightarrow> P v"
  shows "holder t = Some (counter s) \<Longrightarrow> P t"
  using assms(1-3) keep
proof (induction rule: steps.induct)
  case (steps_refl s)
  then show ?case by simp
next
  case (steps_step n s t u)
  have small: "n < u64_bound" using steps_step.prems(2) by simp
  have "holder t = Some (counter s)"
  proof (rule ccontr)
    assume gone: "holder t \<noteq> Some (counter s)"
    obtain k where k: "k \<le> n" "counter t = counter s + of_nat k" using steps_counter[OF steps_step(1)] by blast
    from slot_step[OF steps_step(2)] show False
    proof
      assume "counter u = counter t \<and> (holder u = holder t \<or> holder u = None)"
      then show False using gone steps_step.prems(1) by auto
    next
      assume new: "counter u = counter t + 1 \<and> holder u = Some (counter u)"
      then have "counter s = counter t + 1" using steps_step.prems(1) by simp
      then have "counter s = counter s + (of_nat k + 1)" unfolding k(2) by (simp only: add.assoc)
      then have "(of_nat (Suc k) :: u64) = 0" by (simp add: add.commute)
      then show False using of_nat_small[of "Suc k"] k(1) steps_step.prems(2) by simp
    qed
  qed
  moreover from this have "P t" using steps_step.IH small steps_step.prems(3,4) by blast
  ultimately show ?case using steps_step.prems(1,4) steps_step(2) by blast
qed

text \<open>A holder always has the last number handed out.\<close>

lemma holder_is_last:
  "step s t \<Longrightarrow> holder s = None \<or> holder s = Some (counter s) \<Longrightarrow>
   holder t = None \<or> holder t = Some (counter t)"
  using slot_step[of s t] by auto

end

end
