(* ===== verification/Session_Runs.thy ===== *)
theory Session_Runs
  imports Session_Set Editor_Revisions Ticket_Contract
begin

text \<open>
  A session as a state machine.  \<open>handle\<close> runs one method; \<open>session_step\<close> is an
  edit in the editor or a method call with any arguments and, for the \<open>finish_\<close>
  methods, any result at any time.  The documents that calls bring in are sound
  buffers.
\<close>

datatype 'r session_event =
    NoteEdit
  | SetViewState "32 word"
  | NoteAutoNamed str
  | StopAutoNaming
  | RequestSave disk_view save_intent
  | FinishSave save_ticket "save_failure + saved_file"
  | TakePendingSave
  | BeginRename
  | FinishRename save_ticket
  | HandleFileEvent file_event
  | FolderDeleted path
  | FolderRenamed path path
  | TakeRecheck
  | BeginCheck
  | AbandonCheck external_check_ticket
  | FinishCheck nat external_check_ticket "'r external_check_result"
  | Approve resolution_kind "content_fingerprint option"
  | ConfirmOverwrite resolution_approval
  | ApplyReload nat resolution_approval
  | BeginReload resolution_approval
  | FinishReload nat reload_verify_request "'r disk_version"
  | Adopt "'r loaded_file"

fun handle ::
  "('r, 'z) rope_api_scheme \<Rightarrow> 'r session_event \<Rightarrow> 'r document_session \<Rightarrow> 'r document_session" where
  "handle R NoteEdit s = note_edit s"
| "handle R (SetViewState v) s = set_view_state v s"
| "handle R (NoteAutoNamed title) s = note_auto_named title s"
| "handle R StopAutoNaming s = stop_auto_naming s"
| "handle R (RequestSave fs intent) s = snd (request_save fs intent s)"
| "handle R (FinishSave ticket result) s = snd (finish_save ticket result s)"
| "handle R TakePendingSave s = snd (take_pending_save s)"
| "handle R BeginRename s = snd (begin_rename s)"
| "handle R (FinishRename ticket) s = finish_rename ticket s"
| "handle R (HandleFileEvent event) s = snd (apply_file_event event s)"
| "handle R (FolderDeleted folder) s = snd (apply_folder_delete folder s)"
| "handle R (FolderRenamed from to) s = snd (apply_folder_rename from to s)"
| "handle R TakeRecheck s = snd (take_recheck_request s)"
| "handle R BeginCheck s = snd (begin_external_check s)"
| "handle R (AbandonCheck ticket) s = abandon_external_check ticket s"
| "handle R (FinishCheck now ticket result) s = snd (finish_external_check R now ticket result s)"
| "handle R (Approve kind shown) s = snd (approve_resolution kind shown s)"
| "handle R (ConfirmOverwrite a) s = snd (request_confirmed_overwrite a s)"
| "handle R (ApplyReload now a) s = snd (apply_confirmed_reload R now a s)"
| "handle R (BeginReload a) s = snd (begin_confirmed_reload a s)"
| "handle R (FinishReload now request disk) s = snd (finish_confirmed_reload R now request disk s)"
| "handle R (Adopt loaded) s = adopt R loaded s"

fun disk_ok :: "('r, 'z) rope_api_scheme \<Rightarrow> 'r disk_version \<Rightarrow> bool" where
  "disk_ok R (DiskPresent observed) \<longleftrightarrow> buffer_inv R (of_document observed)"
| "disk_ok R _ \<longleftrightarrow> True"

fun event_ok :: "('r, 'z) rope_api_scheme \<Rightarrow> 'r session_event \<Rightarrow> bool" where
  "event_ok R (FinishCheck now ticket result) \<longleftrightarrow> disk_ok R (res_disk result)"
| "event_ok R (FinishReload now request disk) \<longleftrightarrow> disk_ok R disk"
| "event_ok R (Adopt loaded) \<longleftrightarrow> buffer_inv R (lf_document loaded)"
| "event_ok R _ \<longleftrightarrow> True"

inductive session_step ::
  "('r, 'z) text_env_scheme \<Rightarrow> 'r document_session \<Rightarrow> 'r document_session \<Rightarrow> bool"
  for E where
  step_editor: "session_step E s (s\<lparr>ds_editor := e'\<rparr>)"
    if "editor_step E (ds_editor s) e'" and "session_revision s + 1 < u64_bound"
| step_event: "session_step E s (handle E event s)" if "event_ok E event"

section \<open>What the operations keep\<close>

lemma reset_external_tracking_simps [simp]:
  "ds_editor (reset_external_tracking s) = ds_editor s" "ds_in_flight (reset_external_tracking s) = ds_in_flight s"
  "ds_save_sequence (reset_external_tracking s) = ds_save_sequence s" "ds_file (reset_external_tracking s) = ds_file s"
  "ds_check_in_flight (reset_external_tracking s) = None" "ds_check_sequence (reset_external_tracking s) = ds_check_sequence s"
  "ds_live_approval (reset_external_tracking s) = None" "ds_approval_serial (reset_external_tracking s) = ds_approval_serial s"
  "ds_verify_in_flight (reset_external_tracking s) = ds_verify_in_flight s"
  "ds_verify_sequence (reset_external_tracking s) = ds_verify_sequence s" "ds_external (reset_external_tracking s) = InSync"
  "ds_saved_revision (reset_external_tracking s) = ds_saved_revision s" "ds_generation (reset_external_tracking s) = ds_generation s"
  "ds_in_flight_target (reset_external_tracking s) = ds_in_flight_target s" "ds_id (reset_external_tracking s) = ds_id s"
  "ds_pending_save (reset_external_tracking s) = ds_pending_save s"
  by (simp_all add: reset_external_tracking_def)

lemma set_external_simps [simp]:
  "ds_editor (set_external x s) = ds_editor s" "ds_in_flight (set_external x s) = ds_in_flight s"
  "ds_save_sequence (set_external x s) = ds_save_sequence s" "ds_file (set_external x s) = ds_file s"
  "ds_check_in_flight (set_external x s) = ds_check_in_flight s" "ds_check_sequence (set_external x s) = ds_check_sequence s"
  "ds_approval_serial (set_external x s) = ds_approval_serial s" "ds_verify_in_flight (set_external x s) = ds_verify_in_flight s"
  "ds_verify_sequence (set_external x s) = ds_verify_sequence s" "ds_external (set_external x s) = x"
  "ds_saved_revision (set_external x s) = ds_saved_revision s" "ds_generation (set_external x s) = ds_generation s"
  "ds_in_flight_target (set_external x s) = ds_in_flight_target s" "ds_id (set_external x s) = ds_id s"
  "ds_pending_save (set_external x s) = ds_pending_save s"
  by (simp_all add: set_external_def Let_def)

lemma set_external_live: "ds_live_approval (set_external x s) = ds_live_approval s \<or> ds_live_approval (set_external x s) = None"
  by (simp add: set_external_def Let_def)

text \<open>The four slots at once.\<close>

definition slot_moves :: "u64 \<Rightarrow> u64 option \<Rightarrow> u64 \<Rightarrow> u64 option \<Rightarrow> bool" where
  "slot_moves c h c' h' \<longleftrightarrow> (c' = c \<and> (h' = h \<or> h' = None)) \<or> (c' = c + 1 \<and> h' = Some c')"

lemma slot_moves_simps [simp]: "slot_moves c h c h" "slot_moves c h c None" "slot_moves c h (c + 1) (Some (c + 1))"
  "slot_moves c h (1 + c) (Some (1 + c))"
  by (simp_all add: slot_moves_def)

definition save_holder :: "'r document_session \<Rightarrow> u64 option" where
  "save_holder s = map_option st_sequence (ds_in_flight s)"

definition slots_move :: "'r document_session \<Rightarrow> 'r document_session \<Rightarrow> bool" where
  "slots_move s t \<longleftrightarrow>
     slot_moves (ds_save_sequence s) (save_holder s) (ds_save_sequence t) (save_holder t) \<and>
     slot_moves (ds_check_sequence s) (ds_check_in_flight s) (ds_check_sequence t) (ds_check_in_flight t) \<and>
     slot_moves (ds_verify_sequence s) (ds_verify_in_flight s) (ds_verify_sequence t) (ds_verify_in_flight t) \<and>
     slot_moves (ds_approval_serial s) (ds_live_approval s) (ds_approval_serial t) (ds_live_approval t)"

lemma slots_move_refl [simp]: "slots_move s s" by (simp add: slots_move_def)

lemma slots_move_start_write: "slots_move s (snd (start_write p g s))"
  by (simp add: slots_move_def start_write_def Let_def save_holder_def)

lemma slots_move_request:
  "slots_move s (snd (request_confirmed_overwrite a s))" "slots_move s (snd (request_save fs intent s))"
proof -
  show c: "slots_move s (snd (request_confirmed_overwrite a s))"
    by (auto simp: slots_move_def request_confirmed_overwrite_def start_write_def Let_def save_holder_def
        split: option.splits)
  show "slots_move s (snd (request_save fs intent s))"
  proof (cases "\<exists>a. intent = SaveConfirmed a")
    case True
    then obtain b where "intent = SaveConfirmed b" ..
    then show ?thesis
      by (cases "request_confirmed_overwrite b s")
        (auto simp: request_save_def slots_move_def save_holder_def request_confirmed_overwrite_def start_write_def
          Let_def split: option.splits if_splits)
  next
    case False
    have "request_save fs intent s = (case save_target fs s intent of
        None \<Rightarrow> (NeedsPath, s)
      | Some (p, guard) \<Rightarrow>
          if ds_in_flight s \<noteq> None then (Queued, s\<lparr>ds_pending_save := Some intent\<rparr>)
          else let (job, s) = start_write p guard s in (DecideWrite job, s))"
      using False by (cases intent) (auto simp: request_save_def)
    then show ?thesis
      using slots_move_start_write[of s]
      by (auto simp: slots_move_def save_holder_def case_prod_beta Let_def split: option.splits)
  qed
qed

lemma slots_move_finish:
  "slots_move s (snd (finish_save ticket result s))"
  by (auto simp: finish_save_def slots_move_def save_holder_def Let_def
      split: sum.splits save_failure.splits)

text \<open>Moves that hand out no number compose with any move.\<close>

definition slots_release :: "'r document_session \<Rightarrow> 'r document_session \<Rightarrow> bool" where
  "slots_release s t \<longleftrightarrow>
     ds_save_sequence t = ds_save_sequence s \<and> (ds_in_flight t = ds_in_flight s \<or> ds_in_flight t = None) \<and>
     ds_check_sequence t = ds_check_sequence s \<and> (ds_check_in_flight t = ds_check_in_flight s \<or> ds_check_in_flight t = None) \<and>
     ds_verify_sequence t = ds_verify_sequence s \<and> (ds_verify_in_flight t = ds_verify_in_flight s \<or> ds_verify_in_flight t = None) \<and>
     ds_approval_serial t = ds_approval_serial s \<and> (ds_live_approval t = ds_live_approval s \<or> ds_live_approval t = None)"

lemma slots_release_move: "slots_release s t \<Longrightarrow> slots_move s t"
  by (auto simp: slots_release_def slots_move_def slot_moves_def save_holder_def)

lemma slots_release_trans: "slots_release s t \<Longrightarrow> slots_release t u \<Longrightarrow> slots_release s u"
  by (auto simp: slots_release_def)

lemma slots_release_refl [simp]: "slots_release s s" by (simp add: slots_release_def)

lemma slots_release_set_external [simp]: "slots_release s (set_external x s)"
  using set_external_live[of x s] by (auto simp: slots_release_def)

lemma slots_release_updates [simp]:
  "slots_release s (s\<lparr>ds_file := f\<rparr>)" "slots_release s (s\<lparr>ds_check_in_flight := None\<rparr>)"
  "slots_release s (s\<lparr>ds_verify_in_flight := None\<rparr>)" "slots_release s (s\<lparr>ds_recheck_pending := b\<rparr>)"
  "slots_release s (s\<lparr>ds_external := x\<rparr>)" "slots_release s (s\<lparr>ds_pending_save := p\<rparr>)"
  "slots_release s (s\<lparr>ds_editor := e\<rparr>)"
  by (simp_all add: slots_release_def)

lemma slots_release_external [simp]:
  "slots_release s (external_missing s)" "slots_release s (remember_external observed s)"
  "slots_release s (replace_with_disk R now observed s)"
  using slots_release_set_external[of s ExtMissing]
    slots_release_set_external[of "s\<lparr>ds_file := mark_present (ds_file s)\<rparr>"]
  by (auto simp: external_missing_def remember_external_def replace_with_disk_def Let_def slots_release_def)

lemma slots_release_apply_observed: "slots_release s (snd (apply_observed R now ticket observed local s))"
  unfolding apply_observed_def Let_def
  by (auto intro: slots_release_trans[OF slots_release_updates(1) slots_release_set_external]
      slots_release_trans[OF slots_release_updates(1) slots_release_external(2)]
      slots_release_trans[OF slots_release_updates(1) slots_release_external(3)])

lemma slots_release_checks:
  "slots_release s (snd (finish_external_check R now ticket result s))"
  "slots_release s (snd (apply_confirmed_reload R now a s))"
  "slots_release s (snd (finish_confirmed_reload R now request disk s))"
  by (auto simp: finish_external_check_def apply_confirmed_reload_def finish_confirmed_reload_def Let_def
      split: disk_version.splits external_state.splits
      intro: slots_release_trans[OF slots_release_updates(2)] slots_release_trans[OF slots_release_updates(3)]
        slots_release_trans[OF slots_release_updates(5)] slots_release_external slots_release_set_external
        slots_release_apply_observed)

lemma slots_release_simple:
  "slots_release s (note_edit s)" "slots_release s (set_view_state v s)" "slots_release s (note_auto_named title s)"
  "slots_release s (stop_auto_naming s)" "slots_release s (snd (take_pending_save s))"
  "slots_release s (finish_rename ticket s)" "slots_release s (snd (apply_file_event event s))"
  "slots_release s (snd (apply_folder_delete folder s))" "slots_release s (snd (apply_folder_rename from to s))"
  "slots_release s (snd (take_recheck_request s))" "slots_release s (abandon_external_check ct s)"
  "slots_release s (adopt R loaded s)"
  by (auto simp: slots_release_def note_edit_def set_view_state_def note_auto_named_def stop_auto_naming_def
      take_pending_save_def finish_rename_def apply_file_event_def apply_folder_delete_def apply_folder_rename_def
      missing_file_def move_file_def take_recheck_request_def abandon_external_check_def adopt_def Let_def
      split: option.splits file_event.splits external_change.splits)

lemma slots_move_begin:
  "slots_move s (snd (begin_rename s))" "slots_move s (snd (begin_external_check s))"
  "slots_move s (snd (approve_resolution kind shown s))" "slots_move s (snd (begin_confirmed_reload a s))"
  by (auto simp: slots_move_def save_holder_def begin_rename_def begin_external_check_def approve_resolution_def
      begin_confirmed_reload_def Let_def split: option.splits)

lemma handle_slots: "slots_move s (handle R event s)"
  by (cases event) (auto intro: slots_release_move slots_release_simple slots_release_checks slots_move_begin
      slots_move_request slots_move_finish)

lemma session_step_slots: "session_step E s t \<Longrightarrow> slots_move s t"
  by (induction rule: session_step.induct) (auto intro: slots_release_move handle_slots)

section \<open>The four slots of a session\<close>

lemma session_step_slot:
  assumes "session_step E s t"
  shows "(ds_save_sequence t = ds_save_sequence s \<and> (save_holder t = save_holder s \<or> save_holder t = None)) \<or>
      (ds_save_sequence t = ds_save_sequence s + 1 \<and> save_holder t = Some (ds_save_sequence t))"
    and "(ds_check_sequence t = ds_check_sequence s \<and> (ds_check_in_flight t = ds_check_in_flight s \<or> ds_check_in_flight t = None)) \<or>
      (ds_check_sequence t = ds_check_sequence s + 1 \<and> ds_check_in_flight t = Some (ds_check_sequence t))"
    and "(ds_verify_sequence t = ds_verify_sequence s \<and> (ds_verify_in_flight t = ds_verify_in_flight s \<or> ds_verify_in_flight t = None)) \<or>
      (ds_verify_sequence t = ds_verify_sequence s + 1 \<and> ds_verify_in_flight t = Some (ds_verify_sequence t))"
    and "(ds_approval_serial t = ds_approval_serial s \<and> (ds_live_approval t = ds_live_approval s \<or> ds_live_approval t = None)) \<or>
      (ds_approval_serial t = ds_approval_serial s + 1 \<and> ds_live_approval t = Some (ds_approval_serial t))"
  using session_step_slots[OF assms] by (simp_all add: slots_move_def slot_moves_def)

interpretation save_slot: ticket_slot "session_step E" ds_save_sequence save_holder
  for E :: "('r, 'z) text_env_scheme"
  by unfold_locales (rule session_step_slot(1))

interpretation check_slot: ticket_slot "session_step E" ds_check_sequence ds_check_in_flight
  for E :: "('r, 'z) text_env_scheme"
  by unfold_locales (rule session_step_slot(2))

interpretation verify_slot: ticket_slot "session_step E" ds_verify_sequence ds_verify_in_flight
  for E :: "('r, 'z) text_env_scheme"
  by unfold_locales (rule session_step_slot(3))

interpretation approval_slot: ticket_slot "session_step E" ds_approval_serial ds_live_approval
  for E :: "('r, 'z) text_env_scheme"
  by unfold_locales (rule session_step_slot(4))

end
