(* ===== verification/Find_Facts.thy ===== *)
theory Find_Facts
  imports Find History_Facts
begin

text \<open>
  The scan in windows finds what one pass over the whole text finds.
  \<open>ref_scan\<close> is that pass: non-overlapping matches from left to right.  The
  window lemma carries the position where a window hands over to the next, which
  a match may push past the window's core.
\<close>

section \<open>The reference\<close>

definition prefix_matches :: "('r, 'z) text_env_scheme \<Rightarrow> bool \<Rightarrow> str \<Rightarrow> str \<Rightarrow> bool" where
  "prefix_matches E cs q s \<longleftrightarrow>
     length q \<le> length s \<and> list_all2 (\<lambda>h p. chars_match E h p cs) (take (length q) s) q"

function ref_scan ::
  "('r, 'z) text_env_scheme \<Rightarrow> bool \<Rightarrow> str \<Rightarrow> nat \<Rightarrow> str \<Rightarrow> source_range list" where
  "ref_scan E cs q off [] = []"
| "ref_scan E cs q off (c # s) =
     (if prefix_matches E cs q (c # s)
      then source_range_new off (off + str_len (take (length q) (c # s))) #
           ref_scan E cs q (off + str_len (take (length q) (c # s))) (drop (length q - 1) s)
      else ref_scan E cs q (off + len_utf8 c) s)"
  by pat_completeness auto
termination by (relation "measure (\<lambda>(E, cs, q, off, s). length s)") auto

lemma match_query_iff:
  "match_query E cs hs q \<longleftrightarrow>
     length q \<le> length hs \<and> list_all2 (\<lambda>h p. chars_match E h p cs) (take (length q) (map snd hs)) q"
  by (induction E cs hs q rule: match_query.induct) auto

lemma map_snd_char_indices [simp]: "map snd (char_indices k t) = t"
  by (induction t arbitrary: k) auto

lemma length_char_indices [simp]: "length (char_indices k t) = length t"
  by (induction t arbitrary: k) auto

lemma fst_char_indices: "i < length t \<Longrightarrow> fst (char_indices k t ! i) = k + str_len (take i t)"
proof (induction t arbitrary: k i)
  case (Cons c t)
  then show ?case by (cases i) auto
qed simp

lemma try_match_eq:
  assumes "idx < length t" and "rest = [] \<or> idx + length q \<le> length t"
  shows "try_match E (char_indices 0 t) idx q cs =
    (if prefix_matches E cs q (drop idx t @ rest) then Some (idx + length q) else None)"
proof -
  have "match_query E cs (drop idx (char_indices 0 t)) q \<longleftrightarrow>
      length q \<le> length (drop idx t) \<and> list_all2 (\<lambda>h p. chars_match E h p cs) (take (length q) (drop idx t)) q"
    by (simp add: match_query_iff drop_map[symmetric])
  then show ?thesis using assms by (auto simp: try_match_def prefix_matches_def)
qed

text \<open>Match lists: ordered, non-overlapping ranges on char boundaries, from \<open>cur\<close> on.\<close>

fun ordered_from :: "str \<Rightarrow> nat \<Rightarrow> source_range list \<Rightarrow> bool" where
  "ordered_from s cur [] \<longleftrightarrow> True"
| "ordered_from s cur (m # ms) \<longleftrightarrow>
     cur \<le> range_start m \<and> range_start m \<le> range_end m \<and>
     is_boundary s (range_start m) \<and> is_boundary s (range_end m) \<and> ordered_from s (range_end m) ms"

lemma ordered_from_take: "ordered_from s cur ms \<Longrightarrow> ordered_from s cur (take k ms)"
proof (induction ms arbitrary: cur k)
  case (Cons m ms)
  then show ?case by (cases k) auto
qed simp

lemma ordered_from_weaken: "ordered_from s cur ms \<Longrightarrow> c \<le> cur \<Longrightarrow> ordered_from s c ms"
  by (cases ms) auto

lemma ordered_from_start:
  "ordered_from s cur ms \<Longrightarrow> m \<in> set ms \<Longrightarrow> cur \<le> range_start m \<and> range_start m \<le> range_end m"
proof (induction ms arbitrary: cur)
  case (Cons x ms)
  then show ?case using ordered_from_weaken by fastforce
qed simp

lemma ref_scan_ordered:
  "q \<noteq> [] \<Longrightarrow> s = pre @ u \<Longrightarrow> off = str_len pre \<Longrightarrow> ordered_from s off (ref_scan E cs q off u)"
proof (induction E cs q off u arbitrary: pre rule: ref_scan.induct)
  case (2 E cs q off c u)
  show ?case
  proof (cases "prefix_matches E cs q (c # u)")
    case True
    let ?m = "take (length q) (c # u)" and ?v = "drop (length q - 1) u"
    have "c # u = ?m @ ?v" using "2.prems"(1) by (cases q) simp_all
    then have s: "s = (pre @ ?m) @ ?v" using "2.prems"(2) by simp
    have IH: "ordered_from s (off + str_len ?m) (ref_scan E cs q (off + str_len ?m) ?v)"
      using "2.IH"(1)[OF True "2.prems"(1) s] "2.prems"(3) by simp
    have "is_boundary s off" "is_boundary s (off + str_len ?m)"
      using is_boundary_prefix[of pre "?m @ ?v"] is_boundary_prefix[of "pre @ ?m" ?v] s "2.prems"(3) by simp_all
    then show ?thesis using True IH by simp
  next
    case False
    have "ordered_from s (off + len_utf8 c) (ref_scan E cs q (off + len_utf8 c) u)"
      using "2.IH"(2)[OF False "2.prems"(1), of "pre @ [c]"] "2.prems"(2,3) by simp
    then show ?thesis using False ordered_from_weaken by simp
  qed
qed simp

lemma ref_scan_sound:
  "m \<in> set (ref_scan E cs q off u) \<Longrightarrow> q \<noteq> [] \<Longrightarrow>
   \<exists>x y. u = x @ y \<and> range_start m = off + str_len x \<and> prefix_matches E cs q y \<and>
     range_end m = range_start m + str_len (take (length q) y)"
proof (induction E cs q off u rule: ref_scan.induct)
  case (2 E cs q off c u)
  show ?case
  proof (cases "prefix_matches E cs q (c # u)")
    case True
    let ?m = "take (length q) (c # u)" and ?v = "drop (length q - 1) u"
    have split: "c # u = ?m @ ?v" using "2.prems"(2) by (cases q) simp_all
    consider "m = source_range_new off (off + str_len ?m)" | "m \<in> set (ref_scan E cs q (off + str_len ?m) ?v)"
      using "2.prems"(1) True by auto
    then show ?thesis
    proof cases
      case 1
      then show ?thesis using True by (intro exI[of _ "[]"] exI[of _ "c # u"]) simp
    next
      case 2
      then obtain x y where "?v = x @ y" "range_start m = off + str_len ?m + str_len x"
        "prefix_matches E cs q y" "range_end m = range_start m + str_len (take (length q) y)"
        using "2.IH"(1)[OF True] "2.prems"(2) by blast
      then show ?thesis using split by (intro exI[of _ "?m @ x"] exI[of _ y]) (simp add: add.assoc)
    qed
  next
    case False
    then obtain x y where "u = x @ y" "range_start m = off + len_utf8 c + str_len x"
      "prefix_matches E cs q y" "range_end m = range_start m + str_len (take (length q) y)"
      using "2.IH"(2)[OF False] "2.prems" by auto
    then show ?thesis by (intro exI[of _ "c # x"] exI[of _ y]) simp
  qed
qed simp

lemma ref_scan_text:
  assumes "m \<in> set (ref_scan E cs q 0 u)" and "q \<noteq> []"
  shows "list_all2 (\<lambda>h p. chars_match E h p cs) (byte_slice u (range_start m) (range_end m)) q"
proof -
  obtain x y where m: "u = x @ y" "range_start m = str_len x" "prefix_matches E cs q y"
    "range_end m = range_start m + str_len (take (length q) y)"
    using ref_scan_sound[OF assms] by auto
  then have "u = x @ take (length q) y @ drop (length q) y" by simp
  then have "byte_slice u (range_start m) (range_end m) = take (length q) y"
    using m(2,4) byte_slice_middle by metis
  then show ?thesis using m(3) by (simp add: prefix_matches_def)
qed

lemma ref_scan_complete:
  "q \<noteq> [] \<Longrightarrow> u = x @ y \<Longrightarrow> prefix_matches E cs q y \<Longrightarrow>
   \<exists>m \<in> set (ref_scan E cs q off u). range_start m \<le> off + str_len x \<and> off + str_len x < range_end m"
proof (induction E cs q off u arbitrary: x rule: ref_scan.induct)
  case (1 E cs q off)
  then show ?case by (auto simp: prefix_matches_def)
next
  case (2 E cs q off c u)
  show ?case
  proof (cases "prefix_matches E cs q (c # u)")
    case True
    let ?m = "take (length q) (c # u)" and ?v = "drop (length q - 1) u"
    have split: "c # u = ?m @ ?v" using "2.prems"(1) by (cases q) simp_all
    show ?thesis
    proof (cases "str_len x < str_len ?m")
      case lt: True
      then show ?thesis using True by simp
    next
      case False
      obtain z where z: "x = ?m @ z"
      proof -
        have "?m @ ?v = x @ y" using split "2.prems"(2) by metis
        then obtain us where "?m = x @ us \<and> us @ ?v = y \<or> ?m @ us = x \<and> ?v = us @ y"
          using append_eq_append_conv2 by blast
        then show ?thesis
        proof (elim disjE conjE)
          assume "?m = x @ us" "us @ ?v = y"
          then have "us = []" using False arg_cong[of ?m "x @ us" str_len] by (simp del: take_eq_Nil)
          then show ?thesis using that[of "[]"] \<open>?m = x @ us\<close> by simp
        qed (use that in auto)
      qed
      then have "?v = z @ y" using split "2.prems"(2) by (metis append_assoc append_same_eq same_append_eq)
      then obtain m where "m \<in> set (ref_scan E cs q (off + str_len ?m) ?v)"
        "range_start m \<le> off + str_len ?m + str_len z" "off + str_len ?m + str_len z < range_end m"
        using "2.IH"(1)[OF True "2.prems"(1)] "2.prems"(3) by blast
      moreover have "str_len x = str_len ?m + str_len z" using z str_len_append by metis
      ultimately show ?thesis using True by (intro bexI[of _ m]) simp_all
    qed
  next
    case False
    then obtain x' where x: "x = c # x'" using "2.prems"(2,3) by (cases x) auto
    then obtain m where "m \<in> set (ref_scan E cs q (off + len_utf8 c) u)"
      "range_start m \<le> off + len_utf8 c + str_len x'" "off + len_utf8 c + str_len x' < range_end m"
      using "2.IH"(2)[OF False "2.prems"(1), of x'] "2.prems"(2,3) by auto
    then show ?thesis using False x by (intro bexI[of _ m]) simp_all
  qed
qed

section \<open>One window\<close>

lemma scan_window_spec:
  assumes q: "q \<noteq> []" and w: "w \<le> length t" "wend = start + str_len (take w t)"
    and enough: "\<And>i. i < w \<Longrightarrow> rest = [] \<or> i + length q \<le> length t"
  shows "idx \<le> length t \<Longrightarrow> length t - idx \<le> fuel \<Longrightarrow> length (sc_matches st) \<le> max_matches \<Longrightarrow>
    sc_resume st = max wend (start + str_len (take idx t)) \<Longrightarrow>
    (\<exists>st'. scan_window E (\<lambda>_. False) q cs start wend (str_len t) (char_indices 0 t) fuel idx st =
        Ok (WindowTruncated st') \<and>
      sc_matches st' = take max_matches (sc_matches st @ ref_scan E cs q (start + str_len (take idx t)) (drop idx t @ rest)) \<and>
      max_matches < length (sc_matches st @ ref_scan E cs q (start + str_len (take idx t)) (drop idx t @ rest))) \<or>
    (\<exists>st' j. scan_window E (\<lambda>_. False) q cs start wend (str_len t) (char_indices 0 t) fuel idx st =
        Ok (WindowDone st') \<and> w \<le> j \<and> j \<le> length t \<and> sc_resume st' = start + str_len (take j t) \<and>
      length (sc_matches st') \<le> max_matches \<and>
      sc_matches st @ ref_scan E cs q (start + str_len (take idx t)) (drop idx t @ rest) =
        sc_matches st' @ ref_scan E cs q (start + str_len (take j t)) (drop j t @ rest))"
proof (induction fuel arbitrary: idx st)
  case 0
  then have "idx = length t" by simp
  moreover have "wend \<le> start + str_len (take idx t)"
    using \<open>idx = length t\<close> w str_len_take_mono[OF w(1), of t] by simp
  ultimately show ?case
    using 0 w by (intro disjI2 exI[of _ st] exI[of _ idx]) (simp add: scan_window.simps max_def)
next
  case (Suc fuel)
  let ?pos = "\<lambda>i. start + str_len (take i t)"
  show ?case
  proof (cases "idx < length t \<and> ?pos idx < wend")
    case False
    have ge: "wend \<le> ?pos idx"
      using False Suc.prems(1) w str_len_take_mono[OF w(1), of t] by (cases "idx < length t") auto
    then have "w \<le> idx" using w Suc.prems(1) str_len_take_less_iff[of idx t w] by simp
    have "\<not> (idx < length (char_indices 0 t) \<and> start + fst (char_indices 0 t ! idx) < wend)"
      using False by (auto simp: fst_char_indices)
    then have "scan_window E (\<lambda>_. False) q cs start wend (str_len t) (char_indices 0 t) (Suc fuel) idx st =
        Ok (WindowDone st)"
      by (subst scan_window.simps) (simp only: if_False)
    then show ?thesis
      using Suc.prems ge \<open>w \<le> idx\<close> by (intro disjI2 exI[of _ st] exI[of _ idx]) simp
  next
    case True
    then have lt: "idx < length t" and before: "idx < w"
      using w str_len_take_less_iff[of idx t w] by auto
    define st1 where "st1 = st\<lparr>sc_checks := (if sc_checks st + 1 \<ge> cancel_check_interval then 0 else sc_checks st + 1),
      sc_polls := (if sc_checks st + 1 \<ge> cancel_check_interval then sc_polls st + 1 else sc_polls st)\<rparr>"
    have st1: "sc_matches st1 = sc_matches st" "sc_resume st1 = sc_resume st" by (simp_all add: st1_def)
    have ne: "drop idx t @ rest = t ! idx # (drop (Suc idx) t @ rest)"
      using lt by (simp add: Cons_nth_drop_Suc)
    have one: "?pos (Suc idx) = ?pos idx + len_utf8 (t ! idx)"
      using lt by (simp add: take_Suc_conv_app_nth)
    show ?thesis
    proof (cases "prefix_matches E cs q (drop idx t @ rest)")
      case False
      have step: "scan_window E (\<lambda>_. False) q cs start wend (str_len t) (char_indices 0 t) (Suc fuel) idx st =
          scan_window E (\<lambda>_. False) q cs start wend (str_len t) (char_indices 0 t) fuel (idx + 1) st1"
        using True False try_match_eq[OF lt enough[OF before], of E cs]
        by (subst scan_window.simps) (simp add: fst_char_indices Let_def st1_def)
      have rs: "ref_scan E cs q (?pos idx) (drop idx t @ rest) =
          ref_scan E cs q (?pos (Suc idx)) (drop (Suc idx) t @ rest)"
        using False unfolding ne one by simp
      have "sc_resume st1 = max wend (?pos (Suc idx))"
        using Suc.prems(4) before w str_len_take_le_iff[of "Suc idx" t w] st1 True by (simp add: max_def)
      then show ?thesis
        using Suc.IH[of "Suc idx" st1] Suc.prems lt st1 unfolding step rs by simp
    next
      case match: True
      define e where "e = idx + length q"
      have e: "e \<le> length t" "idx < e"
        using match enough[OF before] lt q by (auto simp: e_def prefix_matches_def)
      have tk: "take (length q) (drop idx t @ rest) = take (length q) (drop idx t)" using e by (simp add: e_def)
      have pe: "?pos e = ?pos idx + str_len (take (length q) (drop idx t))"
        unfolding e_def take_add str_len_append by simp
      have dr: "drop (length q - 1) (drop (Suc idx) t @ rest) = drop e t @ rest"
      proof -
        have "Suc idx + (length q - 1) = e" using q by (cases q) (simp_all add: e_def)
        then show ?thesis using e by (simp add: ac_simps)
      qed
      have rs: "ref_scan E cs q (?pos idx) (drop idx t @ rest) =
          source_range_new (?pos idx) (?pos e) # ref_scan E cs q (?pos e) (drop e t @ rest)"
        using match tk pe dr unfolding ne by (simp add: add.assoc)
      have end_rel: "(case get (char_indices 0 t) e of Some x \<Rightarrow> fst x | None \<Rightarrow> str_len t) = str_len (take e t)"
        using e by (auto simp: get_def fst_char_indices)
      let ?st2 = "st1\<lparr>sc_matches := sc_matches st1 @ [source_range_new (?pos idx) (?pos e)],
        sc_resume := max (sc_resume st1) (?pos e)\<rparr>"
      have step: "scan_window E (\<lambda>_. False) q cs start wend (str_len t) (char_indices 0 t) (Suc fuel) idx st =
          (if length (sc_matches st1) \<ge> max_matches then Ok (WindowTruncated st1)
           else scan_window E (\<lambda>_. False) q cs start wend (str_len t) (char_indices 0 t) fuel e ?st2)"
        using True match try_match_eq[OF lt enough[OF before], of E cs] end_rel
        by (subst scan_window.simps) (simp add: fst_char_indices Let_def e_def[symmetric] st1_def)
      show ?thesis
      proof (cases "length (sc_matches st1) \<ge> max_matches")
        case True
        then have "length (sc_matches st) = max_matches" using Suc.prems(3) st1 by simp
        then show ?thesis using True st1 unfolding step rs by simp
      next
        case False
        have "?pos idx \<le> ?pos e" using e by (simp add: str_len_take_mono)
        then have "sc_resume ?st2 = max wend (?pos e)"
          using Suc.prems(4) st1 by simp
        then show ?thesis
          using Suc.IH[of e ?st2] Suc.prems e st1 False unfolding step rs by simp
      qed
    qed
  qed
qed

section \<open>All windows\<close>

context ropey
begin

lemma floor_candidate_spec:
  "c \<le> str_len (full_text R b) \<Longrightarrow>
   is_boundary (full_text R b) (floor_candidate R b c) \<and> floor_candidate R b c \<le> c \<and>
   (\<forall>p \<le> c. is_boundary (full_text R b) p \<longrightarrow> p \<le> floor_candidate R b c)"
proof (induction c)
  case (Suc c)
  show ?case
  proof (cases "is_boundary (full_text R b) (Suc c)")
    case False
    then have "\<not> is_ok (validate_offset R b (Suc c))" by (simp add: is_ok_iff)
    then show ?thesis using Suc False by (auto simp: le_Suc_eq)
  qed simp
qed simp

text \<open>A boundary lies within three bytes of every position.\<close>

lemma boundary_near:
  assumes "b < str_len s"
  shows "\<exists>p \<le> b. is_boundary s p \<and> b < p + 4"
proof -
  have "b < str_len s \<Longrightarrow> \<exists>p \<le> b. is_boundary s p \<and> b < p + 4"
  proof (induction s arbitrary: b)
    case (Cons c cs)
    show ?case
    proof (cases "b < len_utf8 c")
      case True
      then show ?thesis using len_utf8_le[of c] by (intro exI[of _ 0]) simp
    next
      case False
      then have "b - len_utf8 c < str_len cs" using Cons.prems unfolding str_len.simps by arith
      then obtain p where p: "p \<le> b - len_utf8 c" "is_boundary cs p" "b - len_utf8 c < p + 4"
        using Cons.IH[of "b - len_utf8 c"] by auto
      have "is_boundary (c # cs) (len_utf8 c + p)"
        using is_boundary_append_iff[of "[c]" "len_utf8 c + p" cs] p(2) by simp
      moreover have "len_utf8 c + p \<le> b" "b < len_utf8 c + p + 4" using p False by arith+
      ultimately show ?thesis by blast
    qed
  qed simp
  then show ?thesis using assms .
qed

lemma floor_char_boundary_spec:
  assumes "byte \<le> limit" and "is_boundary (full_text R b) limit"
  shows "is_boundary (full_text R b) (floor_char_boundary R b byte)"
    and "floor_char_boundary R b byte \<le> byte" and "byte < floor_char_boundary R b byte + 4"
    and "\<forall>p \<le> byte. is_boundary (full_text R b) p \<longrightarrow> p \<le> floor_char_boundary R b byte"
proof -
  let ?s = "full_text R b"
  have le: "byte \<le> str_len ?s" using assms is_boundary_le by (meson le_trans)
  then have eq: "floor_char_boundary R b byte = floor_candidate R b byte"
    by (simp add: floor_char_boundary_def len_bytes_eq)
  note f = floor_candidate_spec[OF le, folded eq]
  show "is_boundary ?s (floor_char_boundary R b byte)" "floor_char_boundary R b byte \<le> byte" using f by simp_all
  show ge: "\<forall>p \<le> byte. is_boundary ?s p \<longrightarrow> p \<le> floor_char_boundary R b byte" using f by simp
  show "byte < floor_char_boundary R b byte + 4"
  proof (cases "byte = str_len ?s")
    case True
    then have "byte \<le> floor_char_boundary R b byte" using ge by simp
    then show ?thesis by simp
  next
    case False
    then obtain p where "p \<le> byte" "is_boundary ?s p" "byte < p + 4"
      using boundary_near[of byte ?s] le by auto
    then have "p \<le> floor_char_boundary R b byte" using ge by blast
    then show ?thesis using \<open>byte < p + 4\<close> by simp
  qed
qed

end

context text_segments
begin

lemma scan_windows_spec:
  assumes inv: "buffer_inv R b" and q: "q \<noteq> []" "str_len q \<le> max_query_bytes"
    and limit: "is_boundary (full_text R b) limit"
  shows "is_boundary (full_text R b) (sc_resume st) \<Longrightarrow> sc_resume st \<le> limit \<Longrightarrow>
    limit - sc_resume st < fuel \<Longrightarrow> length (sc_matches st) \<le> max_matches \<Longrightarrow>
    scan_windows R b (\<lambda>_. False) q cs limit fuel st =
      (let ms = sc_matches st @ ref_scan R cs q (sc_resume st) (byte_slice (full_text R b) (sc_resume st) limit)
       in Ok (Completed \<lparr>found = take max_matches ms, truncated = max_matches < length ms\<rparr>))"
proof (induction fuel arbitrary: st)
  case (Suc fuel)
  let ?s = "full_text R b" and ?a = "sc_resume st"
  show ?case
  proof (cases "?a < limit")
    case False
    then show ?thesis using Suc.prems by (simp add: Let_def)
  next
    case True
    define wend where "wend = floor_char_boundary R b (min (?a + window_core_bytes) limit)"
    define fetch where "fetch = floor_char_boundary R b (min (wend + window_slack_bytes) limit)"
    note fw = floor_char_boundary_spec[OF min.cobounded2 limit, of "?a + window_core_bytes", folded wend_def]
    note ff = floor_char_boundary_spec[OF min.cobounded2 limit, of "wend + window_slack_bytes", folded fetch_def]
    have gt: "?a < wend"
    proof (cases "?a + window_core_bytes \<le> limit")
      case True
      then show ?thesis using fw(3) by (simp add: window_core_bytes_def)
    next
      case False
      then have "limit \<le> min (?a + window_core_bytes) limit" by simp
      then have "limit \<le> wend" using fw(4) limit by blast
      then show ?thesis using \<open>?a < limit\<close> by simp
    qed
    have wl: "wend \<le> limit" using fw(2) by simp
    have wf: "wend \<le> fetch" using ff(4) fw(1) wl by (simp add: window_slack_bytes_def)
    have fl: "fetch \<le> limit" using ff(2) by simp
    have af: "?a \<le> fetch" using gt wf by simp
    define t where "t = byte_slice ?s ?a fetch"
    define rest where "rest = byte_slice ?s fetch limit"
    have t: "buf_text R b (source_range_new ?a fetch) = Ok t"
      using buf_text_Ok[of b "source_range_new ?a fetch"] Suc.prems(1) ff(1) af
      by (simp add: valid_range_def t_def)
    have trest: "byte_slice ?s ?a limit = t @ rest"
      using byte_slice_adjacent[OF Suc.prems(1) ff(1) limit af fl] by (simp add: t_def rest_def)
    have lent: "str_len t = fetch - ?a" using str_len_byte_slice[OF Suc.prems(1) ff(1) af] by (simp add: t_def)
    obtain w where w: "w \<le> length t" "wend = ?a + str_len (take w t)"
    proof -
      have "t = byte_slice ?s ?a wend @ byte_slice ?s wend fetch"
        using byte_slice_adjacent[OF Suc.prems(1) fw(1) ff(1)] gt wf by (simp add: t_def)
      moreover have "str_len (byte_slice ?s ?a wend) = wend - ?a"
        using str_len_byte_slice[OF Suc.prems(1) fw(1)] gt by simp
      ultimately show ?thesis using that[of "length (byte_slice ?s ?a wend)"] gt by simp
    qed
    have enough: "rest = [] \<or> i + length q \<le> length t" if "i < w" for i
    proof (cases "fetch = limit")
      case False
      then have "wend + window_slack_bytes < fetch + 4" using ff(3,4) limit fl by (auto simp: min_def split: if_splits)
      then have "window_slack_bytes < str_len t - str_len (take w t) + 4" using lent w(2) af by simp
      moreover have "str_len t = str_len (take w t) + str_len (drop w t)" by (metis append_take_drop_id str_len_append)
      ultimately have "window_slack_bytes < str_len (drop w t) + 4" by simp
      then have "4 * max_query_bytes < 4 * length (drop w t)"
        using str_len_le_4_length[of "drop w t"] by (simp add: window_slack_bytes_def)
      moreover have "length q \<le> max_query_bytes" using length_le_str_len[of q] q(2) by simp
      ultimately have "i + length q \<le> length t" using that by simp
      then show ?thesis ..
    qed (simp add: rest_def)
    define st0 where "st0 = st\<lparr>sc_polls := sc_polls st + 1, sc_resume := wend\<rparr>"
    have st0: "sc_matches st0 = sc_matches st" "sc_resume st0 = max wend (?a + str_len (take 0 t))"
      using gt by (simp_all add: st0_def)
    let ?ms = "sc_matches st @ ref_scan R cs q ?a (t @ rest)"
    have step: "scan_windows R b (\<lambda>_. False) q cs limit (Suc fuel) st =
        res_bind (scan_window R (\<lambda>_. False) q cs ?a wend (str_len t) (char_indices 0 t) (length t) 0 st0)
          (\<lambda>out. case out of WindowCancelled \<Rightarrow> Ok Cancelled
           | WindowTruncated st' \<Rightarrow> Ok (Completed \<lparr>found = sc_matches st', truncated = True\<rparr>)
           | WindowDone st' \<Rightarrow> scan_windows R b (\<lambda>_. False) q cs limit fuel st')"
      using True t by (simp add: Let_def st0_def flip: wend_def fetch_def)
    consider (trunc) st' where "scan_window R (\<lambda>_. False) q cs ?a wend (str_len t) (char_indices 0 t) (length t) 0 st0 =
          Ok (WindowTruncated st')" "sc_matches st' = take max_matches ?ms" "max_matches < length ?ms"
      | (fin) st' j where "scan_window R (\<lambda>_. False) q cs ?a wend (str_len t) (char_indices 0 t) (length t) 0 st0 =
          Ok (WindowDone st')" "w \<le> j" "j \<le> length t" "sc_resume st' = ?a + str_len (take j t)"
          "length (sc_matches st') \<le> max_matches"
          "?ms = sc_matches st' @ ref_scan R cs q (?a + str_len (take j t)) (drop j t @ rest)"
      using scan_window_spec[of q w t wend ?a rest 0 "length t" st0 R cs] q(1) w enough st0 Suc.prems(4)
      by fastforce
    then show ?thesis
    proof cases
      case trunc
      then show ?thesis unfolding step trest Let_def by simp
    next
      case fin
      let ?r = "sc_resume st'"
      have rb: "is_boundary ?s ?r"
        using boundary_in_slice(1)[OF Suc.prems(1) ff(1) af, of "str_len (take j t)"]
          is_boundary_prefix[of "take j t" "drop j t"] fin(4) by (simp add: t_def)
      have rle: "?r \<le> fetch"
        using fin(4) lent af str_len_take_mono[OF fin(3), of t] by simp
      have wr: "wend \<le> ?r" using fin(2,4) w str_len_take_mono[OF fin(2), of t] by simp
      have tail: "byte_slice ?s ?r limit = drop j t @ rest"
      proof -
        have "byte_slice ?s ?a ?r @ byte_slice ?s ?r limit = t @ rest"
          using byte_slice_adjacent[OF Suc.prems(1) rb limit] fin(4) rle fl trest by simp
        also have "\<dots> = take j t @ drop j t @ rest" by simp
        finally have "byte_slice ?s ?a ?r @ byte_slice ?s ?r limit = take j t @ drop j t @ rest" .
        moreover have "str_len (byte_slice ?s ?a ?r) = str_len (take j t)"
          using str_len_byte_slice[OF Suc.prems(1) rb] fin(4) by simp
        ultimately show ?thesis using prefix_by_len by blast
      qed
      have "scan_windows R b (\<lambda>_. False) q cs limit fuel st' =
          (let ms = sc_matches st' @ ref_scan R cs q ?r (byte_slice ?s ?r limit)
           in Ok (Completed \<lparr>found = take max_matches ms, truncated = max_matches < length ms\<rparr>))"
        using rle fl wr gt Suc.prems(3) by (intro Suc.IH[OF rb _ _ fin(5)]) simp_all
      then show ?thesis unfolding step fin(1) trest tail using fin(4,6) by (simp add: Let_def)
    qed
  qed
qed simp

lemma scan_bounded_spec:
  assumes "buffer_inv R b" and "find_query_parse raw = Ok q"
    and "is_boundary (full_text R b) a" and "is_boundary (full_text R b) limit" and "a \<le> limit"
  shows "scan_bounded R b q options a limit (\<lambda>_. False) =
    (let ms = ref_scan R (case_sensitive options) q a (byte_slice (full_text R b) a limit)
     in Ok (Completed \<lparr>found = take max_matches ms, truncated = max_matches < length ms\<rparr>))"
proof -
  have q: "q \<noteq> []" "str_len q \<le> max_query_bytes"
    using assms(2) by (auto simp: find_query_parse_def split: if_splits)
  show ?thesis
    unfolding scan_bounded_def using scan_windows_spec[OF assms(1) q assms(4), of "\<lparr>sc_matches = [], sc_checks = 0, sc_polls = 0, sc_resume = a\<rparr>" "limit + 1" "case_sensitive options"] assms(3,5)
    by simp
qed

lemma find_scan_range_spec:
  assumes "buffer_inv R b" and "find_query_parse raw = Ok q" and "valid_range R b rg"
  shows "find_scan_range R b q options rg (\<lambda>_. False) =
    (let ms = ref_scan R (case_sensitive options) q (range_start rg)
                (byte_slice (full_text R b) (range_start rg) (range_end rg))
     in Ok (Ok (Completed \<lparr>found = take max_matches ms, truncated = max_matches < length ms\<rparr>)))"
proof -
  have bd: "is_boundary (full_text R b) (range_start rg)" "is_boundary (full_text R b) (range_end rg)"
    "range_start rg \<le> range_end rg"
    using assms(3) by (simp_all add: valid_range_def)
  then have "validate_range R b rg = Ok ()" "validate_offset R b (range_start rg) = Ok ()"
    "validate_offset R b (range_end rg) = Ok ()"
    using assms(3) by simp_all
  then show ?thesis
    using scan_bounded_spec[OF assms(1,2) bd] by (simp add: find_scan_range_def Let_def)
qed

lemma find_scan_all_spec:
  assumes "buffer_inv R b" and "find_query_parse raw = Ok q"
  shows "find_scan_all R b q options (\<lambda>_. False) =
    (let ms = ref_scan R (case_sensitive options) q 0 (full_text R b)
     in Ok (Completed \<lparr>found = take max_matches ms, truncated = max_matches < length ms\<rparr>))"
  using scan_bounded_spec[OF assms, of 0 "len_bytes R b"] by (simp add: find_scan_all_def len_bytes_eq)

text \<open>What a completed scan of the whole text has found.\<close>

lemma find_scan_all_found:
  assumes "buffer_inv R b" and "find_query_parse raw = Ok q"
    and "find_scan_all R b q options (\<lambda>_. False) = Ok (Completed res)"
  shows "q \<noteq> []" and "found res = take max_matches (ref_scan R (case_sensitive options) q 0 (full_text R b))"
    and "truncated res = (max_matches < length (ref_scan R (case_sensitive options) q 0 (full_text R b)))"
    and "ordered_from (full_text R b) 0 (found res)"
proof -
  show q: "q \<noteq> []" using assms(2) by (auto simp: find_query_parse_def split: if_splits)
  show found: "found res = take max_matches (ref_scan R (case_sensitive options) q 0 (full_text R b))"
    and "truncated res = (max_matches < length (ref_scan R (case_sensitive options) q 0 (full_text R b)))"
    using find_scan_all_spec[OF assms(1,2), of options] assms(3) by (auto simp: Let_def)
  show "ordered_from (full_text R b) 0 (found res)"
    unfolding found using ref_scan_ordered[OF q, of "full_text R b" "[]" "full_text R b" 0] by (intro ordered_from_take) simp
qed

end

section \<open>Matches on screen\<close>

lemma takeWhile_sorted_filter:
  "sorted_wrt (\<lambda>x y. p y \<longrightarrow> p x) xs \<Longrightarrow> takeWhile p xs = filter p xs"
  by (induction xs) (auto simp: filter_empty_conv)

lemma dropWhile_sorted_filter:
  "sorted_wrt (\<lambda>x y. p y \<longrightarrow> p x) xs \<Longrightarrow> dropWhile p xs = filter (\<lambda>x. \<not> p x) xs"
proof (induction xs)
  case (Cons x xs)
  show ?case
  proof (cases "p x")
    case False
    then have "\<forall>y \<in> set xs. \<not> p y" using Cons.prems by auto
    then have "filter (\<lambda>x. \<not> p x) xs = xs" by (simp add: filter_id_conv)
    then show ?thesis using False by simp
  qed (use Cons in auto)
qed simp

lemma ordered_sorted:
  "ordered_from s cur ms \<Longrightarrow>
   sorted_wrt (\<lambda>m n. range_end m \<le> range_end n \<and> range_start m \<le> range_start n) ms"
proof (induction ms arbitrary: cur)
  case (Cons m ms)
  have "\<forall>n \<in> set ms. range_end m \<le> range_start n \<and> range_start n \<le> range_end n"
    using ordered_from_start Cons.prems by auto
  then show ?case using Cons by fastforce
qed simp

lemma sorted_wrt_imp: "sorted_wrt P xs \<Longrightarrow> (\<And>x y. P x y \<Longrightarrow> Q x y) \<Longrightarrow> sorted_wrt Q xs"
  by (induction xs) auto

lemma matches_in_range_filter:
  assumes "ordered_from s cur ms"
  shows "matches_in_range ms v = filter (\<lambda>m. range_start m < range_end v \<and> range_start v < range_end m) ms"
proof -
  let ?p = "\<lambda>m. range_end m \<le> range_start v" and ?q = "\<lambda>m. range_start m < range_end v"
  have p: "sorted_wrt (\<lambda>m n. ?p n \<longrightarrow> ?p m) ms"
    by (rule sorted_wrt_imp[OF ordered_sorted[OF assms]]) simp
  have q: "sorted_wrt (\<lambda>m n. ?q n \<longrightarrow> ?q m) ms"
    by (rule sorted_wrt_imp[OF ordered_sorted[OF assms]]) simp
  have "matches_in_range ms v = takeWhile ?q (dropWhile ?p ms)"
    by (simp add: matches_in_range_def partition_point_def Let_def dropWhile_eq_drop[symmetric]
        takeWhile_eq_take[symmetric])
  also have "dropWhile ?p ms = filter (\<lambda>m. \<not> ?p m) ms" using dropWhile_sorted_filter[OF p] .
  also have "takeWhile ?q (filter (\<lambda>m. \<not> ?p m) ms) = filter ?q (filter (\<lambda>m. \<not> ?p m) ms)"
    by (rule takeWhile_sorted_filter) (use q in \<open>auto intro: sorted_wrt_filter\<close>)
  finally show ?thesis by (simp add: not_le conj_commute)
qed

end
