(* ===== verification/Session_Facts.thy ===== *)
theory Session_Facts
  imports Session_Runs Find_Facts
begin

text \<open>
  What every method of a session keeps: the editor (unless it is one of the three
  places where the text may be replaced), the bookkeeping of the running write, and
  the invariant of reachable sessions.
\<close>

section \<open>The editor is only replaced in four places\<close>

fun may_replace :: "'r session_event \<Rightarrow> bool" where
  "may_replace (FinishCheck now ticket result) \<longleftrightarrow> True"
| "may_replace (ApplyReload now a) \<longleftrightarrow> True"
| "may_replace (FinishReload now request disk) \<longleftrightarrow> True"
| "may_replace (Adopt loaded) \<longleftrightarrow> True"
| "may_replace _ \<longleftrightarrow> False"

lemma external_editor [simp]:
  "ds_editor (external_missing s) = ds_editor s" "ds_editor (remember_external observed s) = ds_editor s"
  "ds_saved_revision (external_missing s) = ds_saved_revision s"
  "ds_saved_revision (remember_external observed s) = ds_saved_revision s"
  "ds_in_flight (external_missing s) = ds_in_flight s" "ds_in_flight (remember_external observed s) = ds_in_flight s"
  "ds_in_flight_target (external_missing s) = ds_in_flight_target s"
  "ds_in_flight_target (remember_external observed s) = ds_in_flight_target s"
  "ds_generation (external_missing s) = ds_generation s" "ds_generation (remember_external observed s) = ds_generation s"
  "ds_save_sequence (external_missing s) = ds_save_sequence s"
  "ds_save_sequence (remember_external observed s) = ds_save_sequence s"
  "ds_external (external_missing s) = ExtMissing"
  "ds_external (remember_external observed s) =
     ExtChanged \<lparr>oe_fingerprint = of_fingerprint observed, oe_stamp = of_stamp observed, oe_document = of_document observed\<rparr>"
  by (simp_all add: external_missing_def remember_external_def Let_def)

lemma start_write_keeps [simp]:
  "ds_editor (snd (start_write p g s)) = ds_editor s" "ds_saved_revision (snd (start_write p g s)) = ds_saved_revision s"
  "ds_generation (snd (start_write p g s)) = ds_generation s" "ds_external (snd (start_write p g s)) = ds_external s"
  "ds_file (snd (start_write p g s)) = ds_file s"
  by (simp_all add: start_write_def Let_def)

lemma request_confirmed_cases:
  "request_confirmed_overwrite a s = (None, s) \<or>
   (\<exists>p g. request_confirmed_overwrite a s =
      (Some (fst (start_write p g (s\<lparr>ds_live_approval := None\<rparr>))), snd (start_write p g (s\<lparr>ds_live_approval := None\<rparr>))) \<and>
      ds_in_flight s = None \<and> approval_is_current a ResolveOverwrite s \<and> file_path (ds_file s) = Some p)"
  by (auto simp: request_confirmed_overwrite_def case_prod_beta Let_def split: option.splits)

lemma request_save_cases:
  "snd (request_save fs intent s) = s \<or>
   snd (request_save fs intent s) = s\<lparr>ds_pending_save := Some intent\<rparr> \<or>
   (\<exists>p g l. snd (request_save fs intent s) = snd (start_write p g (s\<lparr>ds_live_approval := l\<rparr>)) \<and>
      ds_in_flight s = None)"
proof (cases "\<exists>a. intent = SaveConfirmed a")
  case True
  then obtain a where "intent = SaveConfirmed a" ..
  then show ?thesis
    using request_confirmed_cases[of a s] by (auto simp: request_save_def) blast
next
  case False
  have eq: "request_save fs intent s = (case save_target fs s intent of
      None \<Rightarrow> (NeedsPath, s)
    | Some (p, guard) \<Rightarrow>
        if ds_in_flight s \<noteq> None then (Queued, s\<lparr>ds_pending_save := Some intent\<rparr>)
        else let (job, s) = start_write p guard s in (DecideWrite job, s))"
    using False by (cases intent) (auto simp: request_save_def)
  then show ?thesis
  proof (cases "save_target fs s intent")
    case (Some pg)
    show ?thesis
    proof (cases "ds_in_flight s")
      case None
      then have "snd (request_save fs intent s) =
          snd (start_write (fst pg) (snd pg) (s\<lparr>ds_live_approval := ds_live_approval s\<rparr>))"
        using eq Some by (simp add: case_prod_beta Let_def)
      then show ?thesis using None by blast
    qed (use eq Some in \<open>simp add: case_prod_beta\<close>)
  qed (use eq in simp)
qed

lemmas quiet_defs = note_edit_def set_view_state_def note_auto_named_def stop_auto_naming_def
  take_pending_save_def finish_rename_def apply_file_event_def apply_folder_delete_def apply_folder_rename_def
  missing_file_def move_file_def take_recheck_request_def abandon_external_check_def begin_rename_def
  begin_external_check_def approve_resolution_def begin_confirmed_reload_def Let_def

lemma finish_save_editor: "ds_editor (snd (finish_save ticket result s)) = ds_editor s"
  by (auto simp: finish_save_def Let_def split: sum.splits save_failure.splits)

lemma request_editor: "ds_editor (snd (request_save fs intent s)) = ds_editor s"
  "ds_editor (snd (request_confirmed_overwrite a s)) = ds_editor s"
  using request_save_cases[of fs intent s] request_confirmed_cases[of a s] by auto

lemma handle_editor: "\<not> may_replace event \<Longrightarrow> ds_editor (handle R event s) = ds_editor s"
  by (cases event) (auto simp: finish_save_editor request_editor quiet_defs
      split: option.splits file_event.splits external_change.splits)

section \<open>Taking the disk's version\<close>

context text_segments
begin

lemma editor_from_document_idle:
  "buffer_inv R d \<Longrightarrow> idle R (full_text R d) (editor_from_document R d)"
  using editor_new_idle[of "[]"]
  by (simp add: idle_iff editor_from_document_def editor_new_def sel_ok_def)

end

text \<open>\<open>p\<close> is \<open>off\<close> rounded down to a char boundary of \<open>s\<close>.\<close>

definition rounded :: "str \<Rightarrow> nat \<Rightarrow> nat \<Rightarrow> bool" where
  "rounded s off p \<longleftrightarrow> is_boundary s p \<and> p \<le> off \<and> (\<forall>q \<le> off. is_boundary s q \<longrightarrow> q \<le> p)"

context text_segments
begin

lemma nearest_valid_offset_rounded:
  "rounded (full_text R (ed_document e)) off (nearest_valid_offset R e off)"
proof -
  let ?s = "full_text R (ed_document e)"
  have "q \<le> min off (str_len ?s)" if "q \<le> off" "is_boundary ?s q" for q
    using that is_boundary_le by simp
  then show ?thesis
    using floor_candidate_spec[of "min off (str_len ?s)" "ed_document e"]
    by (auto simp: rounded_def nearest_valid_offset_def len_bytes_eq)
qed

text \<open>
  The new editor: the disk's text with an empty history, and both ends of the old
  selection rounded down to a char boundary of the new text.
\<close>

lemma replace_with_disk_editor:
  assumes "buffer_inv R (of_document observed)"
  shows "ed_document (ds_editor (replace_with_disk R now observed s)) = of_document observed"
    and "idle R (full_text R (of_document observed)) (ds_editor (replace_with_disk R now observed s))"
    and "rounded (full_text R (of_document observed)) (sel_anchor (ed_selection (ds_editor s)))
      (sel_anchor (ed_selection (ds_editor (replace_with_disk R now observed s))))"
    and "rounded (full_text R (of_document observed)) (sel_active (ed_selection (ds_editor s)))
      (sel_active (ed_selection (ds_editor (replace_with_disk R now observed s))))"
proof -
  let ?d = "of_document observed" and ?b = "ed_selection (ds_editor s)"
  let ?e = "editor_from_document R ?d"
  let ?sel = "\<lparr>sel_anchor = nearest_valid_offset R ?e (sel_anchor ?b),
    sel_active = nearest_valid_offset R ?e (sel_active ?b)\<rparr>"
  have doc: "ed_document ?e = ?d" by (simp add: editor_from_document_def)
  have r: "rounded (full_text R ?d) off (nearest_valid_offset R ?e off)" for off
    using nearest_valid_offset_rounded[of ?e off] doc by simp
  have ok: "sel_ok (full_text R (ed_document ?e)) ?sel"
    using r doc by (simp add: sel_ok_def rounded_def)
  obtain e' where e': "set_selection R now ?sel ?e = (Ok (), e')" "idle R (full_text R ?d) e'"
    "ed_selection e' = ?sel" "ed_document e' = ?d"
    using set_selection_Ok[OF idle_inv[OF editor_from_document_idle[OF assms]], of ?sel now] ok doc by auto
  have "ds_editor (replace_with_disk R now observed s) = e'"
    by (simp add: replace_with_disk_def Let_def e'(1))
  then show "ed_document (ds_editor (replace_with_disk R now observed s)) = ?d"
    "idle R (full_text R ?d) (ds_editor (replace_with_disk R now observed s))"
    "rounded (full_text R ?d) (sel_anchor ?b) (sel_anchor (ed_selection (ds_editor (replace_with_disk R now observed s))))"
    "rounded (full_text R ?d) (sel_active ?b) (sel_active (ed_selection (ds_editor (replace_with_disk R now observed s))))"
    using e' r by simp_all
qed

end

section \<open>When the text is replaced\<close>

lemma file_update_keeps [simp]:
  "session_revision (s\<lparr>ds_file := f\<rparr>) = session_revision s" "is_dirty (s\<lparr>ds_file := f\<rparr>) = is_dirty s"
  "session_revision (s\<lparr>ds_check_in_flight := c\<rparr>) = session_revision s" "is_dirty (s\<lparr>ds_check_in_flight := c\<rparr>) = is_dirty s"
  "session_revision (s\<lparr>ds_verify_in_flight := c\<rparr>) = session_revision s" "is_dirty (s\<lparr>ds_verify_in_flight := c\<rparr>) = is_dirty s"
  by (simp_all add: session_revision_def is_dirty_def)

text \<open>
  The five ways a method moves the core of a session (its editor, the running write
  and the saved revision).
\<close>

definition keeps_core :: "'r document_session \<Rightarrow> 'r document_session \<Rightarrow> bool" where
  "keeps_core s t \<longleftrightarrow>
     ds_editor t = ds_editor s \<and> ds_in_flight t = ds_in_flight s \<and> ds_in_flight_target t = ds_in_flight_target s \<and>
     ds_generation t = ds_generation s \<and> ds_save_sequence t = ds_save_sequence s \<and>
     ds_saved_revision t = ds_saved_revision s"

definition takes_slot :: "'r document_session \<Rightarrow> 'r document_session \<Rightarrow> bool" where
  "takes_slot s t \<longleftrightarrow>
     ds_in_flight s = None \<and> ds_editor t = ds_editor s \<and> ds_generation t = ds_generation s \<and>
     ds_saved_revision t = ds_saved_revision s \<and> ds_save_sequence t = ds_save_sequence s + 1 \<and>
     ds_in_flight t = Some \<lparr>st_generation = ds_generation s, st_sequence = ds_save_sequence s + 1,
                            st_revision = session_revision s\<rparr>"

definition frees_slot :: "'r document_session \<Rightarrow> 'r document_session \<Rightarrow> bool" where
  "frees_slot s t \<longleftrightarrow>
     ds_editor t = ds_editor s \<and> ds_in_flight t = None \<and> ds_in_flight_target t = None \<and>
     ds_generation t = ds_generation s \<and> ds_save_sequence t = ds_save_sequence s \<and>
     (ds_saved_revision t = ds_saved_revision s \<or> ds_saved_revision t = session_revision s)"

definition takes_disk ::
  "('r, 'z) rope_api_scheme \<Rightarrow> 'r observed_file \<Rightarrow> 'r document_session \<Rightarrow> 'r document_session \<Rightarrow> bool" where
  "takes_disk R observed s t \<longleftrightarrow>
     ds_in_flight s = None \<and> ed_ime (ds_editor s) = None \<and>
     (\<exists>now u. keeps_core s u \<and> t = replace_with_disk R now observed u)"

lemma takes_diskI:
  "ds_in_flight s = None \<Longrightarrow> ed_ime (ds_editor s) = None \<Longrightarrow> keeps_core s u \<Longrightarrow>
   takes_disk R observed s (replace_with_disk R now observed u)"
  by (auto simp: takes_disk_def)

lemma keeps_core_refl [simp]: "keeps_core s s" by (simp add: keeps_core_def)

lemma keeps_core_trans: "keeps_core s t \<Longrightarrow> keeps_core t u \<Longrightarrow> keeps_core s u"
  by (simp add: keeps_core_def)

lemma keeps_core_simps [simp]:
  "keeps_core s (s\<lparr>ds_file := f\<rparr>)" "keeps_core s (s\<lparr>ds_check_in_flight := c\<rparr>)"
  "keeps_core s (s\<lparr>ds_verify_in_flight := v\<rparr>)" "keeps_core s (s\<lparr>ds_recheck_pending := b\<rparr>)"
  "keeps_core s (s\<lparr>ds_external := x\<rparr>)" "keeps_core s (s\<lparr>ds_pending_save := i\<rparr>)"
  "keeps_core s (s\<lparr>ds_live_approval := l\<rparr>)" "keeps_core s (set_external x s)"
  "keeps_core s (external_missing s)" "keeps_core s (remember_external observed s)"
  by (simp_all add: keeps_core_def)

text \<open>A check keeps the core, or takes the disk's version of an unedited, idle session.\<close>

lemma apply_observed_core:
  "keeps_core s (snd (apply_observed R now ticket observed local s)) \<or>
   (\<not> is_dirty s \<and> session_revision s = ct_revision ticket \<and>
    takes_disk R observed s (snd (apply_observed R now ticket observed local s)))"
proof -
  let ?f = "observed_file_state observed local (ds_file s)"
  have "keeps_core s (set_external x (s\<lparr>ds_file := ?f, ds_file := g\<rparr>))"
    "keeps_core s (remember_external observed (s\<lparr>ds_file := ?f\<rparr>))" for x g
    using keeps_core_trans[OF keeps_core_simps(1)] keeps_core_simps(8,10) by (blast, blast)
  then show ?thesis
    by (auto simp: apply_observed_def Let_def intro: takes_diskI keeps_core_simps(1))
qed

lemma finish_check_core:
  "keeps_core s (snd (finish_external_check R now ticket result s)) \<or>
   (\<exists>observed. res_disk result = DiskPresent observed \<and> \<not> is_dirty s \<and> session_revision s = ct_revision ticket \<and>
      ds_check_in_flight s = Some (ct_sequence ticket) \<and> ds_generation s = ct_generation ticket \<and>
      takes_disk R observed s (snd (finish_external_check R now ticket result s)))"
proof -
  let ?u = "s\<lparr>ds_check_in_flight := None\<rparr>"
  have k: "keeps_core ?u t \<Longrightarrow> keeps_core s t" for t using keeps_core_trans[OF keeps_core_simps(2)] .
  have "takes_disk R observed ?u t \<Longrightarrow> takes_disk R observed s t" for observed t
    using k by (auto simp: takes_disk_def)
  then show ?thesis
    using apply_observed_core[of ?u R now ticket _ "res_local result"] k
    by (auto simp: finish_external_check_def Let_def split: disk_version.splits)
qed

lemma apply_reload_core:
  "keeps_core s (snd (apply_confirmed_reload R now a s)) \<or>
   (\<exists>o'. ds_external s = ExtChanged o' \<and> approval_is_current a DiscardAndReload s \<and>
      takes_disk R \<lparr>of_document = oe_document o', of_fingerprint = oe_fingerprint o', of_stamp = oe_stamp o',
        of_canonical = None\<rparr> s (snd (apply_confirmed_reload R now a s)))"
  by (auto simp: apply_confirmed_reload_def split: external_state.splits
      intro: takes_diskI keeps_core_simps(5))

lemma finish_reload_core:
  "keeps_core s (snd (finish_confirmed_reload R now request disk s)) \<or>
   (\<exists>observed. disk = DiskPresent observed \<and> approval_is_current (rv_approval request) DiscardAndReload s \<and>
      ap_shown (rv_approval request) = Some (of_fingerprint observed) \<and>
      takes_disk R observed s (snd (finish_confirmed_reload R now request disk s)))"
proof -
  let ?u = "s\<lparr>ds_verify_in_flight := None\<rparr>"
  have k: "keeps_core ?u t \<Longrightarrow> keeps_core s t" for t using keeps_core_trans[OF keeps_core_simps(3)] .
  have "approval_is_current b kind ?u = approval_is_current b kind s" for b kind
    by (simp add: approval_is_current_def current_external_fingerprint_def)
  then show ?thesis
    using k by (auto simp: finish_confirmed_reload_def Let_def intro: takes_diskI keeps_core_simps(3)
        split: disk_version.splits)
qed

lemma quiet_core:
  "keeps_core s (note_edit s)" "keeps_core s (set_view_state v s)" "keeps_core s (note_auto_named title s)"
  "keeps_core s (stop_auto_naming s)" "keeps_core s (snd (take_pending_save s))"
  "keeps_core s (snd (apply_file_event event s))" "keeps_core s (snd (apply_folder_delete folder s))"
  "keeps_core s (snd (apply_folder_rename from to s))" "keeps_core s (snd (take_recheck_request s))"
  "keeps_core s (abandon_external_check ct s)" "keeps_core s (snd (begin_external_check s))"
  "keeps_core s (snd (approve_resolution kind shown s))" "keeps_core s (snd (begin_confirmed_reload a s))"
  by (auto simp: keeps_core_def quiet_defs split: option.splits file_event.splits external_change.splits)

lemma start_write_core: "ds_in_flight s = None \<Longrightarrow> takes_slot s (snd (start_write p g (s\<lparr>ds_live_approval := l\<rparr>)))"
  by (simp add: takes_slot_def start_write_def Let_def session_revision_def)

lemma slot_core:
  "keeps_core s (snd (request_save fs intent s)) \<or> takes_slot s (snd (request_save fs intent s))"
  "keeps_core s (snd (request_confirmed_overwrite a s)) \<or> takes_slot s (snd (request_confirmed_overwrite a s))"
  "keeps_core s (snd (begin_rename s)) \<or> takes_slot s (snd (begin_rename s))"
  "keeps_core s (snd (finish_save ticket result s)) \<or> frees_slot s (snd (finish_save ticket result s))"
  "keeps_core s (finish_rename ticket s) \<or> frees_slot s (finish_rename ticket s)"
proof -
  show "keeps_core s (snd (request_save fs intent s)) \<or> takes_slot s (snd (request_save fs intent s))"
    using request_save_cases[of fs intent s] by (elim disjE exE conjE) (auto intro: start_write_core)
  show "keeps_core s (snd (request_confirmed_overwrite a s)) \<or> takes_slot s (snd (request_confirmed_overwrite a s))"
    using request_confirmed_cases[of a s] by (elim disjE exE conjE) (auto intro: start_write_core)
  show "keeps_core s (snd (begin_rename s)) \<or> takes_slot s (snd (begin_rename s))"
    by (simp add: begin_rename_def takes_slot_def Let_def)
  show "keeps_core s (snd (finish_save ticket result s)) \<or> frees_slot s (snd (finish_save ticket result s))"
    by (auto simp: finish_save_def frees_slot_def session_revision_def Let_def split: sum.splits save_failure.splits)
  show "keeps_core s (finish_rename ticket s) \<or> frees_slot s (finish_rename ticket s)"
    by (simp add: finish_rename_def frees_slot_def)
qed

definition moves_slot :: "'r document_session \<Rightarrow> 'r document_session \<Rightarrow> bool" where
  "moves_slot s t \<longleftrightarrow> keeps_core s t \<or> takes_slot s t \<or> frees_slot s t"

lemma quiet_moves_slot: "keeps_core s t \<Longrightarrow> moves_slot s t"
  by (simp add: moves_slot_def)

lemma slot_moves_slot:
  "moves_slot s (snd (request_save fs intent s))" "moves_slot s (snd (request_confirmed_overwrite a s))"
  "moves_slot s (snd (begin_rename s))" "moves_slot s (snd (finish_save ticket result s))"
  "moves_slot s (finish_rename ticket s)"
  unfolding moves_slot_def using slot_core by blast+

lemma handle_moves_slot: "\<not> may_replace event \<Longrightarrow> moves_slot s (handle R event s)"
  by (cases event) (simp_all add: slot_moves_slot quiet_moves_slot quiet_core)

text \<open>Every method moves the core in one of these ways.\<close>

lemma handle_core:
  obtains (keeps) "keeps_core s (handle R event s)"
    | (takes) "takes_slot s (handle R event s)"
    | (frees) "frees_slot s (handle R event s)"
    | (disk) observed where "takes_disk R observed s (handle R event s)"
        "(\<exists>now ticket result. event = FinishCheck now ticket result \<and> res_disk result = DiskPresent observed \<and>
            \<not> is_dirty s \<and> session_revision s = ct_revision ticket) \<or>
         (\<exists>now a o'. event = ApplyReload now a \<and> ds_external s = ExtChanged o' \<and>
            approval_is_current a DiscardAndReload s \<and> of_document observed = oe_document o' \<and>
            of_fingerprint observed = oe_fingerprint o') \<or>
         (\<exists>now request. event = FinishReload now request (DiskPresent observed) \<and>
            approval_is_current (rv_approval request) DiscardAndReload s \<and>
            ap_shown (rv_approval request) = Some (of_fingerprint observed))"
    | (adopts) loaded where "event = Adopt loaded"
proof (cases event)
  case (FinishCheck now ticket result)
  then show ?thesis using finish_check_core[of s R now ticket result] keeps disk by fastforce
next
  case (ApplyReload now a)
  then show ?thesis using apply_reload_core[of s R now a] keeps disk by fastforce
next
  case (FinishReload now request dv)
  then show ?thesis using finish_reload_core[of s R now request dv] keeps disk by fastforce
next
  case (Adopt loaded)
  then show ?thesis using adopts by blast
qed (use handle_moves_slot[of event s R] keeps takes frees in \<open>auto simp: moves_slot_def\<close>)

lemma ed_document_set_selection [simp]: "ed_document (snd (set_selection R t sel e)) = ed_document e"
  by (cases "validate_offset R (ed_document e) (sel_anchor sel)"; cases "validate_offset R (ed_document e) (sel_active sel)")
    (simp_all add: set_selection_def query_def Let_def)

lemma takes_disk_document: "takes_disk R observed s t \<Longrightarrow> ed_document (ds_editor t) = of_document observed"
  by (auto simp: takes_disk_def replace_with_disk_def editor_from_document_def Let_def)

lemma reload_shown:
  "approval_is_current a kind s \<Longrightarrow> ds_external s = ExtChanged o' \<Longrightarrow> ap_shown a = Some (oe_fingerprint o')"
  by (simp add: approval_is_current_def current_external_fingerprint_def)

lemma check_reloaded:
  assumes "finish_external_check R now ticket result s = (outcome, t)"
  shows "outcome = CheckReloaded \<Longrightarrow> \<exists>seen u. res_disk result = DiskPresent seen \<and> t = replace_with_disk R now seen u \<and>
      ds_editor u = ds_editor s \<and> \<not> is_dirty s \<and> session_revision s = ct_revision ticket \<and>
      ed_ime (ds_editor s) = None \<and> ds_in_flight s = None"
    and "outcome \<noteq> CheckReloaded \<Longrightarrow> ds_editor t = ds_editor s"
  using assms by (auto simp: finish_external_check_def apply_observed_def Let_def
      split: if_splits disk_version.splits)

lemma replace_with_disk_state:
  "\<not> is_dirty (replace_with_disk R now seen u)"
  "fs_baseline (ds_file (replace_with_disk R now seen u)) = Some (of_fingerprint seen)"
  by (simp_all add: replace_with_disk_def is_dirty_def session_revision_def set_baseline_def Let_def)

lemma check_released:
  "ds_check_in_flight s = Some (ct_sequence ticket) \<Longrightarrow>
   ds_check_in_flight (snd (finish_external_check R now ticket result s)) = None"
  by (auto simp: finish_external_check_def apply_observed_def replace_with_disk_def external_missing_def
      remember_external_def Let_def split: disk_version.splits)

section \<open>A granted save\<close>

lemma request_save_write:
  assumes "request_save fs intent s = (DecideWrite job, t)"
  shows "ds_in_flight s = None" and "ds_in_flight t = Some (job_ticket job)"
    and "st_sequence (job_ticket job) = ds_save_sequence t" and "st_revision (job_ticket job) = session_revision s"
    and "job_document job = ed_document (ds_editor s)" and "ds_editor t = ds_editor s"
proof -
  have "\<exists>p g l. ds_in_flight s = None \<and> (job, t) = start_write p g (s\<lparr>ds_live_approval := l\<rparr>)"
  proof (cases "\<exists>a. intent = SaveConfirmed a")
    case True
    then obtain a where a: "intent = SaveConfirmed a" ..
    then show ?thesis
      using assms request_confirmed_cases[of a s]
      by (auto simp: request_save_def split: if_splits) (metis prod.collapse)
  next
    case False
    then obtain p g where "ds_in_flight s = None" "(job, t) = start_write p g s"
      using assms by (cases intent) (auto simp: request_save_def case_prod_beta Let_def split: option.splits if_splits)
    then have "ds_in_flight s = None \<and> (job, t) = start_write p g (s\<lparr>ds_live_approval := ds_live_approval s\<rparr>)" by simp
    then show ?thesis by blast
  qed
  then show "ds_in_flight s = None" "ds_in_flight t = Some (job_ticket job)"
    "st_sequence (job_ticket job) = ds_save_sequence t" "st_revision (job_ticket job) = session_revision s"
    "job_document job = ed_document (ds_editor s)" "ds_editor t = ds_editor s"
    by (auto simp: start_write_def session_revision_def Let_def)
qed

section \<open>The invariant\<close>

fun holds_last :: "u64 \<Rightarrow> u64 option \<Rightarrow> bool" where
  "holds_last c h \<longleftrightarrow> h = None \<or> h = Some c"

definition ticket_ok :: "'r document_session \<Rightarrow> bool" where
  "ticket_ok s =
     (case ds_in_flight s of
        None \<Rightarrow> ds_in_flight_target s = None
      | Some t \<Rightarrow> st_sequence t = ds_save_sequence s \<and> st_generation t = ds_generation s \<and>
                  st_revision t \<le> session_revision s)"

definition external_ok :: "('r, 'z) rope_api_scheme \<Rightarrow> 'r document_session \<Rightarrow> bool" where
  "external_ok R s \<longleftrightarrow> (\<forall>o'. ds_external s = ExtChanged o' \<longrightarrow> buffer_inv R (oe_document o'))"

definition session_inv :: "('r, 'z) rope_api_scheme \<Rightarrow> 'r document_session \<Rightarrow> bool" where
  "session_inv R s \<longleftrightarrow>
     (\<exists>t0. editor_inv R t0 (ds_editor s)) \<and> ds_saved_revision s \<le> session_revision s \<and> ticket_ok s \<and>
     external_ok R s \<and> holds_last (ds_check_sequence s) (ds_check_in_flight s) \<and>
     holds_last (ds_verify_sequence s) (ds_verify_in_flight s) \<and>
     holds_last (ds_approval_serial s) (ds_live_approval s)"

lemma external_okI: "ds_external t = ds_external s \<or> ds_external t = InSync \<Longrightarrow> external_ok R s \<Longrightarrow> external_ok R t"
  by (auto simp: external_ok_def)

lemma ds_external_replace [simp]: "ds_external (replace_with_disk R now observed s) = InSync"
  by (simp add: replace_with_disk_def Let_def)

lemma external_ok_check:
  "external_ok R s \<Longrightarrow> disk_ok R (res_disk result) \<Longrightarrow> external_ok R (snd (finish_external_check R now ticket result s))"
  "external_ok R s \<Longrightarrow> disk_ok R disk \<Longrightarrow> external_ok R (snd (finish_confirmed_reload R now request disk s))"
  by (auto simp: external_ok_def finish_external_check_def finish_confirmed_reload_def apply_observed_def Let_def
      split: disk_version.splits if_splits)

lemma external_ok_reload: "external_ok R s \<Longrightarrow> external_ok R (snd (apply_confirmed_reload R now a s))"
  by (auto simp: external_ok_def apply_confirmed_reload_def split: external_state.splits)

lemma quiet_external:
  "\<not> may_replace event \<Longrightarrow> ds_external (handle R event s) = ds_external s \<or> ds_external (handle R event s) = InSync"
proof (cases event)
  case (RequestSave fs intent)
  then show ?thesis using request_save_cases[of fs intent s] by auto
next
  case (ConfirmOverwrite a)
  then show ?thesis using request_confirmed_cases[of a s] by auto
next
  case (FinishSave ticket result)
  then show ?thesis by (auto simp: finish_save_def Let_def split: sum.splits save_failure.splits)
qed (auto simp: quiet_defs split: option.splits file_event.splits external_change.splits)

lemma handle_external_ok: "external_ok R s \<Longrightarrow> event_ok R event \<Longrightarrow> external_ok R (handle R event s)"
proof (cases "may_replace event")
  case True
  assume "external_ok R s" "event_ok R event"
  with True show ?thesis
    by (cases event) (simp_all add: external_ok_check external_ok_reload, simp add: external_ok_def adopt_def Let_def)
next
  case False
  assume "external_ok R s"
  then show ?thesis using quiet_external[OF False] external_okI by blast
qed

lemma ticket_ok_keeps: "keeps_core s t \<Longrightarrow> ticket_ok s \<Longrightarrow> ticket_ok t"
  by (auto simp: ticket_ok_def keeps_core_def session_revision_def split: option.splits)

context text_segments
begin

lemma takes_disk_facts:
  assumes "takes_disk R observed s t" and "buffer_inv R (of_document observed)"
  shows "ed_document (ds_editor t) = of_document observed" and "idle R (full_text R (of_document observed)) (ds_editor t)"
    and "ds_in_flight t = None" and "ds_in_flight_target t = ds_in_flight_target s"
    and "ds_saved_revision t = session_revision t"
proof -
  obtain now u where u: "keeps_core s u" "t = replace_with_disk R now observed u" "ds_in_flight s = None"
    using assms(1) by (auto simp: takes_disk_def)
  show "ed_document (ds_editor t) = of_document observed" "idle R (full_text R (of_document observed)) (ds_editor t)"
    using replace_with_disk_editor(1,2)[OF assms(2), where now = now and s = u] u(2) by simp_all
  show "ds_in_flight t = None" "ds_in_flight_target t = ds_in_flight_target s" "ds_saved_revision t = session_revision t"
    using u by (simp_all add: replace_with_disk_def keeps_core_def session_revision_def Let_def)
qed

lemma adopt_facts:
  assumes "buffer_inv R (lf_document loaded)"
  shows "idle R (full_text R (lf_document loaded)) (ds_editor (adopt R loaded s))"
    and "ds_in_flight (adopt R loaded s) = None" "ds_in_flight_target (adopt R loaded s) = None"
    and "ds_saved_revision (adopt R loaded s) = session_revision (adopt R loaded s)"
  using editor_from_document_idle[OF assms] by (simp_all add: adopt_def session_revision_def Let_def)

lemma handle_core_inv:
  assumes "event_ok R event" and "\<exists>t0. editor_inv R t0 (ds_editor s)"
    and "ds_saved_revision s \<le> session_revision s" and "ticket_ok s" and "external_ok R s"
  shows "(\<exists>t0. editor_inv R t0 (ds_editor (handle R event s))) \<and>
    ds_saved_revision (handle R event s) \<le> session_revision (handle R event s) \<and> ticket_ok (handle R event s)"
proof (cases rule: handle_core[of s R event])
  case keeps
  then show ?thesis using assms(2-4) ticket_ok_keeps[OF keeps]
    by (auto simp: keeps_core_def session_revision_def)
next
  case takes
  then show ?thesis using assms(2-3) by (auto simp: takes_slot_def session_revision_def ticket_ok_def)
next
  case frees
  then show ?thesis using assms(2-3) by (auto simp: frees_slot_def session_revision_def ticket_ok_def)
next
  case (disk observed)
  have "buffer_inv R (of_document observed)"
    using disk(2) assms(1,5) by (auto simp: external_ok_def)
  note t = takes_disk_facts[OF disk(1) this]
  have "ds_in_flight_target s = None" using disk(1) assms(4) by (simp add: takes_disk_def ticket_ok_def)
  then show ?thesis using t idle_inv[OF t(2)] by (auto simp: ticket_ok_def)
next
  case (adopts loaded)
  then show ?thesis
    using adopt_facts[of loaded s] assms(1) idle_inv by (fastforce simp: ticket_ok_def)
qed

lemma editor_step_core:
  assumes "editor_step R (ds_editor s) e'" and "session_revision s + 1 < u64_bound"
    and "\<exists>t0. editor_inv R t0 (ds_editor s)"
  shows "(\<exists>t0. editor_inv R t0 e') \<and> session_revision s \<le> buf_revision (ed_document e') \<and>
    (buf_revision (ed_document e') = session_revision s \<longrightarrow> ed_document e' = ed_document (ds_editor s))"
  using editor_step_inv[OF assms(1)] editor_step_grows[OF assms(1)] assms(2,3) by (fastforce simp: session_revision_def)

text \<open>The invariant holds at every step.\<close>

lemma session_step_inv:
  assumes "session_step R s t" and "session_inv R s"
  shows "session_inv R t"
proof -
  have core: "(\<exists>t0. editor_inv R t0 (ds_editor t)) \<and> ds_saved_revision t \<le> session_revision t \<and> ticket_ok t \<and> external_ok R t"
    using assms(1)
  proof cases
    case (step_editor e')
    have "(\<exists>t0. editor_inv R t0 e') \<and> session_revision s \<le> buf_revision (ed_document e')"
      using editor_step_core[OF step_editor(2,3)] assms(2) by (simp add: session_inv_def)
    then show ?thesis
      using assms(2) step_editor(1)
      by (auto simp: session_inv_def session_revision_def ticket_ok_def external_ok_def split: option.splits)
  next
    case (step_event event)
    then show ?thesis
      using handle_core_inv[of event s] handle_external_ok[of R s event] assms(2) by (simp add: session_inv_def)
  qed
  have "holds_last (ds_check_sequence t) (ds_check_in_flight t)" "holds_last (ds_verify_sequence t) (ds_verify_in_flight t)"
    "holds_last (ds_approval_serial t) (ds_live_approval t)"
    using check_slot.holder_is_last[OF assms(1)] verify_slot.holder_is_last[OF assms(1)]
      approval_slot.holder_is_last[OF assms(1)] assms(2) by (simp_all add: session_inv_def)
  then show ?thesis using core by (simp add: session_inv_def)
qed

lemma session_from_parts_inv: "editor_inv R t0 e \<Longrightarrow> session_inv R (session_from_parts i e f)"
  by (auto simp: session_inv_def session_from_parts_def session_revision_def ticket_ok_def external_ok_def)

text \<open>While a write is running, a revision still means the text the write took.\<close>

lemma session_event_inv: "session_inv R s \<Longrightarrow> event_ok R event \<Longrightarrow> session_inv R (handle R event s)"
  using session_step_inv[OF step_event] .

lemma write_keeps_text:
  assumes start: "request_save fs intent s = (DecideWrite job, t)" and inv: "session_inv R s"
    and run: "steps (session_step R) n t u" and n: "n < u64_bound"
    and held: "ds_in_flight u = Some (job_ticket job)"
  shows "session_inv R u" and "st_revision (job_ticket job) \<le> session_revision u"
    and "session_revision u = st_revision (job_ticket job) \<Longrightarrow> ed_document (ds_editor u) = job_document job"
proof -
  note w = request_save_write[OF start]
  let ?rv = "st_revision (job_ticket job)"
  let ?P = "\<lambda>v. session_inv R v \<and> ?rv \<le> session_revision v \<and>
    (session_revision v = ?rv \<longrightarrow> ed_document (ds_editor v) = job_document job)"
  have t: "?P t"
    using session_event_inv[OF inv, of "RequestSave fs intent"] start w by (simp add: session_revision_def)
  have holder: "save_holder t = Some (ds_save_sequence t)" using w by (simp add: save_holder_def)
  have keep: "?P v'" if "session_step R v v'" "?P v" "save_holder v = Some (ds_save_sequence t)"
    "save_holder v' = Some (ds_save_sequence t)" for v v'
    using that(1)
  proof cases
    case (step_editor e')
    have "session_revision v \<le> buf_revision (ed_document e') \<and>
        (buf_revision (ed_document e') = session_revision v \<longrightarrow> ed_document e' = ed_document (ds_editor v))"
      using editor_step_core[OF step_editor(2,3)] that(2) by (simp add: session_inv_def)
    then show ?thesis
      using that(2) session_step_inv[OF that(1)] step_editor(1) by (auto simp: session_revision_def)
  next
    case (step_event event)
    have busy: "ds_in_flight v \<noteq> None" "ds_in_flight v' \<noteq> None" using that(3,4) by (auto simp: save_holder_def)
    have "keeps_core v v'"
      using handle_core[of v R event]
    proof cases
      case (adopts loaded)
      then show ?thesis using busy(2) step_event by (simp add: adopt_def Let_def)
    qed (use busy step_event in \<open>auto simp: takes_slot_def frees_slot_def takes_disk_def\<close>)
    then show ?thesis
      using that(2) session_step_inv[OF that(1)] by (simp add: keeps_core_def session_revision_def)
  qed
  have "save_holder u = Some (ds_save_sequence t)" using held w(3) by (simp add: save_holder_def)
  from save_slot.while_held[where P = ?P, OF run n t keep this] show "session_inv R u" "?rv \<le> session_revision u"
    "session_revision u = ?rv \<Longrightarrow> ed_document (ds_editor u) = job_document job"
    by simp_all
qed

lemma saved_text:
  assumes "request_save fs intent s = (DecideWrite job, t)" and "session_inv R s"
    and "steps (session_step R) n t u" and "n < u64_bound"
    and fin: "finish_save (job_ticket job) (Inr saved) u = (Saved, v)"
  shows "\<not> is_dirty v" and "ed_document (ds_editor v) = job_document job"
    and "fs_baseline (ds_file v) = sf_fingerprint saved" and "ds_in_flight v = None"
proof -
  have held: "ds_in_flight u = Some (job_ticket job)"
    using fin by (auto simp: finish_save_def split: if_splits)
  have v: "ds_editor v = ds_editor u" "session_revision u = st_revision (job_ticket job)"
    "ds_saved_revision v = st_revision (job_ticket job)" "fs_baseline (ds_file v) = sf_fingerprint saved"
    "ds_in_flight v = None"
    using fin held by (auto simp: finish_save_def session_revision_def set_baseline_def Let_def split: if_splits)
  show "\<not> is_dirty v" using v by (simp add: is_dirty_def session_revision_def)
  show "ed_document (ds_editor v) = job_document job" using write_keeps_text(3)[OF assms(1-4) held v(2)] v(1) by simp
  show "fs_baseline (ds_file v) = sf_fingerprint saved" "ds_in_flight v = None" using v by simp_all
qed

end

end
