(* ===== verification/Service_Facts.thy ===== *)
theory Service_Facts
  imports Identity_Facts Session_Facts
begin

text \<open>
  What a consistent read of the disk is worth, and what the guard of an ordinary
  save lets through.
\<close>

section \<open>Observing the disk\<close>

lemma observe_loop_calls: "snd (observe_loop R sv p n t) \<le> t + 3 * n"
proof (induction R sv p n t rule: observe_loop.induct)
  case (2 R sv p attempts t)
  show ?case
  proof (cases "sv_load sv (t + 1) p")
    case (Inr loaded)
    then show ?thesis
      using "2.IH"[of loaded "sv_stamp sv (t + 2) p"] by (cases "sv_stamp sv t p") (auto simp: Let_def)
  qed (cases "sv_stamp sv t p"; simp)+
qed simp

text \<open>
  A version is accepted only when the file existed before the read and the stamp the
  read reports is the path's stamp after it.
\<close>

definition consistent_read ::
  "('r, 'z) rope_api_scheme \<Rightarrow> 'r file_service \<Rightarrow> path \<Rightarrow> nat \<Rightarrow> 'r observed_file \<Rightarrow> bool" where
  "consistent_read R sv p t observed \<longleftrightarrow>
     (\<exists>loaded. sv_stamp sv t p \<noteq> None \<and> sv_load sv (t + 1) p = Inr loaded \<and>
        (lf_stamp loaded = None \<or> lf_stamp loaded = sv_stamp sv (t + 2) p) \<and>
        of_document observed = lf_document loaded \<and> of_stamp observed = lf_stamp loaded \<and>
        of_canonical observed = Some (fi_canonical (lf_identity loaded)) \<and>
        of_fingerprint observed = (case lf_fingerprint loaded of
          Some f \<Rightarrow> f | None \<Rightarrow> fingerprint_of_document R (lf_document loaded)))"

lemma observe_loop_present:
  "observe_loop R sv p n t = (DiskPresent observed, t') \<Longrightarrow>
   t + 3 \<le> t' \<and> consistent_read R sv p (t' - 3) observed"
proof (induction R sv p n t arbitrary: t' rule: observe_loop.induct)
  case (2 R sv p attempts t)
  from "2.prems" have stamp: "sv_stamp sv t p \<noteq> None" by (auto split: if_splits)
  from "2.prems" obtain loaded where loaded: "sv_load sv (t + 1) p = Inr loaded"
    by (auto simp: stamp split: sum.splits if_splits)
  show ?case
  proof (cases "lf_stamp loaded \<noteq> None \<and> lf_stamp loaded \<noteq> sv_stamp sv (t + 2) p")
    case True
    then have "observe_loop R sv p attempts (t + 3) = (DiskPresent observed, t')"
      using "2.prems" stamp loaded by simp
    then show ?thesis
      using "2.IH"[OF _ loaded refl True] stamp by fastforce
  next
    case False
    then have "t' = t + 3" "of_document observed = lf_document loaded" "of_stamp observed = lf_stamp loaded"
      "of_canonical observed = Some (fi_canonical (lf_identity loaded))"
      "of_fingerprint observed = (case lf_fingerprint loaded of
          Some f \<Rightarrow> f | None \<Rightarrow> fingerprint_of_document R (lf_document loaded))"
      using "2.prems" stamp loaded by auto
    then show ?thesis using stamp loaded False by (auto simp: consistent_read_def)
  qed
qed simp

lemma observe_loop_missing:
  "observe_loop R sv p n t = (DiskMissing, t') \<Longrightarrow>
   \<exists>u. sv_stamp sv u p = None \<or> (\<exists>e. sv_load sv u p = Inl e \<and> os_kind e = NotFound)"
proof (induction R sv p n t arbitrary: t' rule: observe_loop.induct)
  case (2 R sv p attempts t)
  show ?case
  proof (cases "sv_stamp sv t p = None")
    case False
    then show ?thesis
      using "2.prems" "2.IH" by (auto simp: Let_def split: sum.splits if_splits)
  qed blast
qed simp

section \<open>The guard of an ordinary save\<close>

lemma content_guard_Ok:
  assumes "check_overwrite_guard R sv p (ExpectContent stamp (Some b)) t = (Inr (), t')"
  shows "\<exists>observed. observe_disk R sv p t = (DiskPresent observed, t') \<and> of_fingerprint observed = b"
  using assms by (cases "observe_disk R sv p t"; cases "fst (observe_disk R sv p t)")
    (auto simp: check_overwrite_guard_def check_content_guard_def split: if_splits)

lemma content_guard_refuses:
  assumes "observe_disk R sv p t = (DiskPresent observed, t')" and "of_fingerprint observed \<noteq> b"
  shows "check_overwrite_guard R sv p (ExpectContent stamp (Some b)) t = (Inl ExternalChangeFailure, t')"
  using assms by (simp add: check_overwrite_guard_def check_content_guard_def)

lemma run_save_job_Ok:
  assumes "run_save_job R sv p d (ExpectContent stamp (Some b)) t = (Inr saved, t')"
  obtains observed where "observe_disk R sv p t = (DiskPresent observed, t' - 1)" and "of_fingerprint observed = b"
    and "sv_save sv (t' - 1) p d = Inr saved"
proof -
  obtain r c where r: "check_overwrite_guard R sv p (ExpectContent stamp (Some b)) t = (r, c)" by fastforce
  then have "r = Inr ()" using assms by (cases r) (auto simp: run_save_job_def save_checked_def)
  moreover from this have "save_result (sv_save sv c p d) = Inr saved" "t' = c + 1"
    using assms r by (simp_all add: run_save_job_def save_checked_def)
  moreover from this have "sv_save sv c p d = Inr saved" by (cases "sv_save sv c p d") simp_all
  ultimately show ?thesis using content_guard_Ok[of R sv p stamp b t c] r that by auto
qed

lemma run_save_job_refuses:
  assumes "observe_disk R sv p t = (DiskPresent observed, t')" and "of_fingerprint observed \<noteq> b"
  shows "run_save_job R sv p d (ExpectContent stamp (Some b)) t = (Inl ExternalChangeFailure, t')"
  using content_guard_refuses[OF assms] by (simp add: run_save_job_def save_checked_def)

text \<open>The guard of a granted ordinary save is the session's baseline.\<close>

lemma request_current_guard:
  assumes "request_save fs SaveCurrent s = (DecideWrite job, t)"
  shows "job_guard job = content_guard s" and "file_path (ds_file s) = Some (job_path job)"
    and "ds_file t = ds_file s" and "ds_saved_revision t = ds_saved_revision s"
  using assms by (auto simp: request_save_def start_write_def Let_def split: option.splits if_splits)

lemma request_never_forces:
  assumes "request_save fs intent s = (DecideWrite job, t)" and "intent \<noteq> SaveOverwrite"
    and "\<And>p. intent = SaveTo p \<Longrightarrow> \<exists>i. fs_identity (ds_file s) = Some i \<and> is_same_file_on_disk fs i p"
  shows "job_guard job \<noteq> Force"
proof (cases intent)
  case (SaveConfirmed a)
  then have "request_confirmed_overwrite a s = (Some job, t)"
    using assms(1) by (auto simp: request_save_def split: if_splits prod.splits option.splits)
  then show ?thesis
    by (auto simp: request_confirmed_overwrite_def start_write_def Let_def split: if_splits option.splits external_state.splits)
qed (use assms in \<open>auto simp: request_save_def start_write_def content_guard_def Let_def split: option.splits if_splits\<close>)

end
