(* ===== verification/Session_Set_Facts.thy ===== *)
theory Session_Set_Facts
  imports Service_Facts
begin

text \<open>
  The set of sessions: ids stay distinct, the active id is always one of them, and
  routing an event to all sessions leaves their texts alone.
\<close>

section \<open>Ids\<close>

lemma ds_id_quiet:
  "ds_id (replace_with_disk R now observed s) = ds_id s" "ds_id (external_missing s) = ds_id s"
  "ds_id (remember_external observed s) = ds_id s" "ds_id (snd (start_write p g s)) = ds_id s"
  by (simp_all add: replace_with_disk_def external_missing_def remember_external_def start_write_def Let_def)

lemma ds_id_handle: "ds_id (handle R event s) = ds_id s"
proof (cases event)
  case (RequestSave fs intent)
  then show ?thesis using request_save_cases[of fs intent s] by (auto simp: ds_id_quiet)
next
  case (ConfirmOverwrite a)
  then show ?thesis using request_confirmed_cases[of a s] by (auto simp: ds_id_quiet)
next
  case (FinishSave ticket result)
  then show ?thesis by (auto simp: finish_save_def Let_def split: sum.splits save_failure.splits)
next
  case (FinishCheck now ticket result)
  then show ?thesis
    by (auto simp: finish_external_check_def apply_observed_def ds_id_quiet Let_def split: disk_version.splits)
next
  case (ApplyReload now a)
  then show ?thesis by (auto simp: apply_confirmed_reload_def ds_id_quiet split: external_state.splits)
next
  case (FinishReload now request dv)
  then show ?thesis
    by (auto simp: finish_confirmed_reload_def ds_id_quiet Let_def split: disk_version.splits)
next
  case (Adopt loaded)
  then show ?thesis by (simp add: adopt_def Let_def)
qed (auto simp: quiet_defs split: option.splits file_event.splits external_change.splits)

section \<open>The invariant of the set\<close>

definition set_inv :: "('r, 'z) rope_api_scheme \<Rightarrow> 'r session_set \<Rightarrow> bool" where
  "set_inv R ss \<longleftrightarrow>
     distinct (map ds_id (ss_sessions ss)) \<and> ss_active ss \<in> ds_id ` set (ss_sessions ss) \<and>
     (\<forall>s \<in> set (ss_sessions ss). ds_id s < ss_next_id ss \<and> session_inv R s)"

lemma find_id:
  "s \<in> set xs \<Longrightarrow> distinct (map ds_id xs) \<Longrightarrow> List.find (\<lambda>s'. ds_id s' = ds_id s) xs = Some s"
  by (induction xs) (auto simp: rev_image_eqI)

lemma get_session_Some: "get_session i ss = Some s \<Longrightarrow> s \<in> set (ss_sessions ss) \<and> ds_id s = i"
  by (auto simp: get_session_def find_Some_iff)

lemma get_session_None: "get_session i ss = None \<longleftrightarrow> i \<notin> ds_id ` set (ss_sessions ss)"
  by (auto simp: get_session_def find_None_iff)

lemma active_session_Ok:
  "set_inv R ss \<Longrightarrow> \<exists>s \<in> set (ss_sessions ss). active_session ss = Ok s \<and> ds_id s = ss_active ss"
  using get_session_None[of "ss_active ss" ss] get_session_Some[of "ss_active ss" ss]
  by (auto simp: set_inv_def active_session_def split: option.splits)

lemma update_first_map:
  "(\<And>s. ds_id (f s) = ds_id s) \<Longrightarrow> map ds_id (update_first p f xs) = map ds_id xs"
  by (induction xs) auto

lemma update_first_set: "x \<in> set (update_first p f xs) \<Longrightarrow> x \<in> set xs \<or> (\<exists>y \<in> set xs. x = f y)"
  by (induction xs) (auto split: if_splits)

text \<open>Anything that keeps the ids and the sessions' own invariants keeps the set's.\<close>

lemma set_inv_sessions:
  assumes "set_inv R ss" and "map ds_id xs = map ds_id (ss_sessions ss)" and "\<forall>s \<in> set xs. session_inv R s"
  shows "set_inv R (ss\<lparr>ss_sessions := xs\<rparr>)"
proof -
  have ids: "ds_id ` set xs = ds_id ` set (ss_sessions ss)" using assms(2) by (metis list.set_map)
  have "ds_id s < ss_next_id ss" if "s \<in> set xs" for s
  proof -
    have "ds_id s \<in> ds_id ` set (ss_sessions ss)" using ids that by blast
    then show ?thesis using assms(1) by (auto simp: set_inv_def)
  qed
  then show ?thesis using assms ids by (simp add: set_inv_def)
qed

lemma modify_session_inv:
  assumes "set_inv R ss" and "\<And>s. ds_id (f s) = ds_id s" and "\<And>s. session_inv R s \<Longrightarrow> session_inv R (f s)"
  shows "set_inv R (modify_session i f ss)"
  unfolding modify_session_def
proof (rule set_inv_sessions[OF assms(1) update_first_map[OF assms(2)]], rule ballI)
  fix s assume "s \<in> set (update_first (\<lambda>s. ds_id s = i) f (ss_sessions ss))"
  then have "s \<in> set (ss_sessions ss) \<or> (\<exists>y \<in> set (ss_sessions ss). s = f y)" by (rule update_first_set)
  then show "session_inv R s" using assms(1,3) by (auto simp: set_inv_def)
qed

lemma word_succ: "(n :: u64) + 1 \<noteq> 0 \<Longrightarrow> n < n + 1" "(i :: u64) < n \<Longrightarrow> n + 1 \<noteq> 0 \<Longrightarrow> i < n + 1"
  using unatSuc[of n] by (auto simp: word_less_nat_alt add.commute)

lemma push_session_inv:
  assumes "set_inv R ss" and "ss_next_id ss + 1 \<noteq> 0"
    and "ds_id (build (ss_next_id ss)) = ss_next_id ss" and "session_inv R (build (ss_next_id ss))"
  shows "set_inv R (snd (push_session build ss))"
  using assms word_succ(1)[OF assms(2)] word_succ(2)[OF _ assms(2)]
  by (auto simp: set_inv_def push_session_def Let_def)

text \<open>Routing an event.\<close>

lemma route_event_sessions: "snd (route_event f xs) = map (\<lambda>s. snd (f s)) xs"
  by (induction xs) (auto simp: case_prod_beta Let_def)

lemma route_event_outcomes:
  "(\<And>s. ds_id (snd (f s)) = ds_id s) \<Longrightarrow>
   fst (route_event f xs) = map (\<lambda>s. (ds_id s, fst (f s))) (filter (\<lambda>s. fst (f s) \<noteq> EventIgnored) xs)"
  by (induction xs) (auto simp: case_prod_beta Let_def)

lemma route_to_all_inv:
  assumes "set_inv R ss" and "\<And>s. ds_id (snd (f s)) = ds_id s" and "\<And>s. session_inv R s \<Longrightarrow> session_inv R (snd (f s))"
  shows "set_inv R (snd (route_to_all f ss))"
proof -
  have "set_inv R (ss\<lparr>ss_sessions := map (\<lambda>s. snd (f s)) (ss_sessions ss)\<rparr>)"
    using assms by (intro set_inv_sessions) (auto simp: set_inv_def)
  then show ?thesis by (simp add: route_to_all_def case_prod_beta route_event_sessions Let_def)
qed

section \<open>Closing\<close>

lemma close_last:
  assumes "get_session i ss = Some s" and "\<not> is_dirty s" and "length (ss_sessions ss) = 1"
  shows "close_session R i label ss = (Ok Close,
    \<lparr>ss_sessions = [session_untitled R (ss_next_id ss) [] label], ss_active = ss_next_id ss,
     ss_next_id = ss_next_id ss + 1\<rparr>)"
  using assms by (cases ss) (simp add: close_session_def close_decision_def Let_def)

lemma close_one_of_many:
  assumes inv: "set_inv R ss" and i: "get_session i ss = Some s" "\<not> is_dirty s" and n: "length (ss_sessions ss) \<noteq> 1"
  shows "\<exists>active. close_session R i label ss = (Ok Close,
    ss\<lparr>ss_sessions := filter (\<lambda>s. ds_id s \<noteq> i) (ss_sessions ss), ss_active := active\<rparr>) \<and>
    set_inv R (ss\<lparr>ss_sessions := filter (\<lambda>s. ds_id s \<noteq> i) (ss_sessions ss), ss_active := active\<rparr>) \<and>
    (ss_active ss \<noteq> i \<longrightarrow> active = ss_active ss)"
proof -
  let ?rest = "filter (\<lambda>s. ds_id s \<noteq> i) (ss_sessions ss)"
  have mem: "s \<in> set (ss_sessions ss)" "ds_id s = i" using get_session_Some[OF i(1)] by simp_all
  have d: "distinct (map ds_id (ss_sessions ss))" using inv by (simp add: set_inv_def)
  have "?rest \<noteq> []"
  proof
    assume "?rest = []"
    then have "set (map ds_id (ss_sessions ss)) = {i}" using mem by (auto simp: filter_empty_conv)
    then have "card (set (map ds_id (ss_sessions ss))) = 1" by simp
    then show False using n distinct_card[OF d] by simp
  qed
  then obtain r rs where r: "?rest = r # rs" by (cases ?rest) auto
  have ok: "set_inv R (ss\<lparr>ss_sessions := ?rest, ss_active := active\<rparr>)" if "active \<in> ds_id ` set ?rest" for active
    using inv d that by (auto simp: set_inv_def distinct_map_filter)
  show ?thesis
  proof (cases "ss_active ss = i")
    case True
    have "close_session R i label ss = (Ok Close, ss\<lparr>ss_sessions := ?rest, ss_active := ds_id r\<rparr>)"
      using i n r True by (simp add: close_session_def close_decision_def Let_def)
    moreover have "ds_id r \<in> ds_id ` set ?rest" using r by simp
    ultimately show ?thesis using ok True by blast
  next
    case False
    have "close_session R i label ss = (Ok Close, ss\<lparr>ss_sessions := ?rest, ss_active := ss_active ss\<rparr>)"
      using i n r False by (simp add: close_session_def close_decision_def Let_def)
    moreover have "ss_active ss \<in> ds_id ` set ?rest" using inv False by (auto simp: set_inv_def)
    ultimately show ?thesis using ok False by blast
  qed
qed

context text_segments
begin

lemma session_untitled_inv: "session_inv R (session_untitled R i text label)"
  unfolding session_untitled_def by (rule session_from_parts_inv[OF idle_inv[OF editor_new_idle]])

lemma session_from_loaded_inv: "buffer_inv R (lf_document loaded) \<Longrightarrow> session_inv R (session_from_loaded R i loaded)"
  unfolding session_from_loaded_def
  by (rule session_from_parts_inv[OF idle_inv[OF editor_from_document_idle]])

lemma adopt_inv: "session_inv R s \<Longrightarrow> buffer_inv R (lf_document loaded) \<Longrightarrow> session_inv R (adopt R loaded s)"
  using session_event_inv[of s "Adopt loaded"] by simp

lemma set_inv_single: "session_inv R s \<Longrightarrow> ds_id s < n \<Longrightarrow> set_inv R \<lparr>ss_sessions = [s], ss_active = ds_id s, ss_next_id = n\<rparr>"
  by (simp add: set_inv_def)

lemma close_session_inv:
  assumes "set_inv R ss" and "ss_next_id ss + 1 \<noteq> 0"
  shows "\<exists>decision. fst (close_session R i label ss) = Ok decision \<and> set_inv R (snd (close_session R i label ss))"
proof (cases "get_session i ss")
  case None
  then show ?thesis using assms by (simp add: close_session_def)
next
  case (Some s)
  consider "is_dirty s" | "\<not> is_dirty s" "length (ss_sessions ss) = 1" | "\<not> is_dirty s" "length (ss_sessions ss) \<noteq> 1"
    by blast
  then show ?thesis
  proof cases
    case 1
    then show ?thesis using assms Some by (simp add: close_session_def close_decision_def)
  next
    case 2
    show ?thesis
      using set_inv_single[OF session_untitled_inv, of "ss_next_id ss" "[]" label "ss_next_id ss + 1"]
        word_succ(1)[OF assms(2)]
      by (simp add: close_last[OF Some 2] session_untitled_def session_from_parts_def)
  next
    case 3
    then show ?thesis using close_one_of_many[OF assms(1) Some 3, of label] by auto
  qed
qed

text \<open>Opening.\<close>

lemma apply_open_inv:
  assumes "set_inv R ss" and "ss_next_id ss + 1 \<noteq> 0" and "buffer_inv R (lf_document loaded)"
  shows "set_inv R (snd (apply_open R into loaded ss))"
proof (cases "Option.bind into (\<lambda>i. get_session i ss)")
  case None
  have "ds_id (session_from_loaded R (ss_next_id ss) loaded) = ss_next_id ss"
    by (simp add: session_from_loaded_def session_from_parts_def)
  then show ?thesis
    using push_session_inv[OF assms(1,2), of "\<lambda>i. session_from_loaded R i loaded"] None
      session_from_loaded_inv[OF assms(3)] by (simp add: apply_open_def)
next
  case (Some s)
  then have mem: "s \<in> set (ss_sessions ss)" using get_session_Some by (cases into) fastforce+
  have m: "set_inv R (modify_session (ds_id s) (adopt R loaded) ss)"
    using assms(1) adopt_inv[OF _ assms(3)] by (intro modify_session_inv) (simp_all add: adopt_def Let_def)
  moreover have "map ds_id (ss_sessions (modify_session (ds_id s) (adopt R loaded) ss)) = map ds_id (ss_sessions ss)"
    by (simp add: modify_session_def update_first_map adopt_def Let_def)
  then have "ds_id s \<in> ds_id ` set (ss_sessions (modify_session (ds_id s) (adopt R loaded) ss))"
    using mem by (metis imageI list.set_map)
  ultimately show ?thesis using Some by (simp add: apply_open_def set_inv_def)
qed

lemma open_untitled_inv:
  "set_inv R ss \<Longrightarrow> ss_next_id ss + 1 \<noteq> 0 \<Longrightarrow> set_inv R (snd (open_untitled R text label ss))"
  unfolding open_untitled_def
  by (rule push_session_inv) (simp_all add: session_untitled_inv, simp add: session_untitled_def session_from_parts_def)

end

section \<open>Folders\<close>

lemma path_strip_prefix_Some: "path_strip_prefix p base = Some rel \<longleftrightarrow> p = base @ rel"
  by (auto simp: path_strip_prefix_def path_starts_with_def) (metis append_take_drop_id)

lemma path_starts_with_iff: "path_starts_with p base \<longleftrightarrow> (\<exists>rel. p = base @ rel)"
  by (auto simp: path_starts_with_def) (metis append_take_drop_id)

lemma path_join_relative:
  assumes "path_ok (from @ rel)" and "from \<noteq> []" and "\<forall>s. from \<noteq> [PathPrefix s]" and "to \<noteq> []"
  shows "path_join to rel = to @ rel"
proof (cases rel)
  case (Cons c cs)
  have "c \<in> set (tl (from @ rel))" using assms(2) Cons by (cases "from") auto
  then have c: "c \<noteq> CurDir" "\<forall>s. c \<noteq> PathPrefix s" using assms(1) by (auto simp: path_ok_def)
  have "c \<noteq> RootDir"
  proof
    assume "c = RootDir"
    then have "(from @ rel) ! length from = RootDir" using Cons by simp
    then have "length from = 0 \<or> (length from = 1 \<and> (\<exists>s. (from @ rel) ! 0 = PathPrefix s))"
      using assms(1) Cons unfolding path_ok_def by (metis length_append add_less_cancel_left add.right_neutral
          length_greater_0_conv list.distinct(1))
    then show False using assms(2,3) by (cases "from") auto
  qed
  then show ?thesis using c assms(4) Cons by (auto simp: path_join_def is_absolute_def split: path_component.splits)
qed (use assms(4) in \<open>simp add: path_join_def is_absolute_def\<close>)

text \<open>A session whose file is now at \<open>p\<close>.\<close>

definition relocated :: "path \<Rightarrow> 'r document_session \<Rightarrow> 'r document_session" where
  "relocated p s = s\<lparr>ds_file := set_identity (identity_lexical p) (fs_stamp (ds_file s)) (ds_file s)\<rparr>"

definition after_rename :: "path \<Rightarrow> path \<Rightarrow> 'r document_session \<Rightarrow> 'r document_session" where
  "after_rename from to s =
     (case file_path (ds_file s) of
        Some p \<Rightarrow> if path_starts_with p from then relocated (to @ drop (length from) p) s else s
      | None \<Rightarrow> s)"

lemma apply_folder_rename_eq:
  assumes "from \<noteq> []" and "\<forall>s. from \<noteq> [PathPrefix s]" and "to \<noteq> []"
    and "\<And>p. file_path (ds_file s) = Some p \<Longrightarrow> path_ok p"
  shows "apply_folder_rename from to s =
    (if is_under_folder from s then EventRenamed else EventIgnored, after_rename from to s)"
proof (cases "fs_identity (ds_file s)")
  case (Some i)
  then have p: "file_path (ds_file s) = Some (fi_path i)" by (simp add: file_path_def)
  show ?thesis
  proof (cases "path_strip_prefix (fi_path i) from")
    case None
    then have "\<not> path_starts_with (fi_path i) from" by (simp add: path_strip_prefix_def split: if_splits)
    then show ?thesis using Some p None
      by (simp add: apply_folder_rename_def is_under_folder_def after_rename_def)
  next
    case rel: (Some rel)
    then have eq: "fi_path i = from @ rel" by (simp add: path_strip_prefix_Some)
    then have "path_join to rel = to @ rel" using path_join_relative[OF _ assms(1-3)] assms(4)[OF p] by simp
    then show ?thesis using Some p rel eq
      by (auto simp: apply_folder_rename_def is_under_folder_def after_rename_def relocated_def move_file_def
          moved_to_def path_starts_with_iff)
  qed
qed (simp add: apply_folder_rename_def is_under_folder_def after_rename_def file_path_def)

lemma rename_folder_eq:
  assumes "from \<noteq> []" and "\<forall>s. from \<noteq> [PathPrefix s]" and "to \<noteq> []"
    and "\<forall>s \<in> set (ss_sessions ss). pred_option path_ok (file_path (ds_file s))"
  shows "rename_folder from to ss =
    (map (\<lambda>s. (ds_id s, EventRenamed)) (filter (is_under_folder from) (ss_sessions ss)),
     ss\<lparr>ss_sessions := map (after_rename from to) (ss_sessions ss)\<rparr>)"
proof -
  have eq: "apply_folder_rename from to s =
      (if is_under_folder from s then EventRenamed else EventIgnored, after_rename from to s)"
    if "s \<in> set (ss_sessions ss)" for s
    using apply_folder_rename_eq[OF assms(1-3), of s] assms(4) that by (auto simp: option.pred_set)
  have keep: "ds_id (snd (apply_folder_rename from to s)) = ds_id s" for s
    using ds_id_handle[of _ "FolderRenamed from to" s] by simp
  have "map (\<lambda>s. snd (apply_folder_rename from to s)) (ss_sessions ss) = map (after_rename from to) (ss_sessions ss)"
    by (rule map_cong[OF refl]) (simp add: eq)
  moreover have "filter (\<lambda>s. fst (apply_folder_rename from to s) \<noteq> EventIgnored) (ss_sessions ss) =
      filter (is_under_folder from) (ss_sessions ss)"
    by (rule filter_cong[OF refl]) (simp add: eq)
  moreover have "map (\<lambda>s. (ds_id s, fst (apply_folder_rename from to s))) (filter (is_under_folder from) (ss_sessions ss)) =
      map (\<lambda>s. (ds_id s, EventRenamed)) (filter (is_under_folder from) (ss_sessions ss))"
    by (rule map_cong[OF refl]) (simp add: eq)
  ultimately show ?thesis
    using route_event_outcomes[of "apply_folder_rename from to", OF keep, of "ss_sessions ss"]
      route_event_sessions[of "apply_folder_rename from to" "ss_sessions ss"]
    by (simp add: rename_folder_def route_to_all_def case_prod_beta Let_def)
qed

lemma after_rename_facts:
  "file_path (ds_file s) = Some (old @ rel) \<Longrightarrow> file_path (ds_file (after_rename old new s)) = Some (new @ rel)"
  "ds_editor (after_rename old new s) = ds_editor s"
  "fs_baseline (ds_file (after_rename old new s)) = fs_baseline (ds_file s)"
  "fs_stamp (ds_file (after_rename old new s)) = fs_stamp (ds_file s)"
  "\<not> is_under_folder old s \<Longrightarrow> after_rename old new s = s"
  by (auto simp: after_rename_def relocated_def path_starts_with_def file_path_def set_identity_def
      identity_lexical_def identity_new_def is_under_folder_def split: option.splits)

section \<open>Opening\<close>

definition shows_path :: "path \<Rightarrow> 'r document_session \<Rightarrow> bool" where
  "shows_path p s = (case fs_identity (ds_file s) of Some i \<Rightarrow> matches_path i p | None \<Rightarrow> False)"

lemma session_for_path_Some: "session_for_path p ss = Some i \<Longrightarrow> \<exists>s \<in> set (ss_sessions ss). ds_id s = i \<and> shows_path p s"
  by (fastforce simp: session_for_path_def shows_path_def find_Some_iff)

lemma session_for_path_None: "session_for_path p ss = None \<Longrightarrow> \<forall>s \<in> set (ss_sessions ss). \<not> shows_path p s"
  by (simp add: session_for_path_def shows_path_def find_None_iff)

lemma update_first_keeps: "x \<in> set xs \<Longrightarrow> \<not> p x \<Longrightarrow> x \<in> set (update_first p f xs)"
  by (induction xs) auto

lemma apply_open_keeps:
  assumes "set_inv R ss" and "act \<in> set (ss_sessions ss)" and "s \<in> set (ss_sessions ss)" and "s \<noteq> act"
  shows "s \<in> set (ss_sessions (snd (apply_open E (Some (ds_id act)) loaded ss)))"
proof -
  have d: "distinct (map ds_id (ss_sessions ss))" using assms(1) by (simp add: set_inv_def)
  have "ds_id s \<noteq> ds_id act" using d assms(2-4) by (auto simp: distinct_map dest: inj_onD)
  moreover have "get_session (ds_id act) ss = Some act" using find_id[OF assms(2) d] by (simp add: get_session_def)
  ultimately show ?thesis
    using update_first_keeps[OF assms(3)] by (simp add: apply_open_def modify_session_def)
qed

end
