(* ===== verification/Replace.thy ===== *)
theory Replace
  imports Find
begin

text \<open>
  Replace-all planning (\<open>crates/editor/src/replace.rs\<close>): from an ordered match list
  to one covering edit.  The polls of \<open>is_cancelled\<close> are numbered across both
  loops.
\<close>

datatype replace_plan_error =
    InvalidMatches
  | SizeOverflow
  | PlanCancelled
  | PlanBuffer buffer_error

record replace_plan =
  plan_matched :: nat
  plan_changed :: nat
  plan_source_len :: nat
  plan_range :: "source_range option"
  plan_replacement :: str
  plan_inserted_bytes :: nat
  plan_deleted_bytes :: nat

definition result_len :: "replace_plan \<Rightarrow> nat" where
  "result_len p = plan_source_len p - plan_deleted_bytes p + plan_inserted_bytes p"

definition cancel_poll_interval :: nat where "cancel_poll_interval = 1024"

text \<open>\<open>?\<close> on a buffer error.\<close>

fun or_buffer :: "(buffer_error, 'a) res \<Rightarrow> (replace_plan_error, 'a) res" where
  "or_buffer (Ok a) = Ok a"
| "or_buffer (Err e) = Err (PlanBuffer e)"
| "or_buffer Panic = Panic"
| "or_buffer Hang = Hang"

text \<open>The first loop: validate every match, keep the ones that change the text.\<close>

fun changed_matches ::
  "('r, 'z) rope_api_scheme \<Rightarrow> 'r rope_buffer \<Rightarrow> str \<Rightarrow> (nat \<Rightarrow> bool) \<Rightarrow>
   source_range list \<Rightarrow> nat \<Rightarrow> nat \<Rightarrow> nat \<Rightarrow> (replace_plan_error, source_range list \<times> nat) res" where
  "changed_matches R b r cancelled [] index polls previous_end = Ok ([], polls)"
| "changed_matches R b r cancelled (rg # rest) index polls previous_end =
     (let poll = index mod cancel_poll_interval = 0; polls' = (if poll then polls + 1 else polls) in
      if poll \<and> cancelled polls then Err PlanCancelled
      else if range_start rg > range_end rg \<or> range_start rg < previous_end then Err InvalidMatches
      else
        res_bind (or_buffer (validate_range R b rg)) (\<lambda>_.
        res_bind (or_buffer (validate_offset R b (range_start rg))) (\<lambda>_.
        res_bind (or_buffer (validate_offset R b (range_end rg))) (\<lambda>_.
        res_bind (if range_len rg = str_len r
                  then res_map (\<lambda>t. t = r) (or_buffer (buf_text R b rg)) else Ok False) (\<lambda>unchanged.
        res_bind (changed_matches R b r cancelled rest (index + 1) polls' (range_end rg)) (\<lambda>(changed, polls'').
        Ok (if unchanged then changed else rg # changed, polls'')))))))"

text \<open>The byte totals, with checked sums.\<close>

fun plan_bytes ::
  "nat \<Rightarrow> source_range list \<Rightarrow> nat \<Rightarrow> nat \<Rightarrow> (replace_plan_error, nat \<times> nat) res" where
  "plan_bytes rlen [] deleted inserted = Ok (deleted, inserted)"
| "plan_bytes rlen (rg # rest) deleted inserted =
     res_bind (ok_or SizeOverflow (checked_add deleted (range_len rg))) (\<lambda>deleted'.
     res_bind (ok_or SizeOverflow (checked_add inserted rlen)) (\<lambda>inserted'.
     plan_bytes rlen rest deleted' inserted'))"

text \<open>The second loop: the covering text.\<close>

fun covering_text ::
  "('r, 'z) rope_api_scheme \<Rightarrow> 'r rope_buffer \<Rightarrow> str \<Rightarrow> (nat \<Rightarrow> bool) \<Rightarrow>
   source_range list \<Rightarrow> nat \<Rightarrow> nat \<Rightarrow> nat \<Rightarrow> (replace_plan_error, str) res" where
  "covering_text R b r cancelled [] index polls cursor = Ok []"
| "covering_text R b r cancelled (rg # rest) index polls cursor =
     (let poll = index mod cancel_poll_interval = 0; polls' = (if poll then polls + 1 else polls) in
      if poll \<and> cancelled polls then Err PlanCancelled
      else
        res_bind (if range_start rg > cursor
                  then or_buffer (buf_text R b (source_range_new cursor (range_start rg))) else Ok []) (\<lambda>gap.
        res_bind (covering_text R b r cancelled rest (index + 1) polls' (range_end rg)) (\<lambda>out.
        Ok (gap @ r @ out))))"

definition plan_replace_all ::
  "('r, 'z) rope_api_scheme \<Rightarrow> 'r rope_buffer \<Rightarrow> source_range list \<Rightarrow> str \<Rightarrow> (nat \<Rightarrow> bool) \<Rightarrow>
   (replace_plan_error, replace_plan) res" where
  "plan_replace_all R b ms r cancelled =
     (let source_len = len_bytes R b in
      res_bind (changed_matches R b r cancelled ms 0 0 0) (\<lambda>(changed, polls).
      if changed = [] then
        Ok \<lparr>plan_matched = length ms, plan_changed = 0, plan_source_len = source_len, plan_range = None,
            plan_replacement = [], plan_inserted_bytes = 0, plan_deleted_bytes = 0\<rparr>
      else
        let span = source_range_new (range_start (hd changed)) (range_end (last changed)) in
        res_bind (plan_bytes (str_len r) changed 0 0) (\<lambda>(deleted, inserted).
        res_bind (ok_or InvalidMatches (checked_sub (range_len span) deleted)) (\<lambda>gap_bytes.
        res_bind (ok_or SizeOverflow (checked_add gap_bytes inserted)) (\<lambda>_.
        res_bind (ok_or SizeOverflow (Option.bind (checked_sub source_len deleted)
                    (\<lambda>len. checked_add len inserted))) (\<lambda>_.
        res_bind (covering_text R b r cancelled changed 0 polls (range_start span)) (\<lambda>out.
        Ok \<lparr>plan_matched = length ms, plan_changed = length changed, plan_source_len = source_len,
            plan_range = Some span, plan_replacement = out, plan_inserted_bytes = inserted,
            plan_deleted_bytes = deleted\<rparr>)))))))"

end
