(* ===== verification/Replace_Facts.thy ===== *)
theory Replace_Facts
  imports Replace Find_Facts
begin

text \<open>
  The replace-all plan against its specification: \<open>replaced\<close> is the text with
  every match replaced, written without covering ranges, byte totals or skipped
  matches.  The plan's one edit, applied to the buffer's text, gives that text.
\<close>

section \<open>The specification\<close>

fun replaced :: "str \<Rightarrow> str \<Rightarrow> nat \<Rightarrow> source_range list \<Rightarrow> str" where
  "replaced s r cur [] = byte_slice s cur (str_len s)"
| "replaced s r cur (m # ms) = byte_slice s cur (range_start m) @ r @ replaced s r (range_end m) ms"

text \<open>The part of it from \<open>cur\<close> to the end of the last match.\<close>

fun covered :: "str \<Rightarrow> str \<Rightarrow> nat \<Rightarrow> source_range list \<Rightarrow> str" where
  "covered s r cur [] = []"
| "covered s r cur (m # ms) = byte_slice s cur (range_start m) @ r @ covered s r (range_end m) ms"

fun last_end :: "nat \<Rightarrow> source_range list \<Rightarrow> nat" where
  "last_end cur [] = cur"
| "last_end cur (m # ms) = last_end (range_end m) ms"

lemma replaced_covered: "replaced s r cur ms = covered s r cur ms @ byte_slice s (last_end cur ms) (str_len s)"
  by (induction ms arbitrary: cur) auto

lemma last_end_last: "ms \<noteq> [] \<Longrightarrow> last_end cur ms = range_end (last ms)"
  by (induction ms arbitrary: cur) auto

lemma ordered_from_last:
  "ordered_from s cur ms \<Longrightarrow> is_boundary s cur \<Longrightarrow> cur \<le> last_end cur ms \<and> is_boundary s (last_end cur ms)"
proof (induction ms arbitrary: cur)
  case (Cons m ms)
  then have "range_end m \<le> last_end (range_end m) ms \<and> is_boundary s (last_end (range_end m) ms)" by simp
  then show ?case using Cons.prems by simp
qed simp

text \<open>The text before the first match may be split off anywhere.\<close>

lemma replaced_advance:
  assumes "ordered_from s c ms" and "is_boundary s cur" "is_boundary s c" "cur \<le> c"
  shows "byte_slice s cur c @ replaced s r c ms = replaced s r cur ms"
proof (cases ms)
  case Nil
  then show ?thesis using assms(2-4) is_boundary_le[OF assms(3)] by (simp add: byte_slice_adjacent)
next
  case (Cons m ms')
  then have "byte_slice s cur c @ byte_slice s c (range_start m) = byte_slice s cur (range_start m)"
    using assms by (intro byte_slice_adjacent) auto
  then show ?thesis using Cons by (metis append_assoc replaced.simps(2))
qed

text \<open>A match whose text already is the replacement may be left out.\<close>

lemma ordered_from_filter: "ordered_from s cur ms \<Longrightarrow> ordered_from s cur (filter p ms)"
proof (induction ms arbitrary: cur)
  case (Cons m ms)
  then have "ordered_from s (range_end m) (filter p ms)" by simp
  then show ?case using Cons.prems ordered_from_weaken by auto
qed simp

abbreviation changes :: "str \<Rightarrow> str \<Rightarrow> source_range \<Rightarrow> bool" where
  "changes s r m \<equiv> byte_slice s (range_start m) (range_end m) \<noteq> r"

lemma replaced_filter:
  "ordered_from s cur ms \<Longrightarrow> is_boundary s cur \<Longrightarrow>
   replaced s r cur (filter (changes s r) ms) = replaced s r cur ms"
proof (induction ms arbitrary: cur)
  case (Cons m ms)
  let ?ms = "filter (changes s r) ms"
  have IH: "replaced s r (range_end m) ?ms = replaced s r (range_end m) ms" using Cons by simp
  show ?case
  proof (cases "changes s r m")
    case False
    have "replaced s r cur ?ms = byte_slice s cur (range_end m) @ replaced s r (range_end m) ?ms"
      using Cons.prems ordered_from_filter by (intro replaced_advance[symmetric]) auto
    also have "byte_slice s cur (range_end m) = byte_slice s cur (range_start m) @ r"
      using Cons.prems False byte_slice_adjacent[of s cur "range_start m" "range_end m"] by simp
    finally show ?thesis using False IH by simp
  qed (simp add: IH)
qed simp

section \<open>Byte totals\<close>

definition deleted_total :: "source_range list \<Rightarrow> nat" where
  "deleted_total ms = sum_list (map range_len ms)"

lemma deleted_total_simps [simp]:
  "deleted_total [] = 0" "deleted_total (m # ms) = range_len m + deleted_total ms"
  by (simp_all add: deleted_total_def)

lemma str_len_covered:
  "ordered_from s cur ms \<Longrightarrow> is_boundary s cur \<Longrightarrow>
   str_len (covered s r cur ms) + deleted_total ms = last_end cur ms - cur + length ms * str_len r"
proof (induction ms arbitrary: cur)
  case (Cons m ms)
  then have "str_len (covered s r (range_end m) ms) + deleted_total ms =
      last_end (range_end m) ms - range_end m + length ms * str_len r" by simp
  moreover have "range_end m \<le> last_end (range_end m) ms"
    using ordered_from_last[of s "range_end m" ms] Cons.prems by simp
  moreover have "str_len (byte_slice s cur (range_start m)) = range_start m - cur"
    using Cons.prems by (simp add: str_len_byte_slice)
  ultimately show ?case using Cons.prems by (simp add: range_len_def)
qed simp

lemma deleted_total_le: "ordered_from s cur ms \<Longrightarrow> cur + deleted_total ms \<le> last_end cur ms"
proof (induction ms arbitrary: cur)
  case (Cons m ms)
  then have "range_end m + deleted_total ms \<le> last_end (range_end m) ms" by simp
  moreover have "cur + range_len m \<le> range_end m" using Cons.prems by (auto simp: range_len_def)
  ultimately show ?case by simp
qed simp

lemma plan_bytes_Ok:
  "deleted + deleted_total ms < u64_bound \<Longrightarrow> inserted + length ms * rlen < u64_bound \<Longrightarrow>
   plan_bytes rlen ms deleted inserted = Ok (deleted + deleted_total ms, inserted + length ms * rlen)"
  by (induction ms arbitrary: deleted inserted) (auto simp: checked_add_def add.assoc)

section \<open>The two loops\<close>

text \<open>The plan, and the text its edit gives.\<close>

definition plan_applied :: "str \<Rightarrow> replace_plan \<Rightarrow> str" where
  "plan_applied s p =
     (case plan_range p of
        None \<Rightarrow> s
      | Some rg \<Rightarrow> splice s (range_start rg) (range_end rg) (plan_replacement p))"

lemma splice_covered:
  assumes "ordered_from s a ms" and "is_boundary s a" and "range_start (hd ms) = a" and "ms \<noteq> []"
  shows "splice s a (last_end a ms) (covered s r a ms) = replaced s r 0 ms"
proof -
  have e: "a \<le> last_end a ms" "is_boundary s (last_end a ms)"
    using ordered_from_last[OF assms(1,2)] by simp_all
  obtain xs ys zs where s: "s = xs @ ys @ zs" "a = str_len xs" "last_end a ms = str_len xs + str_len ys"
    by (rule boundary_range_split[OF assms(2) e(2) e(1)])
  have "replaced s r 0 ms = byte_slice s 0 a @ replaced s r a ms"
    using replaced_advance[OF assms(1) _ assms(2), of 0] by simp
  also have "\<dots> = xs @ covered s r a ms @ byte_slice s (last_end a ms) (str_len s)"
    using byte_slice_middle[of "[]" xs "ys @ zs"] s(1,2) by (simp add: replaced_covered)
  also have "byte_slice s (last_end a ms) (str_len s) = zs"
    using byte_slice_middle[of "xs @ ys" zs "[]"] s by (simp add: add.assoc)
  finally show ?thesis using s by simp
qed

context ropey
begin

lemma changed_matches_Ok:
  assumes "buffer_inv R b"
  shows "ordered_from (full_text R b) prev ms \<Longrightarrow>
    \<exists>polls'. changed_matches R b r (\<lambda>_. False) ms i polls prev =
      Ok (filter (changes (full_text R b) r) ms, polls')"
proof (induction ms arbitrary: i polls prev)
  case (Cons m ms)
  let ?s = "full_text R b"
  let ?polls = "if i mod cancel_poll_interval = 0 then polls + 1 else polls"
  have bd: "is_boundary ?s (range_start m)" "is_boundary ?s (range_end m)"
    "prev \<le> range_start m" "range_start m \<le> range_end m"
    using Cons.prems by simp_all
  obtain polls' where rest: "changed_matches R b r (\<lambda>_. False) ms (i + 1) ?polls (range_end m) =
      Ok (filter (changes ?s r) ms, polls')"
    using Cons.IH[of "range_end m" "i + 1" ?polls] Cons.prems by auto
  have valid: "valid_range R b m" using bd by (simp add: valid_range_def)
  have len: "str_len (byte_slice ?s (range_start m) (range_end m)) = range_len m"
    using bd str_len_byte_slice[of ?s "range_start m" "range_end m"] by (simp add: range_len_def)
  have "(if range_len m = str_len r then res_map (\<lambda>t. t = r) (or_buffer (buf_text R b m)) else Ok False) =
      Ok (\<not> changes ?s r m)"
    using len buf_text_Ok[OF valid] by auto
  moreover have "validate_range R b m = Ok ()" "validate_offset R b (range_start m) = Ok ()"
    "validate_offset R b (range_end m) = Ok ()"
    using bd valid by simp_all
  ultimately show ?case using rest bd by (auto simp: Let_def)
qed simp

lemma changed_matches_not_ordered:
  assumes "buffer_inv R b"
  shows "\<not> ordered_from (full_text R b) prev ms \<Longrightarrow>
    \<exists>e. changed_matches R b r c ms i polls prev = Err e"
proof (induction ms arbitrary: i polls prev)
  case (Cons m ms)
  let ?s = "full_text R b"
  let ?polls = "if i mod cancel_poll_interval = 0 then polls + 1 else polls"
  show ?case
  proof (cases "prev \<le> range_start m \<and> range_start m \<le> range_end m")
    case True
    show ?thesis
    proof (cases "valid_range R b m")
      case False
      then obtain e where "validate_range R b m = Err e" 
        using validate_range_Ok[of b m] validate_range_total[of b m] by (cases "validate_range R b m") auto
      then show ?thesis using True by (auto simp: Let_def)
    next
      case valid: True
      then obtain e where rest: "changed_matches R b r c ms (i + 1) ?polls (range_end m) = Err e"
        using Cons.IH[of "range_end m" "i + 1" ?polls] Cons.prems True by (auto simp: valid_range_def)
      have "validate_range R b m = Ok ()" "validate_offset R b (range_start m) = Ok ()"
        "validate_offset R b (range_end m) = Ok ()"
        using valid by (simp_all add: valid_range_def)
      then show ?thesis using True rest buf_text_Ok[OF valid] by (auto simp: Let_def)
    qed
  qed (auto simp: Let_def)
qed simp

lemma covering_text_Ok:
  assumes "buffer_inv R b"
  shows "ordered_from (full_text R b) cur ms \<Longrightarrow> is_boundary (full_text R b) cur \<Longrightarrow>
    covering_text R b r (\<lambda>_. False) ms i polls cur = Ok (covered (full_text R b) r cur ms)"
proof (induction ms arbitrary: i polls cur)
  case (Cons m ms)
  let ?s = "full_text R b"
  have "valid_range R b (source_range_new cur (range_start m))"
    using Cons.prems by (simp add: valid_range_def)
  then have "(if range_start m > cur then or_buffer (buf_text R b (source_range_new cur (range_start m))) else Ok []) =
      Ok (byte_slice ?s cur (range_start m))"
    using Cons.prems buf_text_Ok[of b "source_range_new cur (range_start m)"] by auto
  moreover have "covering_text R b r (\<lambda>_. False) ms (i + 1) p (range_end m) = Ok (covered ?s r (range_end m) ms)" for p
    using Cons by simp
  ultimately show ?case by (simp add: Let_def)
qed simp

lemma plan_replace_all_Ok:
  assumes inv: "buffer_inv R b" and ord: "ordered_from (full_text R b) 0 ms"
    and bound: "str_len (full_text R b) + length ms * str_len r < u64_bound"
  obtains p where "plan_replace_all R b ms r (\<lambda>_. False) = Ok p"
    and "plan_applied (full_text R b) p = replaced (full_text R b) r 0 ms"
    and "\<And>rg. plan_range p = Some rg \<Longrightarrow> valid_range R b rg"
    and "result_len p = str_len (replaced (full_text R b) r 0 ms)"
    and "plan_matched p = length ms"
    and "plan_changed p = length (filter (changes (full_text R b) r) ms)"
proof -
  let ?s = "full_text R b" and ?cs = "filter (changes (full_text R b) r) ms"
  obtain polls where ch: "changed_matches R b r (\<lambda>_. False) ms 0 0 0 = Ok (?cs, polls)"
    using changed_matches_Ok[OF inv ord, of r 0 0] by blast
  have rep: "replaced ?s r 0 ?cs = replaced ?s r 0 ms" using replaced_filter[OF ord] by simp
  show ?thesis
  proof (cases "?cs = []")
    case True
    then have "?s = replaced ?s r 0 ms" using rep by simp
    then show ?thesis
      by (intro that) (use ch True in \<open>auto simp: plan_replace_all_def plan_applied_def result_len_def len_bytes_eq\<close>)
  next
    case False
    let ?a = "range_start (hd ?cs)" and ?e = "last_end 0 ?cs"
    have "ordered_from ?s 0 ?cs" using ord by (rule ordered_from_filter)
    then have cs: "ordered_from ?s ?a ?cs" "is_boundary ?s ?a" using False by (cases ?cs; simp)+
    have e: "last_end c ?cs = range_end (last ?cs)" for c using False by (rule last_end_last)
    have le: "?a \<le> range_end (last ?cs)" "is_boundary ?s (range_end (last ?cs))"
      using ordered_from_last[OF cs] e by simp_all
    have len: "str_len (covered ?s r ?a ?cs) + deleted_total ?cs =
        range_end (last ?cs) - ?a + length ?cs * str_len r"
      using str_len_covered[OF cs, of r] e by simp
    have del: "?a + deleted_total ?cs \<le> range_end (last ?cs)" using deleted_total_le[OF cs(1)] e by simp
    have lelen: "range_end (last ?cs) \<le> str_len ?s" using le(2) by (rule is_boundary_le)
    have "length ?cs * str_len r \<le> length ms * str_len r" by simp
    with bound del lelen have small: "str_len ?s + length ?cs * str_len r < u64_bound"
      "deleted_total ?cs < u64_bound" "length ?cs * str_len r < u64_bound" by linarith+
    let ?p = "\<lparr>plan_matched = length ms, plan_changed = length ?cs, plan_source_len = str_len ?s,
      plan_range = Some (source_range_new ?a (range_end (last ?cs))),
      plan_replacement = covered ?s r ?a ?cs, plan_inserted_bytes = length ?cs * str_len r,
      plan_deleted_bytes = deleted_total ?cs\<rparr>"
    have sums: "checked_sub (range_end (last ?cs) - ?a) (deleted_total ?cs) =
        Some (range_end (last ?cs) - ?a - deleted_total ?cs)"
      "checked_add (range_end (last ?cs) - ?a - deleted_total ?cs) (length ?cs * str_len r) =
        Some (range_end (last ?cs) - ?a - deleted_total ?cs + length ?cs * str_len r)"
      "checked_sub (str_len ?s) (deleted_total ?cs) = Some (str_len ?s - deleted_total ?cs)"
      "checked_add (str_len ?s - deleted_total ?cs) (length ?cs * str_len r) =
        Some (str_len ?s - deleted_total ?cs + length ?cs * str_len r)"
      using small del lelen le by (auto simp: checked_sub_def checked_add_def)
    have plan: "plan_replace_all R b ms r (\<lambda>_. False) = Ok ?p"
      unfolding plan_replace_all_def ch Let_def using False sums small
      by (simp add: plan_bytes_Ok covering_text_Ok[OF inv cs] len_bytes_eq range_len_def)
    have applied: "plan_applied ?s ?p = replaced ?s r 0 ms"
      using splice_covered[OF cs refl False, of r] e rep by (simp add: plan_applied_def)
    have valid: "valid_range R b (source_range_new ?a (range_end (last ?cs)))"
      using cs(2) le by (simp add: valid_range_def)
    have "str_len (replaced ?s r 0 ms) =
        str_len ?s - (range_end (last ?cs) - ?a) + str_len (covered ?s r ?a ?cs)"
      using applied str_len_splice[OF cs(2) le(2) le(1), of "covered ?s r ?a ?cs"]
      by (simp add: plan_applied_def)
    also have "\<dots> = result_len ?p"
      using len del lelen le(1) by (simp add: result_len_def)
    finally have rl: "result_len ?p = str_len (replaced ?s r 0 ms)" by simp
    show ?thesis by (rule that[OF plan applied _ rl]) (use valid in simp_all)
  qed
qed

lemma plan_replace_all_not_ordered:
  assumes "buffer_inv R b" and "\<not> ordered_from (full_text R b) 0 ms"
  shows "\<exists>e. plan_replace_all R b ms r c = Err e"
  using changed_matches_not_ordered[OF assms, of r c 0 0] by (auto simp: plan_replace_all_def Let_def)

end

end
