(* ===== verification/Editor_Claims.thy ===== *)
theory Editor_Claims
  imports Editor_Runs
begin

text \<open>
  The properties of the editor: commands cannot fail, undo leads back to where
  the editor started, grouping keystrokes loses nothing, and an IME composition
  is invisible to the history until it is committed.
\<close>

section \<open>Facts for the witnesses\<close>

lemma new_editor_inv: "editor_inv list_rope s (editor_new list_rope s)"
  using list_rope.editor_new_idle[of s] by (rule idle_inv)

lemma new_editor_simps [simp]:
  "ed_document (editor_new list_rope s) = from_text list_rope s"
  "buf_revision (from_text list_rope s) = 0"
  "ed_selection (editor_new R s) = caret 0" "ed_ime (editor_new R s) = None"
  by (simp_all add: editor_new_def from_text_def from_rope_def)

section \<open>Properties\<close>

text \<open>C6: No editor command fails.  In every state that satisfies the invariant
  every command returns a value: it neither errors nor panics, the walk over words
  ends, and the invariant holds again, with no composition left and at most one
  edit made.\<close>

theorem dispatch_never_fails:
  assumes "text_segments E" and "editor_inv E t0 e" and "buf_revision (ed_document e) + 1 < u64_bound"
  shows "\<exists>edit e'. dispatch E now cmd e = (Ok edit, e') \<and> editor_inv E t0 e' \<and> ed_ime e' = None \<and>
    buf_revision (ed_document e') \<le> buf_revision (ed_document e) + 1"
  using text_segments.dispatch_lands[OF assms, of now cmd] by (auto simp: lands_def idle_def)

theorem dispatch_never_fails_witness:
  "\<exists>edit e'. dispatch list_rope (\<lambda>i. i) (MoveWord True NextStart False) (editor_new list_rope [97, 32, 98]) =
    (Ok edit, e') \<and> editor_inv list_rope [97, 32, 98] e'"
  using dispatch_never_fails[OF list_rope.text_segments_axioms new_editor_inv[of "[97, 32, 98]"],
      of "\<lambda>i. i" "MoveWord True NextStart False"]
  by (auto simp: u64_bound_def)





text \<open>C9: Undo and redo are inverse: undo takes the top entry back (text and
  selection), and redo right after it restores the text, the selection the entry
  ended with, and both stacks.\<close>

theorem undo_redo_inverse:
  assumes "text_segments E" and "idle E t0 e" and "buf_revision (ed_document e) + 2 < u64_bound"
    and "undo_stack (ed_history e) = us @ [en]"
  shows "\<exists>sm e1 sm' e2. dispatch E now Undo e = (Ok (Some sm), e1) \<and>
    text_undo en (full_text E (ed_document e)) = Some (full_text E (ed_document e1)) \<and>
    ed_selection e1 = entry_before en \<and>
    dispatch E now' Redo e1 = (Ok (Some sm'), e2) \<and>
    full_text E (ed_document e2) = full_text E (ed_document e) \<and> ed_selection e2 = entry_after en \<and>
    undo_stack (ed_history e2) = undo_stack (ed_history e) \<and> redo_stack (ed_history e2) = redo_stack (ed_history e)"
  using text_segments.undo_redo_pair[OF assms] .

lemma inserted_idle:
  "\<exists>e en. idle list_rope [97] e \<and> undo_stack (ed_history e) = [en] \<and> buf_revision (ed_document e) = 1 \<and>
    full_text list_rope (ed_document e) = [98, 97]"
proof -
  let ?e = "editor_new list_rope [97]"
  have i: "idle list_rope [97] ?e" by (rule list_rope.editor_new_idle)
  have "\<exists>e'. replace_selection_recorded_from list_rope [98] (caret 0) KReplace 0 ?e =
      (Ok (summary_of 0 [97] (source_range_new 0 0) [98]), e') \<and> idle list_rope [97] e' \<and>
      full_text list_rope (ed_document e') = splice [97] 0 0 [98] \<and> buf_revision (ed_document e') = 1"
    using list_rope.recorded_from_Ok[OF i, of "caret 0" "[98]" KReplace 0] by (simp add: u64_bound_def) blast
  then obtain e' where e': "replace_selection_recorded_from list_rope [98] (caret 0) KReplace 0 ?e =
      (Ok (summary_of 0 [97] (source_range_new 0 0) [98]), e')" "idle list_rope [97] e'"
    "full_text list_rope (ed_document e') = splice [97] 0 0 [98]" "buf_revision (ed_document e') = 1" by blast
  have "\<exists>en. undo_stack (ed_history e') = [en]"
    using e'(1) by (auto simp: replace_selection_recorded_from_def replace_selection_def on_document_def
        history_record_def push_or_merge_def editor_new_def empty_history_def Let_def
        split: prod.splits elim!: step_bind_OkE)
  then show ?thesis using e' by (auto simp: splice_def)
qed

theorem undo_redo_inverse_witness:
  "\<exists>e e1 e2. full_text list_rope (ed_document e) = [98, 97] \<and>
    snd (dispatch list_rope (\<lambda>i. i) Undo e) = e1 \<and> snd (dispatch list_rope (\<lambda>i. i) Redo e1) = e2 \<and>
    full_text list_rope (ed_document e2) = [98, 97]"
proof -
  obtain e en where e: "idle list_rope [97] e" "undo_stack (ed_history e) = [] @ [en]"
    "buf_revision (ed_document e) = 1" "full_text list_rope (ed_document e) = [98, 97]"
    using inserted_idle by auto
  have room: "buf_revision (ed_document e) + 2 < u64_bound" using e(3) by (simp add: u64_bound_def)
  show ?thesis
    using undo_redo_inverse[OF list_rope.text_segments_axioms e(1) room e(2), of "\<lambda>i. i" "\<lambda>i. i"] e(4) by fastforce
qed

text \<open>Grouping keystrokes is sound.  Where \<open>try_merge\<close> joins an edit to the
  previous entry, undoing the joined entry is undoing both edits in turn and
  redoing it is redoing both, text and selection included.\<close>

theorem merged_entry_is_both_edits:
  assumes "try_merge e n = Some m" and "text_undo n s = Some s1" and "text_undo e s1 = Some s0"
  shows "text_undo m s = Some s0 \<and> text_redo m s0 = Some s \<and>
    entry_before m = entry_before e \<and> entry_after m = entry_after n"
proof -
  have "text_redo e s0 = Some s1" "text_redo n s1 = Some s"
    using assms(2,3) entries.undo_iff_redo by blast+
  then have "text_redo m s0 = Some s" using entries.merge_redo[OF assms(1)] by blast
  moreover have "entry_before m = entry_before e \<and> entry_after m = entry_after n"
    using assms(1) by (cases "entry_kind e") (auto simp: try_merge_def split: if_splits)
  ultimately show ?thesis using try_merge_undo[OF assms] by simp
qed

theorem merged_entry_is_both_edits_witness:
  "text_undo \<lparr>entry_start = 0, entry_deleted = [98, 97], entry_inserted = [], entry_before = caret 2,
     entry_after = caret 0, entry_kind = KBackspace, last_edit_at = 9\<rparr> [99] = Some [98, 97, 99]"
  using merged_entry_is_both_edits[of "\<lparr>entry_start = 1, entry_deleted = [97], entry_inserted = [], entry_before = caret 2,
     entry_after = caret 1, entry_kind = KBackspace, last_edit_at = 5\<rparr>" "\<lparr>entry_start = 0, entry_deleted = [98],
     entry_inserted = [], entry_before = caret 1, entry_after = caret 0, entry_kind = KBackspace, last_edit_at = 9\<rparr>"
     "\<lparr>entry_start = 0, entry_deleted = [98, 97], entry_inserted = [], entry_before = caret 2,
     entry_after = caret 0, entry_kind = KBackspace, last_edit_at = 9\<rparr>" "[99]" "[98, 99]" "[98, 97, 99]"]
  by (simp add: try_merge_def group_timeout_def len_utf8_def text_undo_def exchange_def sel_ok_def
      is_boundary_def char_to_byte_def byte_slice_def splice_def)

text \<open>C10: Composing is invisible underneath.  Marking text, in a fresh or a running
  composition, succeeds, keeps the invariant, and leaves the text the composition
  hides (\<open>base_text\<close>) as it was: updates replace the marked text and never pile up.\<close>

theorem marking_text_keeps_base_text:
  assumes "text_segments E" and "editor_inv E t0 e" and "replacement_ok r"
    and "buf_revision (ed_document e) + 1 < u64_bound"
    and "str_len (full_text E (ed_document e)) + str_len t < u64_bound"
  shows "\<exists>sm e' ime. replace_and_mark_text E now r t selected e = (Ok sm, e') \<and> editor_inv E t0 e' \<and>
    ed_ime e' = Some ime \<and> ime_marked_text ime = t \<and> base_text E e' = base_text E e"
  using ropey.replace_and_mark_Ok[OF text_segments.axioms(1)[OF assms(1)] assms(2-5), of now selected] by blast

theorem marking_text_keeps_base_text_witness:
  "\<exists>sm e'. replace_and_mark_text list_rope (\<lambda>i. i) (Some (0, 1)) [12354] None (editor_new list_rope [97, 98]) =
    (Ok sm, e') \<and> base_text list_rope e' = [97, 98]"
  using marking_text_keeps_base_text[OF list_rope.text_segments_axioms new_editor_inv[of "[97, 98]"],
      of "Some (0, 1)" "[12354]" "\<lambda>i. i" None]
  by (auto simp: replacement_ok_def u64_bound_def len_utf8_def base_text_def)

text \<open>C11: Cancelling a composition restores the text underneath and the selection
  it began with, and records nothing; the outcome \<open>Conflict\<close> cannot occur.  The
  deltas of the composition must still be in the window.\<close>

theorem cancel_restores:
  assumes "text_segments E" and "editor_inv E t0 e" and "ed_ime e = Some ime"
    and "buf_revision (ed_document e) - length (buf_deltas (ed_document e)) \<le> ime_base_revision ime"
    and "buf_revision (ed_document e) + 1 < u64_bound"
  shows "\<exists>e'. cancel_composition E e = (Ok Restored, e') \<and> editor_inv E t0 e' \<and> ed_ime e' = None \<and>
    full_text E (ed_document e') = base_text E e \<and> ed_selection e' = ime_original_selection ime \<and>
    ed_history e' = ed_history e"
  using ropey.cancel_composition_Ok[OF text_segments.axioms(1)[OF assms(1)] assms(2-5)]
  by (auto simp: idle_def)

lemma composing_editor:
  "\<exists>e ime. editor_inv list_rope [97, 98] e \<and> ed_ime e = Some ime \<and> ime_original_selection ime = caret 0 \<and>
    buf_revision (ed_document e) = 1 \<and> base_text list_rope e = [97, 98] \<and>
    buf_revision (ed_document e) - length (buf_deltas (ed_document e)) \<le> ime_base_revision ime"
proof -
  let ?e = "editor_new list_rope [97, 98]"
  obtain sm e ime where e: "editor_inv list_rope [97, 98] e" "ed_ime e = Some ime"
    "base_text list_rope e = base_text list_rope ?e" "buf_revision (ed_document e) = 1"
    "ime_original_selection ime = caret 0" "buf_deltas (ed_document e) \<noteq> []"
    using list_rope.replace_and_mark_Ok[OF new_editor_inv[of "[97, 98]"], of None "[99]" "\<lambda>i. i" None]
    by (auto simp: replacement_ok_def u64_bound_def len_utf8_def)
  have "base_text list_rope ?e = [97, 98]" by (simp add: base_text_def)
  moreover have "buf_revision (ed_document e) - length (buf_deltas (ed_document e)) \<le> ime_base_revision ime"
    using e(4,6) by (cases "buf_deltas (ed_document e)") auto
  ultimately show ?thesis using e by auto
qed

theorem cancel_restores_witness:
  "\<exists>e e'. cancel_composition list_rope e = (Ok Restored, e') \<and>
    full_text list_rope (ed_document e') = [97, 98] \<and> ed_selection e' = caret 0"
proof -
  obtain e ime where e: "editor_inv list_rope [97, 98] e" "ed_ime e = Some ime" "ime_original_selection ime = caret 0"
    "buf_revision (ed_document e) = 1" "base_text list_rope e = [97, 98]"
    "buf_revision (ed_document e) - length (buf_deltas (ed_document e)) \<le> ime_base_revision ime"
    using composing_editor by blast
  have room: "buf_revision (ed_document e) + 1 < u64_bound" using e(4) by (simp add: u64_bound_def)
  show ?thesis
    using cancel_restores[OF list_rope.text_segments_axioms e(1,2,6) room] e(3,5) by auto
qed

text \<open>A composition that outlives the delta window cannot be cancelled.  The
  call errors after it has already dropped the composition: the marked text stays
  in the document, no undo entry is made for it, and the history no longer
  replays from the text (here: an entry that would restore the text underneath
  does not exist).\<close>

theorem cancel_drops_old_composition:
  assumes "text_segments E" and "editor_inv E t0 e" and "ed_ime e = Some ime"
    and "ime_base_revision ime < buf_revision (ed_document e) - length (buf_deltas (ed_document e))"
  shows "cancel_composition E e =
      (Err (RevisionHistoryUnavailable (ime_base_revision ime) (buf_revision (ed_document e))), e\<lparr>ed_ime := None\<rparr>) \<and>
    ed_history (snd (cancel_composition E e)) = ed_history e \<and>
    ed_document (snd (cancel_composition E e)) = ed_document e"
  using ropey.cancel_composition_lost[OF text_segments.axioms(1)[OF assms(1)] assms(2-4)] by simp

lemma old_composition:
  "\<exists>e ime. editor_inv list_rope [97] e \<and> ed_ime e = Some ime \<and>
    ime_base_revision ime < buf_revision (ed_document e) - length (buf_deltas (ed_document e))"
proof -
  let ?d = "(from_text list_rope [97])\<lparr>delta_capacity := 1\<rparr>"
  let ?e = "(editor_new list_rope [97])\<lparr>ed_document := ?d\<rparr>"
  have ft: "full_text list_rope (from_text list_rope [97]\<lparr>delta_capacity := c\<rparr>) = [97]" for c
    by (simp add: full_text_def from_text_def from_rope_def list_rope_def)
  have bi: "buffer_inv list_rope ?d"
    using list_rope.buffer_inv_from_text[of "[97]"] unfolding buffer_inv_def ft list_rope.full_text_from_text
    by (simp add: history_inv_def from_text_def from_rope_def)
  have "idle list_rope [97] ?e"
    using list_rope.editor_new_idle[of "[97]"] bi by (simp add: idle_iff ft)
  then have i: "editor_inv list_rope [97] ?e" by (rule idle_inv)
  have rev0: "buf_revision (ed_document ?e) = 0" "delta_capacity (ed_document ?e) = 1" "ed_ime ?e = None" by simp_all
  obtain sm e1 ime1 where e1: "replace_and_mark_text list_rope (\<lambda>i. i) None [98] None ?e = (Ok sm, e1)"
    "editor_inv list_rope [97] e1" "ed_ime e1 = Some ime1" "ime_base_revision ime1 = 0"
    "buf_revision (ed_document e1) = 1" "delta_capacity (ed_document e1) = 1" "str_len (full_text list_rope (ed_document e1)) \<le> 2"
    using list_rope.replace_and_mark_Ok[OF i, of None "[98]" "\<lambda>i. i" None] rev0
    by (auto simp: replacement_ok_def u64_bound_def len_utf8_def ft)
  obtain sm2 e2 ime2 where e2: "editor_inv list_rope [97] e2" "ed_ime e2 = Some ime2"
    "ime_base_revision ime2 = 0" "buf_revision (ed_document e2) = 2" "delta_capacity (ed_document e2) = 1"
    using list_rope.replace_and_mark_Ok[OF e1(2), of None "[99]" "\<lambda>i. i" None] e1
    by (auto simp: replacement_ok_def u64_bound_def len_utf8_def)
  have "length (buf_deltas (ed_document e2)) \<le> 1"
    using e2(1,5) by (auto simp: editor_inv_def buffer_inv_def history_inv_def)
  then show ?thesis using e2 by (intro exI[of _ e2] exI[of _ ime2]) auto
qed

theorem cancel_drops_old_composition_witness:
  "\<exists>e ime er. ed_ime e = Some ime \<and> cancel_composition list_rope e = (Err er, e\<lparr>ed_ime := None\<rparr>)"
proof -
  obtain e ime where e: "editor_inv list_rope [97] e" "ed_ime e = Some ime"
    "ime_base_revision ime < buf_revision (ed_document e) - length (buf_deltas (ed_document e))"
    using old_composition by blast
  from cancel_drops_old_composition[OF list_rope.text_segments_axioms e] e(2) show ?thesis by blast
qed

text \<open>Committing a composition is one undo step: after \<open>commit_text\<close> the
  history has exactly one entry more, whose undo takes the committed text back to
  the text underneath and the selection back to where the composition began.\<close>

theorem commit_is_one_undo_step:
  assumes "text_segments E" and "editor_inv E t0 e" and "ed_ime e = Some ime"
    and "buf_revision (ed_document e) + 1 < u64_bound"
  shows "\<exists>sm e' en. commit_text E now None t e = (Ok sm, e') \<and> editor_inv E t0 e' \<and> ed_ime e' = None \<and>
    undo_stack (ed_history e') = undo_stack (ed_history e) @ [en] \<and>
    text_undo en (full_text E (ed_document e')) = Some (base_text E e) \<and>
    entry_before en = ime_original_selection ime \<and> entry_inserted en = t"
proof -
  have "replacement_ok None" by (simp add: replacement_ok_def)
  from ropey.commit_text_Ok[OF text_segments.axioms(1)[OF assms(1)] assms(2) this assms(4), of now t] assms(3)
  show ?thesis by (auto simp: idle_def)
qed

theorem commit_is_one_undo_step_witness:
  "\<exists>e sm e' en. commit_text list_rope (\<lambda>i. i) None [100] e = (Ok sm, e') \<and>
    text_undo en (full_text list_rope (ed_document e')) = Some [97, 98]"
proof -
  obtain e ime where e: "editor_inv list_rope [97, 98] e" "ed_ime e = Some ime"
    "buf_revision (ed_document e) = 1" "base_text list_rope e = [97, 98]"
    using composing_editor by blast
  have room: "buf_revision (ed_document e) + 1 < u64_bound" using e(3) by (simp add: u64_bound_def)
  show ?thesis
    using commit_is_one_undo_step[OF list_rope.text_segments_axioms e(1,2) room, of "\<lambda>i. i" "[100]"] e(4) by auto
qed

text \<open>Word movement ends and makes progress: from every char boundary it
  returns a char boundary, strictly further unless the text ends there, for any
  segmentation of lines into non-empty pieces.\<close>

theorem word_target_progress:
  assumes "text_segments E" and "buffer_inv E b" and "is_boundary (full_text E b) p"
  shows "\<exists>q. word_target E b p forward stop = Ok q \<and> is_boundary (full_text E b) q \<and>
    (if forward then p \<le> q \<and> (p < str_len (full_text E b) \<longrightarrow> p < q)
     else q \<le> p \<and> (0 < p \<longrightarrow> q < p))"
  using text_segments.word_target_Ok[OF assms] .

theorem word_target_progress_witness:
  "\<exists>q. word_target list_rope (from_text list_rope [97, 98, 32, 99]) 1 True StopEnd = Ok q \<and> 1 < q"
  using word_target_progress[OF list_rope.text_segments_axioms list_rope.buffer_inv_from_text[of "[97, 98, 32, 99]"],
      of 1 True StopEnd]
  by (auto simp: is_boundary_def len_utf8_def char_to_byte_def)

text \<open>Typing replaces the selection: after \<open>Insert\<close> the text is the old one
  with the selected bytes replaced and the caret stands behind the inserted text.\<close>

theorem insert_replaces_selection:
  assumes "text_segments E" and "editor_inv E t0 e" and "buf_revision (ed_document e) + 1 < u64_bound"
  shows "\<exists>sm e'. dispatch E now (Insert t) e = (Ok (Some sm), e') \<and>
    full_text E (ed_document e') = splice (full_text E (ed_document e))
      (range_start (sel_range (ed_selection e))) (range_end (sel_range (ed_selection e))) t \<and>
    ed_selection e' = caret (range_start (sel_range (ed_selection e)) + str_len t)"
  using text_segments.dispatch_insert[OF assms] .

theorem insert_replaces_selection_witness:
  "\<exists>sm e'. dispatch list_rope (\<lambda>i. i) (Insert [233]) (editor_new list_rope [97]) = (Ok (Some sm), e') \<and>
    full_text list_rope (ed_document e') = [233, 97] \<and> ed_selection e' = caret 2"
  using insert_replaces_selection[OF list_rope.text_segments_axioms new_editor_inv[of "[97]"], of "\<lambda>i. i" "[233]"]
  by (simp add: u64_bound_def splice_def len_utf8_def) (simp add: numeral_2_eq_2)

text \<open>Backspace removes exactly what lies between the previous grapheme
  boundary and the caret, and puts the caret there.\<close>

theorem backspace_removes_grapheme:
  assumes "text_segments E" and "editor_inv E t0 e" and "buf_revision (ed_document e) + 1 < u64_bound"
    and "ed_selection e = caret p" and "0 < p"
  shows "\<exists>q sm e'. previous_grapheme E (ed_document e) p = Ok q \<and> q < p \<and>
    dispatch E now Backspace e = (Ok (Some sm), e') \<and>
    full_text E (ed_document e') = splice (full_text E (ed_document e)) q p [] \<and> ed_selection e' = caret q"
  using text_segments.dispatch_backspace[OF assms] .

theorem backspace_removes_grapheme_witness:
  "\<exists>q sm e'. dispatch list_rope (\<lambda>i. i) Backspace ((editor_new list_rope [97, 98])\<lparr>ed_selection := caret 2\<rparr>) =
    (Ok (Some sm), e') \<and> q < 2 \<and> ed_selection e' = caret q"
proof -
  let ?e = "(editor_new list_rope [97, 98])\<lparr>ed_selection := caret 2\<rparr>"
  have "idle list_rope [97, 98] ?e"
    by (rule idle_select[OF list_rope.editor_new_idle]) (simp add: is_boundary_def len_utf8_def)
  from backspace_removes_grapheme[OF list_rope.text_segments_axioms idle_inv[OF this], of 2 "\<lambda>i. i"] show ?thesis
    by (auto simp: u64_bound_def)
qed

text \<open>A planned edit (\<open>replace_range_recorded\<close>) on a valid range, with a
  selection on char boundaries of the new text, is accepted, replaces exactly the
  range and is one undo step of its own that restores text and selection.\<close>

theorem planned_edit_is_one_undo_step:
  assumes "text_segments E" and "editor_inv E t0 e" and "valid_range E (ed_document e) rg"
    and "sel_ok (splice (full_text E (ed_document e)) (range_start rg) (range_end rg) t) sel_after"
    and "buf_revision (ed_document e) + 1 < u64_bound"
  shows "\<exists>sm e' us en. replace_range_recorded E now rg t sel_after e = (Ok sm, e') \<and> editor_inv E t0 e' \<and>
    full_text E (ed_document e') = splice (full_text E (ed_document e)) (range_start rg) (range_end rg) t \<and>
    ed_selection e' = sel_after \<and> undo_stack (ed_history e') = us @ [en] \<and> \<not> can_merge_last (ed_history e') \<and>
    text_undo en (full_text E (ed_document e')) = Some (full_text E (ed_document e)) \<and> entry_before en = ed_selection e"
  using ropey.replace_range_recorded_Ok[OF text_segments.axioms(1)[OF assms(1)] assms(2-5), of now]
  by (auto simp: idle_def)

theorem planned_edit_is_one_undo_step_witness:
  "\<exists>sm e'. replace_range_recorded list_rope (\<lambda>i. i) (source_range_new 0 1) [99, 100] (caret 1) (editor_new list_rope [97, 98]) =
    (Ok sm, e') \<and> full_text list_rope (ed_document e') = [99, 100, 98]"
  using planned_edit_is_one_undo_step[OF list_rope.text_segments_axioms new_editor_inv[of "[97, 98]"],
      of "source_range_new 0 1" "[99, 100]" "caret 1" "\<lambda>i. i"]
  by (auto simp: valid_range_def is_boundary_def len_utf8_def char_to_byte_def splice_def u64_bound_def)

text \<open>\<open>set_selection\<close> accepts exactly the selections on char boundaries; either
  way a running composition is committed and the document is untouched.\<close>

theorem set_selection_accepts_boundaries:
  assumes "text_segments E" and "editor_inv E t0 e"
  shows "is_ok (fst (set_selection E t sel e)) = sel_ok (full_text E (ed_document e)) sel \<and>
    editor_inv E t0 (snd (set_selection E t sel e)) \<and> ed_ime (snd (set_selection E t sel e)) = None \<and>
    ed_document (snd (set_selection E t sel e)) = ed_document e \<and>
    ed_selection (snd (set_selection E t sel e)) =
      (if sel_ok (full_text E (ed_document e)) sel then sel else ed_selection e)"
  using ropey.set_selection_Ok[OF text_segments.axioms(1)[OF assms(1)] assms(2), of sel t]
    text_segments.set_selection_inv[OF assms, of t sel]
  by (auto simp: idle_def split: if_splits)

theorem set_selection_accepts_boundaries_witness:
  "ed_selection (snd (set_selection list_rope 7 (caret 1) (editor_new list_rope [233]))) = caret 0"
  using set_selection_accepts_boundaries[OF list_rope.text_segments_axioms new_editor_inv[of "[233]"], of 7 "caret 1"]
  by (simp add: is_boundary_def len_utf8_def)

end
