(* ===== verification/Find_Claims.thy ===== *)
theory Find_Claims
  imports Replace_Facts Editor_Claims
begin

text \<open>
  The properties of find and replace: the scan in windows finds what one pass
  finds, its matches are right and complete, the render path picks the visible
  ones, and replace-all turns a match list into one edit with the expected text.
\<close>

section \<open>Facts for the witnesses\<close>

lemmas from_text_inv = list_rope.buffer_inv_from_text
lemmas full_text_from_text = list_rope.full_text_from_text

lemma scan_ba:
  "find_scan_all list_rope (from_text list_rope [98, 97]) [97] \<lparr>case_sensitive = True\<rparr> (\<lambda>_. False) =
    Ok (Completed \<lparr>found = [source_range_new 1 2], truncated = False\<rparr>)"
  using list_rope.find_scan_all_spec[OF from_text_inv[of "[98, 97]"], of "[97]" "[97]" "\<lparr>case_sensitive = True\<rparr>"]
  by (simp add: full_text_from_text find_query_parse_def max_query_bytes_def max_matches_def len_utf8_def
      prefix_matches_def chars_match_def LF_def CR_def numeral_2_eq_2)

section \<open>Properties\<close>

text \<open>C12: The scan in overlapping windows is one pass.  For a parsed query and a
  valid range, with no cancellation, \<open>scan_range\<close> returns (no error, no panic, the
  window loop ends) and finds exactly the first \<open>max_matches\<close> of the matches a
  single left-to-right pass over the range finds; it reports truncation exactly
  when there are more.\<close>

theorem windowed_scan_is_one_pass:
  assumes "text_segments E" and "buffer_inv E b" and "find_query_parse raw = Ok q" and "valid_range E b rg"
  shows "find_scan_range E b q options rg (\<lambda>_. False) =
    (let ms = ref_scan E (case_sensitive options) q (range_start rg)
                (byte_slice (full_text E b) (range_start rg) (range_end rg))
     in Ok (Ok (Completed \<lparr>found = take max_matches ms, truncated = max_matches < length ms\<rparr>)))"
  using text_segments.find_scan_range_spec[OF assms] .

theorem windowed_scan_is_one_pass_witness:
  "find_scan_range list_rope (from_text list_rope [97, 98, 97]) [97] \<lparr>case_sensitive = True\<rparr>
     (source_range_new 0 3) (\<lambda>_. False) =
   Ok (Ok (Completed \<lparr>found = [source_range_new 0 1, source_range_new 2 3], truncated = False\<rparr>))"
  using windowed_scan_is_one_pass[OF list_rope.text_segments_axioms from_text_inv[of "[97, 98, 97]"],
      of "[97]" "[97]" "source_range_new 0 3" "\<lparr>case_sensitive = True\<rparr>"]
  by (simp add: full_text_from_text find_query_parse_def max_query_bytes_def max_matches_def valid_range_def LF_def CR_def
      is_boundary_def len_utf8_def char_to_byte_def byte_slice_def prefix_matches_def chars_match_def)

text \<open>C13: A completed scan of the whole document is right and complete: the matches
  are ordered, disjoint and lie on char boundaries; the text of each matches the
  query char by char (up to lower case when the case is ignored); and unless the
  result says it is truncated, every place where the query occurs lies inside a
  reported match.\<close>

theorem scan_is_sound_and_complete:
  assumes "text_segments E" and "buffer_inv E b" and "find_query_parse raw = Ok q"
    and "find_scan_all E b q options (\<lambda>_. False) = Ok (Completed res)"
  shows "ordered_from (full_text E b) 0 (found res) \<and>
    (\<forall>m \<in> set (found res). list_all2 (\<lambda>h p. chars_match E h p (case_sensitive options))
       (byte_slice (full_text E b) (range_start m) (range_end m)) q) \<and>
    (\<not> truncated res \<longrightarrow> (\<forall>x y. full_text E b = x @ y \<and> prefix_matches E (case_sensitive options) q y \<longrightarrow>
       (\<exists>m \<in> set (found res). range_start m \<le> str_len x \<and> str_len x < range_end m)))"
proof (intro conjI ballI impI allI)
  note found = text_segments.find_scan_all_found[OF assms]
  show "ordered_from (full_text E b) 0 (found res)" by (rule found(4))
  fix m assume "m \<in> set (found res)"
  then have "m \<in> set (ref_scan E (case_sensitive options) q 0 (full_text E b))"
    using found(2) by (auto dest: in_set_takeD)
  from ref_scan_text[OF this found(1)]
  show "list_all2 (\<lambda>h p. chars_match E h p (case_sensitive options))
      (byte_slice (full_text E b) (range_start m) (range_end m)) q" .
next
  note found = text_segments.find_scan_all_found[OF assms]
  fix x y assume "\<not> truncated res" "full_text E b = x @ y \<and> prefix_matches E (case_sensitive options) q y"
  then show "\<exists>m \<in> set (found res). range_start m \<le> str_len x \<and> str_len x < range_end m"
    using ref_scan_complete[OF found(1), of "full_text E b" x y E "case_sensitive options" 0] found(2,3)
    by simp
qed

theorem scan_is_sound_and_complete_witness:
  "\<exists>m \<in> set (found \<lparr>found = [source_range_new 1 2], truncated = False\<rparr>). range_start m \<le> 1 \<and> 1 < range_end m"
proof -
  from scan_is_sound_and_complete[OF list_rope.text_segments_axioms from_text_inv _ scan_ba, of "[97]"]
  have "\<forall>x y. [98, 97] = x @ y \<and> prefix_matches list_rope True [97] y \<longrightarrow>
      (\<exists>m \<in> set [source_range_new 1 2]. range_start m \<le> str_len x \<and> str_len x < range_end m)"
    by (simp add: full_text_from_text find_query_parse_def max_query_bytes_def len_utf8_def LF_def CR_def)
  from this[rule_format, of "[98]" "[97]"] show ?thesis
    by (simp add: prefix_matches_def chars_match_def len_utf8_def)
qed

text \<open>The render path's binary search picks exactly the matches that
  intersect the viewport, in order, for every ordered match list.\<close>

theorem visible_matches_are_the_intersecting_ones:
  assumes "ordered_from s cur ms"
  shows "matches_in_range ms v = filter (\<lambda>m. range_start m < range_end v \<and> range_start v < range_end m) ms"
  using matches_in_range_filter[OF assms] .

theorem visible_matches_are_the_intersecting_ones_witness:
  "matches_in_range [source_range_new 0 1, source_range_new 1 2, source_range_new 3 4] (source_range_new 1 3) =
     [source_range_new 1 2]"
  using visible_matches_are_the_intersecting_ones[of "[97, 97, 97, 97]" 0
      "[source_range_new 0 1, source_range_new 1 2, source_range_new 3 4]" "source_range_new 1 3"]
  by (simp add: is_boundary_def len_utf8_def)

text \<open>C14: Replace-all is one edit that replaces every match.  For an ordered match
  list on char boundaries whose result fits the address space, planning succeeds;
  the covering edit, applied to the text, gives the text with every match
  replaced (matches that already read as the replacement are skipped, gaps are
  kept); its range is valid and the announced length is the length of the result.\<close>

theorem replace_plan_replaces_every_match:
  assumes "text_segments E" and "buffer_inv E b" and "ordered_from (full_text E b) 0 ms"
    and "str_len (full_text E b) + length ms * str_len r < u64_bound"
  shows "\<exists>p. plan_replace_all E b ms r (\<lambda>_. False) = Ok p \<and>
    plan_applied (full_text E b) p = replaced (full_text E b) r 0 ms \<and>
    pred_option (valid_range E b) (plan_range p) \<and>
    result_len p = str_len (replaced (full_text E b) r 0 ms) \<and>
    plan_matched p = length ms \<and> plan_changed p = length (filter (changes (full_text E b) r) ms)"
  by (rule ropey.plan_replace_all_Ok[OF text_segments.axioms(1)[OF assms(1)] assms(2-4)])
    (auto simp: option.pred_set intro!: exI)

theorem replace_plan_replaces_every_match_witness:
  "\<exists>p. plan_replace_all list_rope (from_text list_rope [97, 98, 97]) [source_range_new 0 1, source_range_new 2 3]
     [99, 99] (\<lambda>_. False) = Ok p \<and> plan_applied [97, 98, 97] p = [99, 99, 98, 99, 99]"
  using replace_plan_replaces_every_match[OF list_rope.text_segments_axioms from_text_inv[of "[97, 98, 97]"],
      of "[source_range_new 0 1, source_range_new 2 3]" "[99, 99]"]
  by (auto simp: full_text_from_text is_boundary_def len_utf8_def u64_bound_def byte_slice_def
      char_to_byte_def)

text \<open>A match list that is unordered, overlapping, out of bounds or off the char
  boundaries is refused with an error, whatever the cancellation does; planning
  never panics on it.\<close>

theorem replace_plan_refuses_bad_matches:
  assumes "text_segments E" and "buffer_inv E b" and "\<not> ordered_from (full_text E b) 0 ms"
  shows "\<exists>e. plan_replace_all E b ms r c = Err e"
  using ropey.plan_replace_all_not_ordered[OF text_segments.axioms(1)[OF assms(1)] assms(2,3)] .

theorem replace_plan_refuses_bad_matches_witness:
  "\<exists>e. plan_replace_all list_rope (from_text list_rope [233]) [source_range_new 0 1] [97] (\<lambda>_. False) = Err e"
  using replace_plan_refuses_bad_matches[OF list_rope.text_segments_axioms from_text_inv[of "[233]"],
      of "[source_range_new 0 1]" "[97]" "\<lambda>_. False"]
  by (simp add: full_text_from_text is_boundary_def len_utf8_def)

text \<open>Find, plan and replace compose: the matches a completed scan reports are
  accepted by the planner, and the plan's edit, made through
  \<open>replace_range_recorded\<close>, leaves the document with every reported match replaced
  as one undo step that restores the old text.\<close>

theorem replace_all_in_the_editor:
  assumes "text_segments E" and "editor_inv E t0 e" and "find_query_parse raw = Ok q"
    and "find_scan_all E (ed_document e) q options (\<lambda>_. False) = Ok (Completed res)"
    and "str_len (full_text E (ed_document e)) + length (found res) * str_len r < u64_bound"
    and "buf_revision (ed_document e) + 1 < u64_bound"
  shows "\<exists>p. plan_replace_all E (ed_document e) (found res) r (\<lambda>_. False) = Ok p \<and>
    (\<forall>rg. plan_range p = Some rg \<longrightarrow>
      (\<exists>sm e' us en. replace_range_recorded E now rg (plan_replacement p) (caret (range_start rg)) e = (Ok sm, e') \<and>
        full_text E (ed_document e') = replaced (full_text E (ed_document e)) r 0 (found res) \<and>
        undo_stack (ed_history e') = us @ [en] \<and>
        text_undo en (full_text E (ed_document e')) = Some (full_text E (ed_document e))))"
proof -
  let ?s = "full_text E (ed_document e)"
  have inv: "buffer_inv E (ed_document e)" using assms(2) by (simp add: editor_inv_def)
  note R = text_segments.axioms(1)[OF assms(1)]
  note found = text_segments.find_scan_all_found(4)[OF assms(1) inv assms(3,4)]
  obtain p where p: "plan_replace_all E (ed_document e) (found res) r (\<lambda>_. False) = Ok p"
    "plan_applied ?s p = replaced ?s r 0 (found res)"
    "\<forall>rg. plan_range p = Some rg \<longrightarrow> valid_range E (ed_document e) rg"
    by (rule ropey.plan_replace_all_Ok[OF R inv found assms(5)]) auto
  have "\<exists>sm e' us en. replace_range_recorded E now rg (plan_replacement p) (caret (range_start rg)) e = (Ok sm, e') \<and>
      full_text E (ed_document e') = replaced ?s r 0 (found res) \<and> undo_stack (ed_history e') = us @ [en] \<and>
      text_undo en (full_text E (ed_document e')) = Some ?s" if rg: "plan_range p = Some rg" for rg
  proof -
    have "sel_ok (splice ?s (range_start rg) (range_end rg) (plan_replacement p)) (caret (range_start rg))"
      using p(3)[rule_format, OF rg] by (auto simp: valid_range_def intro: is_boundary_splice_before)
    from ropey.replace_range_recorded_Ok[OF R assms(2) p(3)[rule_format, OF rg] this assms(6), of now]
    show ?thesis using p(2) rg by (auto simp: plan_applied_def)
  qed
  with p(1) show ?thesis by blast
qed

theorem replace_all_in_the_editor_witness:
  "\<exists>p. plan_replace_all list_rope (from_text list_rope [98, 97]) [source_range_new 1 2] [99] (\<lambda>_. False) = Ok p"
proof -
  have "find_scan_all list_rope (ed_document (editor_new list_rope [98, 97])) [97] \<lparr>case_sensitive = True\<rparr>
      (\<lambda>_. False) = Ok (Completed \<lparr>found = [source_range_new 1 2], truncated = False\<rparr>)"
    using scan_ba by simp
  from replace_all_in_the_editor[OF list_rope.text_segments_axioms new_editor_inv _ this, of "[97]" "[99]"]
  show ?thesis
    by (auto simp: full_text_from_text find_query_parse_def max_query_bytes_def len_utf8_def u64_bound_def LF_def CR_def)
qed

end
