(* ===== verification/Session_Claims.thy ===== *)
theory Session_Claims
  imports Session_Set_Facts Find_Claims
begin

text \<open>
  The properties of sessions: unsaved text is never lost behind the user's back,
  results of superseded background work change nothing, and a file on disk is only
  replaced when it still holds what the session last saw.
\<close>

section \<open>A session for the witnesses\<close>

definition sample_print :: content_fingerprint where
  "sample_print = \<lparr>fp_len = 1, fp_lane_a = 2, fp_lane_b = 3\<rparr>"

definition sample_file :: "str loaded_file" where
  "sample_file = \<lparr>lf_document = from_text list_rope [97], lf_identity = identity_new [Normal [120]] [Normal [120]],
     lf_stamp = Some \<lparr>stamp_len = 1, stamp_modified = None\<rparr>, lf_fingerprint = Some sample_print\<rparr>"

definition sample_session :: "str document_session" where
  "sample_session = session_from_loaded list_rope 0 sample_file"

definition sample_view :: disk_view where
  "sample_view = \<lparr>fs_canonicalize = (\<lambda>p. None), fs_file_id = (\<lambda>p. None)\<rparr>"

definition sample_saved :: saved_file where
  "sample_saved = \<lparr>sf_identity = identity_new [Normal [120]] [Normal [120]], sf_stamp = None, sf_fingerprint = None\<rparr>"

lemma sample_session_inv: "session_inv list_rope sample_session"
  unfolding sample_session_def
  by (rule list_rope.session_from_loaded_inv) (simp add: sample_file_def from_text_inv)

lemma sample_session_simps [simp]:
  "ds_in_flight sample_session = None" "session_revision sample_session = 0" "ds_saved_revision sample_session = 0"
  "file_path (ds_file sample_session) = Some [Normal [120]]" "fs_baseline (ds_file sample_session) = Some sample_print"
  "ds_generation sample_session = 0" "ds_save_sequence sample_session = 0" "ds_id sample_session = 0"
  "ds_check_in_flight sample_session = None" "ds_external sample_session = InSync" "ds_approval_serial sample_session = 0"
  "ed_document (ds_editor sample_session) = from_text list_rope [97]" "\<not> is_dirty sample_session"
  by (simp_all add: sample_session_def session_from_loaded_def session_from_parts_def loaded_state_def sample_file_def
      set_baseline_def file_tracked_def file_path_def identity_new_def session_revision_def is_dirty_def
      editor_from_document_def editor_new_def)

definition sample_job :: "str save_job" where
  "sample_job = fst (start_write [Normal [120]] (content_guard sample_session) sample_session)"

definition sample_writing :: "str document_session" where
  "sample_writing = snd (start_write [Normal [120]] (content_guard sample_session) sample_session)"

lemma sample_request: "request_save sample_view SaveCurrent sample_session = (DecideWrite sample_job, sample_writing)"
  by (simp add: request_save_def sample_job_def sample_writing_def case_prod_beta Let_def)

lemma sample_writing_simps [simp]:
  "ds_in_flight sample_writing = Some (job_ticket sample_job)" "st_revision (job_ticket sample_job) = 0"
  "session_revision sample_writing = 0"
  by (simp_all add: sample_writing_def sample_job_def start_write_def Let_def) (simp add: session_revision_def)

lemma finish_save_lands:
  "ds_in_flight u = Some ticket \<Longrightarrow> session_revision u = st_revision ticket \<Longrightarrow>
   \<exists>v. finish_save ticket (Inr saved) u = (Saved, v)"
  by (simp add: finish_save_def session_revision_def Let_def)

section \<open>Saving\<close>

text \<open>C15: "Saved" means saved.  When a granted write finishes as \<open>Saved\<close>, after any
  edits, events and other results in between, the session is clean and its current
  document is the very document the write was given; the baseline is the
  fingerprint of what was written.\<close>

theorem saved_means_saved:
  assumes "text_segments E" and "session_inv E s"
    and "request_save fs intent s = (DecideWrite job, t)" and "steps (session_step E) n t u" and "n < u64_bound"
    and "finish_save (job_ticket job) (Inr saved) u = (Saved, v)"
  shows "\<not> is_dirty v \<and> ed_document (ds_editor v) = job_document job \<and>
    fs_baseline (ds_file v) = sf_fingerprint saved \<and> ds_in_flight v = None"
  using text_segments.saved_text[OF assms(1,3,2,4,5,6)] by blast

theorem saved_means_saved_witness:
  "\<exists>v. finish_save (job_ticket sample_job) (Inr sample_saved) sample_writing = (Saved, v) \<and>
     full_text list_rope (ed_document (ds_editor v)) = [97]"
proof -
  obtain v where v: "finish_save (job_ticket sample_job) (Inr sample_saved) sample_writing = (Saved, v)"
    using finish_save_lands[of sample_writing "job_ticket sample_job" sample_saved] by auto
  then have "ed_document (ds_editor v) = job_document sample_job"
    using saved_means_saved[OF list_rope.text_segments_axioms sample_session_inv sample_request steps_refl _ v]
    by (simp add: u64_bound_def)
  then show ?thesis using v by (simp add: sample_job_def start_write_def full_text_from_text Let_def)
qed

text \<open>A finished write cannot come back: once a ticket's result has been applied,
  a later result with the same ticket is \<open>Superseded\<close> and changes nothing, in every
  run of fewer than \<open>2 ^ 64\<close> steps.\<close>

theorem finished_write_never_returns:
  assumes "session_inv E s" and "ds_in_flight s = Some ticket" and "finish_save ticket result s = (outcome, t)"
    and "steps (session_step E) n t u" and "n < u64_bound"
  shows "finish_save ticket result' u = (Superseded, u)"
proof -
  have t: "ds_in_flight t = None" "ds_save_sequence t = ds_save_sequence s"
    using assms(2,3) by (auto simp: finish_save_def Let_def split: sum.splits save_failure.splits if_splits)
  have "st_sequence ticket = ds_save_sequence t" using assms(1,2) t by (simp add: session_inv_def ticket_ok_def)
  moreover have "save_holder u \<noteq> Some (ds_save_sequence t)"
    using save_slot.never_again[OF assms(4,5)] t by (simp add: save_holder_def)
  ultimately show ?thesis by (auto simp: finish_save_def save_holder_def)
qed

theorem finished_write_never_returns_witness:
  "\<exists>outcome t. finish_save (job_ticket sample_job) (Inl ExternalChangeFailure) sample_writing = (outcome, t) \<and>
     finish_save (job_ticket sample_job) (Inr sample_saved) t = (Superseded, t)"
proof -
  obtain outcome t where f: "finish_save (job_ticket sample_job) (Inl ExternalChangeFailure) sample_writing = (outcome, t)"
    by fastforce
  have "session_inv list_rope sample_writing"
    using list_rope.session_event_inv[OF sample_session_inv, of "RequestSave sample_view SaveCurrent"] sample_request
    by simp
  from finished_write_never_returns[OF this _ f steps_refl] show ?thesis using f by (simp add: u64_bound_def)
qed


definition changed_disk :: "str file_service" where
  "changed_disk = \<lparr>sv_stamp = (\<lambda>t p. Some \<lparr>stamp_len = 1, stamp_modified = None\<rparr>),
     sv_load = (\<lambda>t p. Inr (sample_file\<lparr>lf_fingerprint := Some (sample_print\<lparr>fp_lane_a := 9\<rparr>)\<rparr>)),
     sv_save = (\<lambda>t p d. Inr sample_saved), sv_save_in_existing_directory = (\<lambda>t p d. Inr sample_saved)\<rparr>"


section \<open>Unsaved text\<close>

text \<open>C17: Unsaved text is only replaced with consent.  Whatever method runs on a
  dirty session, with any arguments and results, its editor stays as it is, except
  when the caller replaces the whole document (\<open>adopt\<close>) or a confirmed reload runs
  whose approval is the live one, was given for this revision, and names the very
  version whose text is taken.\<close>

theorem unsaved_text_needs_consent:
  assumes "is_dirty s"
  shows "ds_editor (handle R event s) = ds_editor s \<or> (\<exists>loaded. event = Adopt loaded) \<or>
    (\<exists>now a seen. event = ApplyReload now a \<and> approval_is_current a DiscardAndReload s \<and>
      ds_external s = ExtChanged seen \<and> ap_shown a = Some (oe_fingerprint seen) \<and>
      ed_document (ds_editor (handle R event s)) = oe_document seen) \<or>
    (\<exists>now request seen. event = FinishReload now request (DiskPresent seen) \<and>
      approval_is_current (rv_approval request) DiscardAndReload s \<and>
      ap_shown (rv_approval request) = Some (of_fingerprint seen) \<and>
      ed_document (ds_editor (handle R event s)) = of_document seen)"
  using handle_core[of s R event]
proof cases
  case (disk observed)
  have "ed_document (ds_editor (handle R event s)) = of_document observed"
    using takes_disk_document[OF disk(1)] .
  then show ?thesis using disk(2) assms reload_shown by metis
qed (auto simp: keeps_core_def takes_slot_def frees_slot_def)

definition dirty_session :: "str document_session" where
  "dirty_session = sample_session\<lparr>ds_saved_revision := 1, ds_check_in_flight := Some 1\<rparr>"

definition foreign_version :: "str observed_file" where
  "foreign_version = \<lparr>of_document = from_text list_rope [98], of_fingerprint = sample_print\<lparr>fp_lane_a := 9\<rparr>,
     of_stamp = None, of_canonical = None\<rparr>"

theorem unsaved_text_needs_consent_witness:
  "ds_editor (handle list_rope (FinishCheck 0 \<lparr>ct_generation = 0, ct_sequence = 1, ct_revision = 0, ct_saves = 0,
      ct_path = [Normal [120]]\<rparr> \<lparr>res_disk = DiskPresent foreign_version, res_local = None\<rparr>) dirty_session) =
     ds_editor dirty_session"
proof -
  have "is_dirty dirty_session"
    using sample_session_simps(2) by (simp add: dirty_session_def is_dirty_def session_revision_def)
  from unsaved_text_needs_consent[OF this] show ?thesis by blast
qed

text \<open>An approval is used at most once, and only for what was approved.  A
  confirmed overwrite is granted only at the revision and document generation the
  user approved, its write is guarded by the version shown (or by the file still
  being gone), and after it no later request with the same approval is granted.\<close>

theorem approval_is_single_use:
  assumes "text_segments E" and "session_inv E s"
    and "approve_resolution ResolveOverwrite shown s = (Some a, s1)" and "steps (session_step E) n s1 s2"
    and "request_confirmed_overwrite a s2 = (Some job, s3)" and "steps (session_step E) m s3 s4" and "m < u64_bound"
  shows "session_revision s2 = session_revision s \<and> ds_generation s2 = ds_generation s \<and>
    (case shown of Some fp \<Rightarrow> \<exists>stamp. job_guard job = ExpectContent stamp (Some fp)
                 | None \<Rightarrow> job_guard job = ExpectContent None None) \<and>
    request_confirmed_overwrite a s4 = (None, s4)"
proof -
  have a: "ap_revision a = session_revision s" "ap_generation a = ds_generation s" "ap_shown a = shown"
    using assms(3) by (auto simp: approve_resolution_def Let_def split: option.splits if_splits)
  have "session_inv E s1"
    using text_segments.session_event_inv[OF assms(1,2), of "Approve ResolveOverwrite shown"] assms(3) by simp
  then have inv: "session_inv E s2"
    using steps_invariant[OF assms(4)] text_segments.session_step_inv[OF assms(1)] by blast
  have cur: "approval_is_current a ResolveOverwrite s2"
    using assms(5) by (auto simp: request_confirmed_overwrite_def split: if_splits)
  have s3: "ds_live_approval s3 = None" "ds_approval_serial s3 = ds_approval_serial s2"
    using assms(5) by (auto simp: request_confirmed_overwrite_def start_write_def Let_def split: if_splits option.splits)
  have "ap_serial a = ds_approval_serial s3"
    using inv cur s3(2) by (auto simp: session_inv_def approval_is_current_def)
  moreover have "ds_live_approval s4 \<noteq> Some (ds_approval_serial s3)"
    using approval_slot.never_again[OF assms(6,7)] s3(1) by simp
  ultimately have "\<not> approval_is_current a ResolveOverwrite s4" by (simp add: approval_is_current_def)
  then have "request_confirmed_overwrite a s4 = (None, s4)" by (simp add: request_confirmed_overwrite_def)
  moreover have "case shown of Some fp \<Rightarrow> \<exists>stamp. job_guard job = ExpectContent stamp (Some fp)
      | None \<Rightarrow> job_guard job = ExpectContent None None"
    using assms(5) cur a(3)
    by (auto simp: request_confirmed_overwrite_def start_write_def approval_is_current_def
        current_external_fingerprint_def Let_def split: if_splits option.splits external_state.splits)
  ultimately show ?thesis using a cur by (simp add: approval_is_current_def)
qed

definition missing_session :: "str document_session" where
  "missing_session = snd (apply_file_event (DeletedEvent [Normal [120]]) sample_session)"

theorem approval_is_single_use_witness:
  "\<exists>a s1 job s3. approve_resolution ResolveOverwrite None missing_session = (Some a, s1) \<and>
     request_confirmed_overwrite a s1 = (Some job, s3) \<and> job_guard job = ExpectContent None None \<and>
     request_confirmed_overwrite a s3 = (None, s3)"
proof -
  have ident: "fs_identity (ds_file sample_session) = Some (identity_new [Normal [120]] [Normal [120]])"
    by (simp add: sample_session_def session_from_loaded_def session_from_parts_def loaded_state_def sample_file_def
        set_baseline_def file_tracked_def)
  have m: "missing_session = sample_session\<lparr>ds_file := mark_missing (ds_file sample_session)\<rparr>"
    by (simp add: missing_session_def apply_file_event_def ident matches_path_def identity_new_def missing_file_def)
  have inv: "session_inv list_rope missing_session"
    using list_rope.session_event_inv[OF sample_session_inv, of "HandleFileEvent (DeletedEvent [Normal [120]])"]
    by (simp add: missing_session_def)
  obtain a s1 where a: "approve_resolution ResolveOverwrite None missing_session = (Some a, s1)"
    by (simp add: approve_resolution_def current_external_fingerprint_def m mark_missing_def Let_def)
  have "fst (request_confirmed_overwrite a s1) \<noteq> None"
    using a by (auto simp: approve_resolution_def current_external_fingerprint_def m mark_missing_def Let_def
        request_confirmed_overwrite_def approval_is_current_def session_revision_def file_path_def ident
        case_prod_beta)
  then obtain job s3 where j: "request_confirmed_overwrite a s1 = (Some job, s3)"
    by (cases "request_confirmed_overwrite a s1") auto
  from approval_is_single_use[OF list_rope.text_segments_axioms inv a steps_refl j steps_refl]
  show ?thesis using a j by (auto simp: u64_bound_def)
qed

section \<open>External versions\<close>

text \<open>A background check takes the disk's text only when nothing can be lost.  If
  a check ends as \<open>Reloaded\<close>, the session was clean, at the revision the check
  started from, with no composition and no write running; it is then clean again and
  in sync, shows the text that was read, and both ends of the selection are the old
  ones rounded down to a char boundary.  With any other outcome the editor stays.\<close>

theorem check_reloads_only_idle_text:
  assumes "text_segments E" and "disk_ok E (res_disk result)"
    and "finish_external_check E now ticket result s = (outcome, t)"
  shows "if outcome = CheckReloaded then
      \<not> is_dirty s \<and> session_revision s = ct_revision ticket \<and> ed_ime (ds_editor s) = None \<and> ds_in_flight s = None \<and>
      (\<exists>seen. res_disk result = DiskPresent seen \<and> ed_document (ds_editor t) = of_document seen \<and>
        fs_baseline (ds_file t) = Some (of_fingerprint seen) \<and>
        rounded (full_text E (of_document seen)) (sel_anchor (ed_selection (ds_editor s))) (sel_anchor (ed_selection (ds_editor t))) \<and>
        rounded (full_text E (of_document seen)) (sel_active (ed_selection (ds_editor s))) (sel_active (ed_selection (ds_editor t)))) \<and>
      \<not> is_dirty t \<and> ds_external t = InSync
    else ds_editor t = ds_editor s"
proof -
  note reload = check_reloaded[OF assms(3)]
  show ?thesis
  proof (cases "outcome = CheckReloaded")
    case True
    then obtain seen u where u: "res_disk result = DiskPresent seen" "t = replace_with_disk E now seen u"
      "ds_editor u = ds_editor s" "\<not> is_dirty s" "session_revision s = ct_revision ticket"
      "ed_ime (ds_editor s) = None" "ds_in_flight s = None"
      using reload(1) by blast
    have b: "buffer_inv E (of_document seen)" using assms(2) u(1) by simp
    show ?thesis
      using True u text_segments.replace_with_disk_editor[OF assms(1) b, where now = now and s = u]
      by (auto simp: replace_with_disk_state)
  qed (use reload(2) in simp)
qed

theorem check_reloads_only_idle_text_witness:
  "ds_editor (snd (finish_external_check list_rope 0 \<lparr>ct_generation = 0, ct_sequence = 1, ct_revision = 0, ct_saves = 0,
     ct_path = []\<rparr> \<lparr>res_disk = DiskMissing, res_local = None\<rparr> dirty_session)) = ds_editor dirty_session"
proof -
  let ?ticket = "\<lparr>ct_generation = 0, ct_sequence = 1, ct_revision = 0, ct_saves = 0, ct_path = []\<rparr>"
    and ?result = "\<lparr>res_disk = DiskMissing, res_local = None\<rparr>"
  obtain outcome t where f: "finish_external_check list_rope 0 ?ticket ?result dirty_session = (outcome, t)"
    by fastforce
  have "outcome \<noteq> CheckReloaded"
    using f by (auto simp: finish_external_check_def Let_def split: if_splits)
  with check_reloads_only_idle_text[OF list_rope.text_segments_axioms _ f] f show ?thesis by simp
qed

text \<open>Checking never gets stuck: whatever the running check reports, its slot is
  free afterwards, so for a document with a file the next request starts a new check
  instead of being folded into one that will never report.\<close>

theorem check_slot_is_released:
  assumes "ds_check_in_flight s = Some (ct_sequence ticket)"
    and "finish_external_check E now ticket result s = (outcome, t)" and "file_path (ds_file t) \<noteq> None"
  shows "\<exists>request u. begin_external_check t = (RunCheck request, u) \<and>
    ds_check_in_flight u = Some (ct_sequence (cr_ticket request))"
proof -
  have "ds_check_in_flight t = None" using check_released[OF assms(1), of E now result] assms(2) by simp
  then show ?thesis using assms(3) by (auto simp: begin_external_check_def Let_def)
qed

theorem check_slot_is_released_witness:
  "\<exists>request u. begin_external_check (snd (finish_external_check list_rope 0 \<lparr>ct_generation = 0, ct_sequence = 1,
     ct_revision = 0, ct_saves = 0, ct_path = []\<rparr> \<lparr>res_disk = DiskMissing, res_local = None\<rparr> dirty_session)) =
     (RunCheck request, u)"
proof -
  let ?ticket = "\<lparr>ct_generation = 0, ct_sequence = 1, ct_revision = 0, ct_saves = 0, ct_path = []\<rparr>"
    and ?result = "\<lparr>res_disk = DiskMissing, res_local = None\<rparr>"
  obtain outcome t where f: "finish_external_check list_rope 0 ?ticket ?result dirty_session = (outcome, t)"
    by fastforce
  have "file_path (ds_file t) = Some [Normal [120]]"
    using f sample_session_simps(4) by (auto simp: finish_external_check_def dirty_session_def Let_def)
  then show ?thesis
    using check_slot_is_released[OF _ f] f by (auto simp: dirty_session_def)
qed

text \<open>What a check accepts as the disk's version is one consistent read: the file
  existed before the read, and the stamp of the handle that was read is the path's
  stamp after it.  At most nine calls are made, however often other programs write.\<close>

theorem observed_version_is_consistent:
  "snd (observe_disk E sv p t) \<le> t + 9 \<and>
   (\<forall>seen. fst (observe_disk E sv p t) = DiskPresent seen \<longrightarrow>
     consistent_read E sv p (snd (observe_disk E sv p t) - 3) seen)"
  using observe_loop_calls[of E sv p observe_attempts t]
    observe_loop_present[of E sv p observe_attempts t _ "snd (observe_disk E sv p t)"]
  by (auto simp: observe_disk_def observe_attempts_def prod_eq_iff)

theorem observed_version_is_consistent_witness:
  "consistent_read list_rope changed_disk [] 0 (foreign_version\<lparr>of_document := from_text list_rope [97],
     of_stamp := Some \<lparr>stamp_len = 1, stamp_modified = None\<rparr>, of_canonical := Some [Normal [120]]\<rparr>)"
proof -
  let ?seen = "foreign_version\<lparr>of_document := from_text list_rope [97],
     of_stamp := Some \<lparr>stamp_len = 1, stamp_modified = None\<rparr>, of_canonical := Some [Normal [120]]\<rparr>"
  have "observe_disk list_rope changed_disk [] 0 = (DiskPresent ?seen, 3)"
    by (simp add: observe_disk_def observe_attempts_def numeral_3_eq_3 changed_disk_def sample_file_def sample_print_def
        foreign_version_def identity_new_def)
  then show ?thesis
    using observed_version_is_consistent[of list_rope changed_disk "[]" 0] by simp
qed

text \<open>A fingerprint is a function of the saved text alone, however the rope chunks
  it, and it tells apart any two texts whose bytes differ in exactly one place or in
  their number.\<close>

theorem fingerprint_detects_small_changes:
  assumes "text_segments E"
  shows "fingerprint_of_document E d = fingerprint_of_bytes (as_bytes (full_text E d)) \<and>
    (x < 256 \<and> y < 256 \<and> x \<noteq> y \<longrightarrow> fingerprint_of_bytes (xs @ x # zs) \<noteq> fingerprint_of_bytes (xs @ y # zs)) \<and>
    (length us < u64_bound \<and> length vs < u64_bound \<and> length us \<noteq> length vs \<longrightarrow>
      fingerprint_of_bytes us \<noteq> fingerprint_of_bytes vs)"
  using ropey.fingerprint_of_document_text[OF text_segments.axioms(1)[OF assms]] fingerprint_one_byte
    fingerprint_length by metis

theorem fingerprint_detects_small_changes_witness:
  "fingerprint_of_document list_rope (from_text list_rope [97]) \<noteq> fingerprint_of_document list_rope (from_text list_rope [98])"
  using fingerprint_detects_small_changes[OF list_rope.text_segments_axioms, of "from_text list_rope [97]" 97 98 "[]" "[]"]
    fingerprint_detects_small_changes[OF list_rope.text_segments_axioms, of "from_text list_rope [98]"]
  by (simp add: full_text_from_text encode_char_def)

end
