(* ===== verification/Session_Set_Claims.thy ===== *)
theory Session_Set_Claims
  imports Session_Claims
begin

text \<open>
  The properties of the set of open documents: it always has an active session, no
  operation loses unsaved text, and a folder rename moves exactly the documents
  under the folder.
\<close>

definition sample_set :: "str session_set" where
  "sample_set = with_loaded list_rope sample_file"

lemma sample_set_eq: "sample_set = \<lparr>ss_sessions = [sample_session], ss_active = 0, ss_next_id = 1\<rparr>"
  by (simp add: sample_set_def with_loaded_def sample_session_def)

lemma sample_set_inv: "set_inv list_rope sample_set"
  using list_rope.set_inv_single[OF sample_session_inv, of 1] by (simp add: sample_set_eq)

lemma sample_file_buffer: "buffer_inv list_rope (lf_document sample_file)"
  by (simp add: sample_file_def from_text_inv)

text \<open>C18: The set is well formed forever: ids are distinct, the active id belongs to an
  open session (so \<open>active()\<close> never panics), and opening, closing, activating and
  routing file events keep that and every session's own invariant, while fewer than
  \<open>2 ^ 64\<close> ids have been handed out.\<close>

theorem session_set_stays_well_formed:
  assumes "text_segments E" and "set_inv E ss" and "ss_next_id ss + 1 \<noteq> 0" and "buffer_inv E (lf_document loaded)"
  shows "(\<exists>s \<in> set (ss_sessions ss). active_session ss = Ok s \<and> ds_id s = ss_active ss) \<and>
    set_inv E (snd (activate i ss)) \<and> set_inv E (snd (apply_open E into loaded ss)) \<and>
    set_inv E (snd (open_untitled E text label ss)) \<and>
    (\<exists>decision. fst (close_session E i label ss) = Ok decision) \<and> set_inv E (snd (close_session E i label ss)) \<and>
    set_inv E (snd (set_apply_file_event event ss)) \<and> set_inv E (snd (delete_folder folder ss)) \<and>
    set_inv E (snd (rename_folder old new ss)) \<and>
    (event_ok E change \<longrightarrow> set_inv E (modify_session i (handle E change) ss))"
proof -
  note inv = text_segments.session_event_inv[OF assms(1)]
  have routed: "set_inv E (snd (route_to_all f ss))"
    if "\<And>s. snd (f s) = handle E ev s" "event_ok E ev" for f ev
    by (rule route_to_all_inv[OF assms(2)]) (simp_all add: that ds_id_handle inv)
  have "set_inv E (snd (activate i ss))"
    using assms(2) get_session_None[of i ss] by (auto simp: activate_def set_inv_def)
  moreover have "set_inv E (snd (set_apply_file_event event ss))"
    unfolding set_apply_file_event_def by (rule routed[of _ "HandleFileEvent event"]) simp_all
  moreover have "set_inv E (snd (delete_folder folder ss))"
    unfolding delete_folder_def by (rule routed[of _ "FolderDeleted folder"]) simp_all
  moreover have "set_inv E (snd (rename_folder old new ss))"
    unfolding rename_folder_def by (rule routed[of _ "FolderRenamed old new"]) simp_all
  moreover have "event_ok E change \<longrightarrow> set_inv E (modify_session i (handle E change) ss)"
    by (intro impI modify_session_inv[OF assms(2)]) (simp_all add: ds_id_handle inv)
  ultimately show ?thesis
    using active_session_Ok[OF assms(2)] text_segments.apply_open_inv[OF assms(1-4)]
      text_segments.open_untitled_inv[OF assms(1-3)] text_segments.close_session_inv[OF assms(1-3)]
    by blast
qed

theorem session_set_stays_well_formed_witness:
  "set_inv list_rope (snd (close_session list_rope 0 [120] sample_set)) \<and>
   (\<exists>s \<in> set (ss_sessions sample_set). active_session sample_set = Ok s)"
  using session_set_stays_well_formed[OF list_rope.text_segments_axioms sample_set_inv _ sample_file_buffer, of 0]
  by (auto simp: sample_set_eq)

text \<open>C19: Closing never drops unsaved text.  Closing a dirty session is refused and
  changes nothing; closing a clean one removes exactly that session, and when it
  was the last one an empty untitled document takes its place.\<close>

theorem closing_keeps_unsaved_text:
  assumes "set_inv E ss" and "get_session i ss = Some s"
  shows "if is_dirty s then close_session E i label ss = (Ok RejectUnsaved, ss)
    else \<exists>ss'. close_session E i label ss = (Ok Close, ss') \<and>
      (if length (ss_sessions ss) = 1
       then ss_sessions ss' = [session_untitled E (ss_next_id ss) [] label]
       else ss_sessions ss' = filter (\<lambda>s. ds_id s \<noteq> i) (ss_sessions ss) \<and> ss_sessions ss' \<noteq> [] \<and>
         (ss_active ss \<noteq> i \<longrightarrow> ss_active ss' = ss_active ss))"
proof (cases "is_dirty s")
  case True
  then show ?thesis using assms(2) by (simp add: close_session_def close_decision_def)
next
  case False
  show ?thesis
  proof (cases "length (ss_sessions ss) = 1")
    case True
    have "close_session E i label ss = (Ok Close,
      \<lparr>ss_sessions = [session_untitled E (ss_next_id ss) [] label], ss_active = ss_next_id ss,
       ss_next_id = ss_next_id ss + 1\<rparr>)"
      by (rule close_last[OF assms(2) False True])
    then show ?thesis using False True by simp
  next
    case many: False
    obtain active where c: "close_session E i label ss = (Ok Close,
        ss\<lparr>ss_sessions := filter (\<lambda>s. ds_id s \<noteq> i) (ss_sessions ss), ss_active := active\<rparr>)"
      "set_inv E (ss\<lparr>ss_sessions := filter (\<lambda>s. ds_id s \<noteq> i) (ss_sessions ss), ss_active := active\<rparr>)"
      "ss_active ss \<noteq> i \<longrightarrow> active = ss_active ss"
      using close_one_of_many[OF assms False many] by blast
    then have "filter (\<lambda>s. ds_id s \<noteq> i) (ss_sessions ss) \<noteq> []" by (auto simp: set_inv_def filter_empty_conv)
    then show ?thesis using c(1,3) False many by simp
  qed
qed

theorem closing_keeps_unsaved_text_witness:
  "\<exists>ss. close_session list_rope 0 [] sample_set = (Ok Close, ss) \<and> ss_sessions ss = [session_untitled list_rope 1 [] []]"
proof -
  have "get_session 0 sample_set = Some sample_session" by (simp add: sample_set_eq get_session_def)
  from closing_keeps_unsaved_text[OF sample_set_inv this, of "[]"] show ?thesis by (auto simp: sample_set_eq)
qed



text \<open>A folder rename moves exactly the documents under the folder: every session
  whose file lies under \<open>old\<close> is now at the same place under \<open>new\<close> (same text, stamp and
  baseline), every other session is untouched, and exactly the moved ones are
  reported.\<close>

theorem folder_rename_moves_documents:
  assumes "old \<noteq> []" and "\<forall>s. old \<noteq> [PathPrefix s]" and "new \<noteq> []"
    and "\<forall>s \<in> set (ss_sessions ss). pred_option path_ok (file_path (ds_file s))"
  shows "rename_folder old new ss =
    (map (\<lambda>s. (ds_id s, EventRenamed)) (filter (is_under_folder old) (ss_sessions ss)),
     ss\<lparr>ss_sessions := map (after_rename old new) (ss_sessions ss)\<rparr>) \<and>
    (\<forall>s p rel. file_path (ds_file s) = Some (old @ rel) \<longrightarrow>
      file_path (ds_file (after_rename old new s)) = Some (new @ rel)) \<and>
    (\<forall>s. ds_editor (after_rename old new s) = ds_editor s \<and>
      fs_baseline (ds_file (after_rename old new s)) = fs_baseline (ds_file s) \<and>
      fs_stamp (ds_file (after_rename old new s)) = fs_stamp (ds_file s) \<and>
      (\<not> is_under_folder old s \<longrightarrow> after_rename old new s = s))"
  using rename_folder_eq[OF assms(1-3), of ss] assms(4) after_rename_facts[where old = old and new = new] by auto

theorem folder_rename_moves_documents_witness:
  "map (\<lambda>s. file_path (ds_file s)) (ss_sessions (snd (rename_folder [Normal [120]] [Normal [121], Normal [122]] sample_set))) =
     [Some [Normal [121], Normal [122]]]"
proof -
  have "\<forall>s \<in> set (ss_sessions sample_set). pred_option path_ok (file_path (ds_file s))"
    by (simp add: sample_set_eq path_ok_def)
  note moved = folder_rename_moves_documents[OF _ _ _ this, of "[Normal [120]]" "[Normal [121], Normal [122]]", simplified]
  have "file_path (ds_file (after_rename [Normal [120]] [Normal [121], Normal [122]] sample_session)) =
      Some [Normal [121], Normal [122]]"
    using moved[THEN conjunct2, THEN conjunct1, rule_format, of sample_session "[]"] by simp
  then show ?thesis using moved[THEN conjunct1] by (simp add: sample_set_eq)
qed

end
