(* ===== verification/Text_Ops.thy ===== *)
theory Text_Ops
  imports Utf8_Text
begin

text \<open>
  The \<open>str\<close> and \<open>char\<close> methods of Rust's standard library that the network crate
  parses and prints with: ASCII classes, trimming, splitting, numbers in a radix,
  UTF-8 decoding.  Each is an executable function; the facts below are what the
  round trips of addresses, lists and URLs rest on.
\<close>

section \<open>Literals and classes\<close>

definition lit :: "string \<Rightarrow> str" where
  "lit s = map of_char s"

lemma lit_inj [simp]: "lit s = lit t \<longleftrightarrow> s = t"
  unfolding lit_def by (rule inj_map_eq_map) (auto intro: injI)

definition is_ascii_digit :: "uchar \<Rightarrow> bool" where
  "is_ascii_digit c \<longleftrightarrow> 48 \<le> c \<and> c \<le> 57"

definition is_ascii_alphanumeric :: "uchar \<Rightarrow> bool" where
  "is_ascii_alphanumeric c \<longleftrightarrow> is_ascii_digit c \<or> (65 \<le> c \<and> c \<le> 90) \<or> (97 \<le> c \<and> c \<le> 122)"

definition ascii_lower :: "uchar \<Rightarrow> uchar" where
  "ascii_lower c = (if 65 \<le> c \<and> c \<le> 90 then c + 32 else c)"

definition to_ascii_lowercase :: "str \<Rightarrow> str" where
  "to_ascii_lowercase = map ascii_lower"

definition eq_ignore_ascii_case :: "str \<Rightarrow> str \<Rightarrow> bool" where
  "eq_ignore_ascii_case s t \<longleftrightarrow> to_ascii_lowercase s = to_ascii_lowercase t"

text \<open>\<open>char::is_whitespace\<close> is Unicode's \<open>White_Space\<close>, \<open>char::is_control\<close> is the category Cc.\<close>

definition is_whitespace :: "uchar \<Rightarrow> bool" where
  "is_whitespace c \<longleftrightarrow> (9 \<le> c \<and> c \<le> 13) \<or> c = 32 \<or> c = 133 \<or> c = 160 \<or> c = 5760 \<or>
     (8192 \<le> c \<and> c \<le> 8202) \<or> c = 8232 \<or> c = 8233 \<or> c = 8239 \<or> c = 8287 \<or> c = 12288"

definition is_control :: "uchar \<Rightarrow> bool" where
  "is_control c \<longleftrightarrow> c < 32 \<or> (127 \<le> c \<and> c < 160)"

text \<open>A \<open>char\<close> is a Unicode scalar value.\<close>

definition is_scalar :: "uchar \<Rightarrow> bool" where
  "is_scalar c \<longleftrightarrow> c < 1114112 \<and> \<not> (55296 \<le> c \<and> c < 57344)"

definition is_text :: "str \<Rightarrow> bool" where
  "is_text s \<longleftrightarrow> (\<forall>c \<in> set s. is_scalar c)"

lemma to_ascii_lowercase_simps [simp]:
  "to_ascii_lowercase [] = []" "to_ascii_lowercase (c # s) = ascii_lower c # to_ascii_lowercase s"
  "to_ascii_lowercase (s @ t) = to_ascii_lowercase s @ to_ascii_lowercase t"
  by (simp_all add: to_ascii_lowercase_def)

lemma ascii_lower_idem [simp]: "ascii_lower (ascii_lower c) = ascii_lower c"
  by (simp add: ascii_lower_def)

lemma to_ascii_lowercase_idem [simp]: "to_ascii_lowercase (to_ascii_lowercase s) = to_ascii_lowercase s"
  by (induction s) auto

lemma is_text_simps [simp]:
  "is_text []" "is_text (c # s) \<longleftrightarrow> is_scalar c \<and> is_text s" "is_text (s @ t) \<longleftrightarrow> is_text s \<and> is_text t"
  by (auto simp: is_text_def)

lemma ascii_is_scalar: "c < 128 \<Longrightarrow> is_scalar c"
  by (simp add: is_scalar_def)

section \<open>Trimming and affixes\<close>

definition trim :: "str \<Rightarrow> str" where
  "trim s = rev (dropWhile is_whitespace (rev (dropWhile is_whitespace s)))"

definition strip_prefix_char :: "uchar \<Rightarrow> str \<Rightarrow> str option" where
  "strip_prefix_char c s = (case s of [] \<Rightarrow> None | d # r \<Rightarrow> if d = c then Some r else None)"

definition strip_suffix_char :: "uchar \<Rightarrow> str \<Rightarrow> str option" where
  "strip_suffix_char c s = (if s \<noteq> [] \<and> last s = c then Some (butlast s) else None)"

definition ends_with :: "str \<Rightarrow> str \<Rightarrow> bool" where
  "ends_with s t \<longleftrightarrow> length t \<le> length s \<and> drop (length s - length t) s = t"

lemma strip_prefix_simps [simp]:
  "strip_prefix_char c [] = None" "strip_prefix_char c (d # r) = (if d = c then Some r else None)"
  by (simp_all add: strip_prefix_char_def)

lemma strip_suffix_simps [simp]:
  "strip_suffix_char c [] = None" "strip_suffix_char c (s @ [d]) = (if d = c then Some s else None)"
  by (simp_all add: strip_suffix_char_def)

lemma strip_suffix_None [simp]: "c \<notin> set s \<Longrightarrow> strip_suffix_char c s = None"
  by (auto simp: strip_suffix_char_def dest: last_in_set)

lemma strip_prefix_None [simp]: "c \<notin> set s \<Longrightarrow> strip_prefix_char c s = None"
  by (cases s) auto

lemma ends_with_append [simp]: "ends_with (u @ t) t"
  by (simp add: ends_with_def)

lemma ends_with_iff: "ends_with s t \<longleftrightarrow> (\<exists>u. s = u @ t)"
proof
  assume "ends_with s t"
  then have "s = take (length s - length t) s @ t"
    by (metis append_take_drop_id ends_with_def)
  then show "\<exists>u. s = u @ t" ..
qed auto

lemma dropWhile_none: "(\<forall>c \<in> set s. \<not> P c) \<Longrightarrow> dropWhile P s = s"
  by (cases s) auto

lemma trim_id: "(\<forall>c \<in> set s. \<not> is_whitespace c) \<Longrightarrow> trim s = s"
  by (simp add: trim_def dropWhile_none)

lemma set_trim: "c \<in> set (trim s) \<Longrightarrow> c \<in> set s"
  unfolding trim_def by (metis set_dropWhileD set_rev)

lemma trim_append_ws:
  assumes "\<forall>c \<in> set s. \<not> is_whitespace c" and "\<forall>c \<in> set u. is_whitespace c" and "\<forall>c \<in> set v. is_whitespace c"
  shows "trim (u @ s @ v) = s"
proof -
  have "dropWhile is_whitespace (u @ s @ v) = dropWhile is_whitespace (s @ v)"
    using assms(2) by (simp add: dropWhile_append2)
  also have "dropWhile is_whitespace (s @ v) = (if s = [] then [] else s @ v)"
    using assms(1,3) by (cases s) auto
  finally show ?thesis
    using assms(1,3) by (auto simp: trim_def dropWhile_append dropWhile_none)
qed

section \<open>Splitting\<close>

text \<open>\<open>split(c)\<close>: the pieces between the separators, at least one.\<close>

fun split_on :: "uchar \<Rightarrow> str \<Rightarrow> str list" where
  "split_on c [] = [[]]"
| "split_on c (d # s) =
     (if d = c then [] # split_on c s
      else case split_on c s of p # ps \<Rightarrow> (d # p) # ps | [] \<Rightarrow> [[d]])"

fun join_with :: "uchar \<Rightarrow> str list \<Rightarrow> str" where
  "join_with c [] = []"
| "join_with c [p] = p"
| "join_with c (p # q # ps) = p @ c # join_with c (q # ps)"

lemma split_on_nonempty [simp]: "split_on c s \<noteq> []"
  by (induction s) (auto split: list.splits)

lemma split_on_whole: "c \<notin> set s \<Longrightarrow> split_on c s = [s]"
  by (induction s) auto

lemma split_on_append: "c \<notin> set p \<Longrightarrow> split_on c (p @ c # s) = p # split_on c s"
  by (induction p) auto

lemma split_on_join: "ps \<noteq> [] \<Longrightarrow> \<forall>p \<in> set ps. c \<notin> set p \<Longrightarrow> split_on c (join_with c ps) = ps"
  by (induction c ps rule: join_with.induct) (auto simp: split_on_whole split_on_append)

lemma join_split_on: "join_with c (split_on c s) = s"
proof (induction s)
  case (Cons d s)
  obtain p ps where s: "split_on c s = p # ps" by (cases "split_on c s") auto
  then show ?case using Cons by (cases ps) auto
qed simp

lemma split_on_no_sep: "p \<in> set (split_on c s) \<Longrightarrow> c \<notin> set p"
proof (induction s arbitrary: p)
  case (Cons d s)
  obtain q qs where s: "split_on c s = q # qs" by (cases "split_on c s") auto
  then show ?case using Cons by (auto split: if_splits)
qed simp

lemma split_on_subset: "p \<in> set (split_on c s) \<Longrightarrow> set p \<subseteq> set s"
proof (induction s arbitrary: p)
  case (Cons d s)
  obtain q qs where s: "split_on c s = q # qs" by (cases "split_on c s") auto
  then show ?case using Cons by (fastforce split: if_splits)
qed simp

lemma set_join_with: "set (join_with c ps) \<subseteq> insert c (\<Union>p \<in> set ps. set p)"
  by (induction c ps rule: join_with.induct) auto

lemma split_on_sep: "split_on c (p @ c # s) = split_on c p @ split_on c s"
proof (induction p)
  case (Cons d p)
  obtain r rs where "split_on c p = r # rs" by (cases "split_on c p") auto
  then show ?case using Cons by auto
qed simp

lemma split_on_joined: "ps \<noteq> [] \<Longrightarrow> split_on c (join_with c ps) = concat (map (split_on c) ps)"
  by (induction c ps rule: join_with.induct) (auto simp: split_on_sep)

lemma join_with_append:
  "ps \<noteq> [] \<Longrightarrow> qs \<noteq> [] \<Longrightarrow> join_with c (ps @ qs) = join_with c ps @ c # join_with c qs"
proof (induction c ps rule: join_with.induct)
  case (2 c p)
  then show ?case by (cases qs) auto
qed auto

lemma set_split_on: "set s \<subseteq> insert c (\<Union>p \<in> set (split_on c s). set p)"
  using set_join_with[of c "split_on c s"] by (simp add: join_split_on)

text \<open>\<open>split_once\<close> with a non-empty pattern, \<open>contains\<close> on a pattern, \<open>rsplit_once\<close> with a char.\<close>

fun split_once :: "str \<Rightarrow> str \<Rightarrow> (str \<times> str) option" where
  "split_once pat [] = None"
| "split_once pat (c # s) =
     (if take (length pat) (c # s) = pat then Some ([], drop (length pat) (c # s))
      else map_option (\<lambda>(a, b). (c # a, b)) (split_once pat s))"

definition contains_str :: "str \<Rightarrow> str \<Rightarrow> bool" where
  "contains_str pat s \<longleftrightarrow> split_once pat s \<noteq> None"

definition rsplit_once :: "uchar \<Rightarrow> str \<Rightarrow> (str \<times> str) option" where
  "rsplit_once c s =
     (if c \<in> set s
      then Some (rev (tl (dropWhile (\<lambda>d. d \<noteq> c) (rev s))), rev (takeWhile (\<lambda>d. d \<noteq> c) (rev s)))
      else None)"

lemma split_once_char: "c \<notin> set a \<Longrightarrow> split_once [c] (a @ c # b) = Some (a, b)"
  by (induction a) auto

lemma split_once_none: "hd pat \<notin> set s \<Longrightarrow> pat \<noteq> [] \<Longrightarrow> split_once pat s = None"
proof (induction s)
  case (Cons c s)
  have "take (length pat) (c # s) \<noteq> pat"
    using Cons.prems by (cases pat) auto
  then show ?case using Cons by simp
qed simp

lemma split_once_first:
  "hd pat \<notin> set a \<Longrightarrow> pat \<noteq> [] \<Longrightarrow> split_once pat (a @ pat @ b) = Some (a, b)"
proof (induction a)
  case Nil
  then show ?case by (cases pat) auto
next
  case (Cons c a)
  then have "take (length pat) ((c # a) @ pat @ b) \<noteq> pat" by (cases pat) auto
  then show ?case using Cons by simp
qed

lemma split_once_Some: "split_once pat s = Some (a, b) \<Longrightarrow> pat \<noteq> [] \<Longrightarrow> s = a @ pat @ b"
proof (induction s arbitrary: a)
  case (Cons c s)
  then show ?case
    by (auto split: if_splits) (metis append_take_drop_id)
qed simp

lemma rsplit_once_last: "c \<notin> set b \<Longrightarrow> rsplit_once c (a @ c # b) = Some (a, b)"
  by (auto simp: rsplit_once_def dropWhile_append takeWhile_append)

lemma rsplit_once_None: "rsplit_once c s = None \<longleftrightarrow> c \<notin> set s"
  by (simp add: rsplit_once_def)

lemma rsplit_once_Some: "rsplit_once c s = Some (a, b) \<Longrightarrow> s = a @ c # b \<and> c \<notin> set b"
proof -
  assume s: "rsplit_once c s = Some (a, b)"
  then have c: "c \<in> set s" by (auto simp: rsplit_once_def split: if_splits)
  from split_list_last[OF c] obtain a' b' where "s = a' @ c # b'" "c \<notin> set b'" by blast
  with s show ?thesis by (simp add: rsplit_once_last)
qed

section \<open>Lines\<close>

text \<open>\<open>str::lines\<close>: pieces between line feeds, without a final empty one and without a trailing carriage return.\<close>

definition text_lines :: "str \<Rightarrow> str list" where
  "text_lines s =
     (let ps = split_on 10 s; ps = (if last ps = [] then butlast ps else ps)
      in map (\<lambda>l. case strip_suffix_char 13 l of Some l' \<Rightarrow> l' | None \<Rightarrow> l) ps)"

definition unlines :: "str list \<Rightarrow> str" where
  "unlines ls = concat (map (\<lambda>l. l @ [10]) ls)"

lemma split_on_unlines:
  "\<forall>l \<in> set ls. 10 \<notin> set l \<Longrightarrow> split_on 10 (unlines ls) = ls @ [[]]"
  by (induction ls) (auto simp: unlines_def split_on_append)

lemma text_lines_unlines:
  assumes "\<forall>l \<in> set ls. 10 \<notin> set l \<and> 13 \<notin> set l"
  shows "text_lines (unlines ls) = ls"
proof -
  have "map (\<lambda>l. case strip_suffix_char 13 l of Some l' \<Rightarrow> l' | None \<Rightarrow> l) ls = ls"
    using assms by (induction ls) auto
  then show ?thesis using assms by (simp add: text_lines_def split_on_unlines Let_def)
qed

end
