(* ===== verification/Text_Codecs.thy ===== *)
theory Text_Codecs
  imports Text_Ops
begin

text \<open>
  Printing and parsing.  The contract of a printer and its parser is a locale,
  with what follows from it for every pair; numerals in a radix and the UTF-8
  decoder of \<open>String::from_utf8\<close> are the first pairs that meet it.
\<close>

section \<open>The contract\<close>

locale text_codec =
  fixes show_it :: "'a \<Rightarrow> 'b list" and parse_it :: "'b list \<Rightarrow> 'a option" and ok :: "'a \<Rightarrow> bool"
  assumes parse_show: "ok x \<Longrightarrow> parse_it (show_it x) = Some x"
begin

lemma show_inj: "ok x \<Longrightarrow> ok y \<Longrightarrow> show_it x = show_it y \<longleftrightarrow> x = y"
  by (metis option.inject parse_show)

end

text \<open>A parser that yields only printable values: printing what was parsed is a canonical spelling.\<close>

locale canonical_codec = text_codec +
  assumes parse_ok: "parse_it s = Some x \<Longrightarrow> ok x"
begin

lemma parse_canonical: "parse_it s = Some x \<Longrightarrow> parse_it (show_it x) = Some x"
  using parse_ok parse_show by blast

lemma same_value_iff:
  "parse_it s = Some x \<Longrightarrow> parse_it t = Some y \<Longrightarrow> x = y \<longleftrightarrow> show_it x = show_it y"
  using parse_ok show_inj by blast

end

section \<open>Numerals\<close>

text \<open>\<open>char::to_digit\<close>, and the lower-case digit of a value.\<close>

definition to_digit :: "nat \<Rightarrow> uchar \<Rightarrow> nat option" where
  "to_digit radix c =
     (let v = (if is_ascii_digit c then c - 48
               else if 97 \<le> c \<and> c \<le> 122 then c - 87
               else if 65 \<le> c \<and> c \<le> 90 then c - 55 else radix)
      in if v < radix then Some v else None)"

definition is_digit :: "nat \<Rightarrow> uchar \<Rightarrow> bool" where
  "is_digit r c \<longleftrightarrow> to_digit r c \<noteq> None"

definition digit_char :: "nat \<Rightarrow> uchar" where
  "digit_char v = (if v < 10 then 48 + v else 87 + v)"

definition upper_digit_char :: "nat \<Rightarrow> uchar" where
  "upper_digit_char v = (if v < 10 then 48 + v else 55 + v)"

function show_radix :: "nat \<Rightarrow> nat \<Rightarrow> str" where
  "show_radix r n = (if r < 2 \<or> n < r then [digit_char n] else show_radix r (n div r) @ [digit_char (n mod r)])"
  by pat_completeness auto

termination show_radix
  by (relation "measure snd") auto

declare show_radix.simps [simp del]

definition digits_value :: "nat \<Rightarrow> str \<Rightarrow> nat" where
  "digits_value r = foldl (\<lambda>a c. a * r + the (to_digit r c)) 0"

lemma to_digit_char [simp]: "v < r \<Longrightarrow> r \<le> 36 \<Longrightarrow> to_digit r (digit_char v) = Some v"
  by (auto simp: to_digit_def digit_char_def is_ascii_digit_def Let_def)

lemma to_digit_upper [simp]: "v < r \<Longrightarrow> r \<le> 36 \<Longrightarrow> to_digit r (upper_digit_char v) = Some v"
  by (auto simp: to_digit_def upper_digit_char_def is_ascii_digit_def Let_def)

lemma to_digit_lt: "to_digit r c = Some v \<Longrightarrow> v < r"
  by (auto simp: to_digit_def Let_def split: if_splits)

lemma is_digit_10: "is_digit 10 c \<longleftrightarrow> is_ascii_digit c"
  by (auto simp: is_digit_def to_digit_def Let_def is_ascii_digit_def split: if_splits)

lemma digits_value_append:
  "digits_value r (s @ [c]) = digits_value r s * r + the (to_digit r c)"
  by (simp add: digits_value_def)

lemma show_radix_nonempty [simp]: "show_radix r n \<noteq> []"
  by (subst show_radix.simps) simp

lemma show_radix_digits: "2 \<le> r \<Longrightarrow> r \<le> 36 \<Longrightarrow> c \<in> set (show_radix r n) \<Longrightarrow> \<exists>v < r. c = digit_char v"
proof (induction r n rule: show_radix.induct)
  case (1 r n)
  show ?case
  proof (cases "n < r")
    case False
    then have c: "c \<in> set (show_radix r (n div r)) \<or> c = digit_char (n mod r)"
      using 1(4) by (subst (asm) show_radix.simps) (use 1(2) in auto)
    have "n mod r < r" using 1(2) by simp
    then show ?thesis using c 1(1-3) False by (cases "c = digit_char (n mod r)") (blast, simp)
  qed (use 1 in \<open>auto simp: show_radix.simps[of r n]\<close>)
qed

lemma show_radix_is_digit: "2 \<le> r \<Longrightarrow> r \<le> 36 \<Longrightarrow> c \<in> set (show_radix r n) \<Longrightarrow> is_digit r c"
  using show_radix_digits by (fastforce simp: is_digit_def)

lemma digits_value_show: "2 \<le> r \<Longrightarrow> r \<le> 36 \<Longrightarrow> digits_value r (show_radix r n) = n"
proof (induction r n rule: show_radix.induct)
  case (1 r n)
  show ?case
  proof (cases "n < r")
    case True
    then show ?thesis using 1 by (simp add: show_radix.simps[of r n] digits_value_def)
  next
    case False
    have "n mod r < r" using 1(2) by simp
    then show ?thesis
      using 1 False by (subst show_radix.simps) (simp add: digits_value_append)
  qed
qed

lemma length_show_radix: "2 \<le> r \<Longrightarrow> n < r ^ k \<Longrightarrow> 0 < k \<Longrightarrow> length (show_radix r n) \<le> k"
proof (induction r n arbitrary: k rule: show_radix.induct)
  case (1 r n)
  show ?case
  proof (cases "n < r")
    case True
    then show ?thesis using 1 by (simp add: show_radix.simps[of r n])
  next
    case False
    obtain k' where k: "k = Suc k'" using 1(4) by (cases k) auto
    have "k' \<noteq> 0" using False 1(3) k by (cases k') auto
    have "n < r * r ^ k'" using 1(3) k by simp
    then have "n div r < r ^ k'" using 1(2) by (simp add: div_less_iff_less_mult mult.commute)
    then have "length (show_radix r (n div r)) \<le> k'"
      using 1 False \<open>k' \<noteq> 0\<close> by auto
    then show ?thesis using k False 1(2) by (subst show_radix.simps) simp
  qed
qed

lemma hd_show_radix: "2 \<le> r \<Longrightarrow> r \<le> 36 \<Longrightarrow> hd (show_radix r n) = 48 \<longleftrightarrow> n = 0"
proof (induction r n rule: show_radix.induct)
  case (1 r n)
  show ?case
  proof (cases "n < r")
    case True
    then show ?thesis using 1 by (auto simp: show_radix.simps[of r n] digit_char_def)
  next
    case False
    then have "n div r \<noteq> 0" "n \<noteq> 0" using 1(2) by (auto simp: div_eq_0_iff)
    then show ?thesis
      using 1 False by (subst show_radix.simps) auto
  qed
qed

lemma show_radix_0 [simp]: "2 \<le> r \<Longrightarrow> show_radix r 0 = [48]"
  by (subst show_radix.simps) (simp add: digit_char_def)

section \<open>UTF-8\<close>

definition is_continuation :: "nat \<Rightarrow> bool" where
  "is_continuation b \<longleftrightarrow> 128 \<le> b \<and> b < 192"

text \<open>\<open>String::from_utf8\<close>: overlong forms, surrogates and values past the last scalar are rejected.\<close>

fun decode_utf8 :: "nat list \<Rightarrow> str option" where
  "decode_utf8 [] = Some []"
| "decode_utf8 (b # bs) =
     (if b < 128 then map_option ((#) b) (decode_utf8 bs)
      else if 194 \<le> b \<and> b < 224 then
        (case bs of
           b1 # r \<Rightarrow> if is_continuation b1
                     then map_option ((#) ((b - 192) * 64 + (b1 - 128))) (decode_utf8 r) else None
         | _ \<Rightarrow> None)
      else if 224 \<le> b \<and> b < 240 then
        (case bs of
           b1 # b2 # r \<Rightarrow>
             let c = (b - 224) * 4096 + (b1 - 128) * 64 + (b2 - 128) in
             if is_continuation b1 \<and> is_continuation b2 \<and> 2048 \<le> c \<and> is_scalar c
             then map_option ((#) c) (decode_utf8 r) else None
         | _ \<Rightarrow> None)
      else if 240 \<le> b \<and> b < 245 then
        (case bs of
           b1 # b2 # b3 # r \<Rightarrow>
             let c = (b - 240) * 262144 + (b1 - 128) * 4096 + (b2 - 128) * 64 + (b3 - 128) in
             if is_continuation b1 \<and> is_continuation b2 \<and> is_continuation b3 \<and> 65536 \<le> c \<and> is_scalar c
             then map_option ((#) c) (decode_utf8 r) else None
         | _ \<Rightarrow> None)
      else None)"

lemma decode_encode_char: "is_scalar c \<Longrightarrow> decode_utf8 (encode_char c @ bs) = map_option ((#) c) (decode_utf8 bs)"
proof -
  assume c: "is_scalar c"
  have d3: "c div 4096 * 4096 + c div 64 mod 64 * 64 + c mod 64 = c"
  proof -
    have "c div 4096 = c div 64 div 64" by (simp flip: div_mult2_eq)
    then show ?thesis using div_mult_mod_eq[of c 64] div_mult_mod_eq[of "c div 64" 64] by linarith
  qed
  have d4: "c div 262144 * 262144 + c div 4096 mod 64 * 4096 + c div 64 mod 64 * 64 + c mod 64 = c"
  proof -
    have "c div 262144 = c div 4096 div 64" by (simp flip: div_mult2_eq)
    then show ?thesis using d3 div_mult_mod_eq[of "c div 4096" 64] by linarith
  qed
  consider "c < 128" | "128 \<le> c" "c < 2048" | "2048 \<le> c" "c < 65536" | "65536 \<le> c" by linarith
  then show ?thesis
  proof cases
    case 2
    then have "194 \<le> 192 + c div 64" "192 + c div 64 < 224" by auto
    then show ?thesis
      using 2 by (simp add: encode_char_def is_continuation_def)
  next
    case 3
    then have "c div 4096 < 16" by auto
    then show ?thesis
      using 3 c d3 by (simp add: encode_char_def is_continuation_def Let_def)
  next
    case 4
    have "c < 1114112" using c by (simp add: is_scalar_def)
    then have "c div 262144 < 5" by auto
    then show ?thesis
      using 4 c d4 by (simp add: encode_char_def is_continuation_def Let_def)
  qed (simp add: encode_char_def)
qed

lemma decode_as_bytes: "is_text s \<Longrightarrow> decode_utf8 (as_bytes s) = Some s"
  by (induction s) (auto simp: decode_encode_char)

lemma decode_is_text: "decode_utf8 bs = Some s \<Longrightarrow> is_text s"
proof (induction bs arbitrary: s rule: decode_utf8.induct)
  case (2 b bs)
  then show ?case
    by (auto simp: Let_def is_scalar_def is_continuation_def split: if_splits list.splits)
qed simp

interpretation utf8: canonical_codec as_bytes decode_utf8 is_text
  by unfold_locales (rule decode_as_bytes decode_is_text, assumption)+

lemma show_radix_inj: "show_radix 10 p = show_radix 10 q \<longleftrightarrow> p = q"
proof -
  have "digits_value 10 (show_radix 10 n) = n" for n by (rule digits_value_show) auto
  then show ?thesis by metis
qed

end
