(* ===== verification/Host_Names.thy ===== *)
theory Host_Names
  imports Net_Addr
begin

text \<open>
  Hosts and bypass lists (\<open>crates/network/src/host.rs\<close>, \<open>bypass.rs\<close>).  The code
  tests ASCII bytes of a string; on chars that is the same test, since every byte
  of a longer UTF-8 sequence is above 127.
\<close>

section \<open>Hosts\<close>

datatype host = Dns str | Ipv4 ipv4 | Ipv6 ipv6

definition label_ok :: "str \<Rightarrow> bool" where
  "label_ok l \<longleftrightarrow>
     \<not> (l = [] \<or> str_len l > 63) \<and> \<not> (hd l = 45 \<or> last l = 45) \<and>
     (\<forall>b \<in> set l. is_ascii_alphanumeric b \<or> b = 45 \<or> b = 95)"

definition normalize_dns :: "str \<Rightarrow> str option" where
  "normalize_dns text =
     (let name = (case strip_suffix_char 46 text of Some n \<Rightarrow> n | None \<Rightarrow> text) in
      if name = [] \<or> str_len name > 253 then None
      else
        let lower = to_ascii_lowercase name in
        if list_all label_ok (split_on 46 lower) then Some lower else None)"

definition host_parse :: "str \<Rightarrow> bool \<Rightarrow> host option" where
  "host_parse text allow_bare_v6 =
     (case strip_prefix_char 91 text of
        Some inner \<Rightarrow>
          Option.bind (strip_suffix_char 93 inner) (\<lambda>inner. map_option Ipv6 (parse_ipv6 inner))
      | None \<Rightarrow>
          if 58 \<in> set text then
            if \<not> allow_bare_v6 then None else map_option Ipv6 (parse_ipv6 text)
          else if text \<noteq> [] \<and> list_all (\<lambda>b. is_ascii_digit b \<or> b = 46) text
          then map_option Ipv4 (parse_ipv4 text)
          else map_option Dns (normalize_dns text))"

definition is_loopback :: "host \<Rightarrow> bool" where
  "is_loopback h =
     (case h of
        Dns d \<Rightarrow> d = lit ''localhost''
      | Ipv4 (V4 a b c d) \<Rightarrow> a = 127
      | Ipv6 ip \<Rightarrow> ip = V6 0 0 0 0 0 0 0 1)"

definition host_show :: "host \<Rightarrow> str" where
  "host_show h =
     (case h of
        Dns d \<Rightarrow> d
      | Ipv4 ip \<Rightarrow> show_ipv4 ip
      | Ipv6 ip \<Rightarrow> 91 # show_ipv6 ip @ [93])"

section \<open>Bypass lists\<close>

datatype bypass_problem =
  Wildcard | Cidr | UrlForm | PortNotAllowed | Whitespace | BadBypassHost | InvalidAddress

datatype ip_addr = IpV4 ipv4 | IpV6 ipv6

datatype bypass_entry = Domain str | Ip ip_addr

record bypass_list =
  by_all :: bool
  by_entries :: "bypass_entry list"

definition bypass_default :: bypass_list where
  "bypass_default = \<lparr>by_all = False, by_entries = []\<rparr>"

definition parse_entry :: "str \<Rightarrow> (bypass_problem, bypass_entry) res" where
  "parse_entry item =
     (if 42 \<in> set item then Err Wildcard
      else if contains_str (lit ''://'') item \<or> (\<exists>c \<in> set item. c = 64 \<or> c = 63 \<or> c = 35) then Err UrlForm
      else if \<exists>c \<in> set item. is_whitespace c then Err Whitespace
      else if 47 \<in> set item then Err Cidr
      else case strip_prefix_char 91 item of
        Some inner \<Rightarrow>
          res_bind (ok_or PortNotAllowed (strip_suffix_char 93 inner)) (\<lambda>inner.
          ok_or InvalidAddress (map_option (\<lambda>ip. Ip (IpV6 ip)) (parse_ipv6 inner)))
      | None \<Rightarrow>
          if 58 \<in> set item then
            (case parse_ipv6 item of
               Some ip \<Rightarrow> Ok (Ip (IpV6 ip))
             | None \<Rightarrow> if count_list item 58 = 1 then Err PortNotAllowed else Err InvalidAddress)
          else if list_all (\<lambda>b. is_ascii_digit b \<or> b = 46) item then
            (case host_parse item False of
               Some (Ipv4 ip) \<Rightarrow> Ok (Ip (IpV4 ip))
             | _ \<Rightarrow> Err InvalidAddress)
          else
            let name = (case strip_prefix_char 46 item of Some n \<Rightarrow> n | None \<Rightarrow> item) in
            ok_or BadBypassHost (map_option Domain (normalize_dns name)))"

text \<open>The loop of \<open>BypassList::parse\<close> over the pieces between the commas.\<close>

fun parse_items :: "str list \<Rightarrow> bypass_list \<Rightarrow> (bypass_problem, bypass_list) res" where
  "parse_items [] l = Ok l"
| "parse_items (raw # rest) l =
     (let item = trim raw in
      if item = [] then parse_items rest l
      else if item = [42] then parse_items rest (l\<lparr>by_all := True\<rparr>)
      else res_bind (parse_entry item) (\<lambda>entry.
        parse_items rest
          (if entry \<in> set (by_entries l) then l else l\<lparr>by_entries := by_entries l @ [entry]\<rparr>)))"

definition bypass_parse :: "str \<Rightarrow> (bypass_problem, bypass_list) res" where
  "bypass_parse text = parse_items (split_on 44 text) bypass_default"

definition bypass_is_empty :: "bypass_list \<Rightarrow> bool" where
  "bypass_is_empty l \<longleftrightarrow> \<not> by_all l \<and> by_entries l = []"

fun entry_matches :: "bypass_entry \<Rightarrow> host \<Rightarrow> bool" where
  "entry_matches (Domain d) (Dns h) \<longleftrightarrow>
     h = d \<or> (length h > length d \<and> ends_with h d \<and> h ! (length h - length d - 1) = 46)"
| "entry_matches (Ip (IpV4 a)) (Ipv4 b) \<longleftrightarrow> a = b"
| "entry_matches (Ip (IpV6 a)) (Ipv6 b) \<longleftrightarrow> a = b"
| "entry_matches _ _ \<longleftrightarrow> False"

definition bypass_matches :: "bypass_list \<Rightarrow> host \<Rightarrow> bool" where
  "bypass_matches l h \<longleftrightarrow> by_all l \<or> list_ex (\<lambda>e. entry_matches e h) (by_entries l)"

fun entry_text :: "bypass_entry \<Rightarrow> str" where
  "entry_text (Domain d) = d"
| "entry_text (Ip (IpV4 ip)) = show_ipv4 ip"
| "entry_text (Ip (IpV6 ip)) = show_ipv6 ip"

definition to_env_value :: "bypass_list \<Rightarrow> str" where
  "to_env_value l = (if by_all l then [42] else join_with 44 (map entry_text (by_entries l)))"

definition bypass_to_text :: "bypass_list \<Rightarrow> str" where
  "bypass_to_text l = to_env_value l"

end
