(* ===== verification/Addr_Facts.thy ===== *)
theory Addr_Facts
  imports Net_Addr
begin

text \<open>
  What is printed of an IP address is read back: numerals stop at separators,
  a run of groups is read as a run of groups, and the compressed run of zeros is
  put back where it was.
\<close>

section \<open>Numbers\<close>

definition stops :: "nat \<Rightarrow> str \<Rightarrow> bool" where
  "stops r s \<longleftrightarrow> s = [] \<or> \<not> is_digit r (hd s)"

lemma stops_simps [simp]: "stops r []" "stops r (c # s) \<longleftrightarrow> \<not> is_digit r c"
  by (simp_all add: stops_def)

lemma is_digit_separators [simp]:
  "\<not> is_digit 10 46" "\<not> is_digit 10 58" "\<not> is_digit 16 58" "\<not> is_digit 16 46"
  by (simp_all add: is_digit_def to_digit_def is_ascii_digit_def Let_def)

lemma takeWhile_stops:
  assumes "\<forall>c \<in> set s. is_digit r c" and "stops r rest"
  shows "takeWhile (is_digit r) (s @ rest) = s"
  using assms by (cases rest) (auto simp: takeWhile_append)

lemma read_number_show:
  assumes "2 \<le> r" "r \<le> 36" "n < bound" "n < r ^ k" "0 < k" "stops r rest"
  shows "read_number r k bound z (show_radix r n @ rest) = Some (n, rest)"
proof -
  have t: "takeWhile (is_digit r) (show_radix r n @ rest) = show_radix r n"
    using assms show_radix_is_digit by (intro takeWhile_stops) auto
  have "length (show_radix r n) \<le> k" using length_show_radix assms by auto
  moreover have "\<not> (hd (show_radix r n) = 48 \<and> length (show_radix r n) > 1)"
    using hd_show_radix[of r n] assms(1,2) by auto
  ultimately show ?thesis
    using assms by (auto simp: read_number_def t digits_value_show Let_def)
qed

lemma read_number_stops: "stops r s \<Longrightarrow> read_number r k bound z s = None"
  by (cases s) (simp_all add: read_number_def)

section \<open>IPv4\<close>

lemma octet_bound: "unat (a :: 8 word) < 256" and group_bound: "unat (g :: 16 word) < 65536"
  using unsigned_less[of a] unsigned_less[of g] by simp_all

lemma read_octet_show:
  assumes "stops 10 rest"
  shows "read_octet i ((if i = 0 then [] else [46]) @ show_radix 10 (unat (a :: 8 word)) @ rest) = Some (a, rest)"
proof -
  have "read_number 10 3 256 False (show_radix 10 (unat a) @ rest) = Some (unat a, rest)"
    using assms octet_bound[of a] by (intro read_number_show) auto
  then show ?thesis
    by (simp add: read_octet_def read_separator_def)
qed

lemma read_ipv4_show: "stops 10 rest \<Longrightarrow> read_ipv4 (show_ipv4 a @ rest) = Some (a, rest)"
proof -
  assume r: "stops 10 rest"
  obtain w x y z where a: "a = V4 w x y z" by (cases a)
  have "stops 10 (46 # s)" for s by simp
  then show ?thesis
    using read_octet_show[of "46 # _" 0 w] read_octet_show[of "46 # _" 1 x]
      read_octet_show[of "46 # _" 2 y] read_octet_show[OF r, of 3 z]
    by (simp add: a read_ipv4_def)
qed

lemma str_len_ascii: "\<forall>c \<in> set s. c < 128 \<Longrightarrow> str_len s = length s"
  by (induction s) (auto simp: len_utf8_def)

definition addr_char :: "uchar \<Rightarrow> bool" where
  "addr_char c \<longleftrightarrow> is_ascii_alphanumeric c \<or> c = 46 \<or> c = 58"

lemma digit_addr_char: "is_digit r c \<Longrightarrow> r \<le> 36 \<Longrightarrow> addr_char c"
  by (auto simp: is_digit_def to_digit_def addr_char_def is_ascii_alphanumeric_def Let_def split: if_splits)

lemma show_radix_addr: "2 \<le> r \<Longrightarrow> r \<le> 36 \<Longrightarrow> c \<in> set (show_radix r n) \<Longrightarrow> addr_char c"
  using show_radix_is_digit digit_addr_char by blast

lemma addr_char_ascii: "addr_char c \<Longrightarrow> c < 128"
  by (auto simp: addr_char_def is_ascii_alphanumeric_def is_ascii_digit_def)

lemma show_ipv4_chars: "c \<in> set (show_ipv4 a) \<Longrightarrow> is_ascii_digit c \<or> c = 46"
  using show_radix_is_digit[of 10 c] is_digit_10[of c] by (cases a) auto

lemma show_ipv4_nonempty [simp]: "show_ipv4 a \<noteq> []"
  by (cases a) simp

lemma show_ipv4_length: "length (show_ipv4 a) \<le> 15"
proof (cases a)
  case (V4 w x y z)
  have l: "length (show_radix 10 (unat w)) \<le> 3" for w :: "8 word"
    using octet_bound[of w] by (intro length_show_radix) auto
  show ?thesis using l[of w] l[of x] l[of y] l[of z] V4 by simp
qed

lemma parse_show_ipv4: "parse_ipv4 (show_ipv4 a) = Some a"
proof -
  have "\<forall>c \<in> set (show_ipv4 a). c < 128"
    using show_ipv4_chars by (fastforce simp: is_ascii_digit_def)
  then have "str_len (show_ipv4 a) \<le> 15"
    using show_ipv4_length by (simp add: str_len_ascii)
  moreover have "read_ipv4 (show_ipv4 a) = Some (a, [])"
    using read_ipv4_show[of "[]" a] by simp
  ultimately show ?thesis by (simp add: parse_ipv4_def)
qed

interpretation ipv4_text: canonical_codec show_ipv4 parse_ipv4 "\<lambda>_. True"
  by unfold_locales (simp_all add: parse_show_ipv4)

section \<open>Groups\<close>

definition hex_group :: "16 word \<Rightarrow> str" where
  "hex_group g = show_radix 16 (unat g)"

lemma hex_group_chars: "c \<in> set (hex_group g) \<Longrightarrow> is_digit 16 c"
  unfolding hex_group_def by (rule show_radix_is_digit) auto

lemma hex_group_nonempty [simp]: "hex_group g \<noteq> []"
  by (simp add: hex_group_def)

fun groups_from :: "nat \<Rightarrow> 16 word list \<Rightarrow> str" where
  "groups_from i [] = []"
| "groups_from i (g # gs) = (if i = 0 then [] else [58]) @ hex_group g @ groups_from (i + 1) gs"

lemma groups_from_join: "hex_group g @ groups_from (Suc i) gs = join_with 58 (map hex_group (g # gs))"
  by (induction gs arbitrary: g i) auto

lemma show_groups_eq: "show_groups gs = groups_from 0 gs"
  using groups_from_join by (cases gs) (simp_all add: show_groups_def hex_group_def[abs_def])

text \<open>What may follow a run of groups: the end, or the separator of another group or of \<open>::\<close>.\<close>

definition group_end :: "str \<Rightarrow> bool" where
  "group_end s \<longleftrightarrow> s = [] \<or> hd s = 58"

lemma group_end_simps [simp]: "group_end []" "group_end (c # s) \<longleftrightarrow> c = 58"
  by (simp_all add: group_end_def)

lemma group_end_groups_from: "0 < i \<Longrightarrow> group_end rest \<Longrightarrow> group_end (groups_from i gs @ rest)"
  by (cases gs) auto

lemma group_end_stops: "group_end s \<Longrightarrow> stops 16 s"
  by (cases s) auto

lemma read_group_show:
  assumes "group_end rest"
  shows "read_group i ((if i = 0 then [] else [58]) @ hex_group g @ rest) = Some (g, rest)"
proof -
  have "read_number 16 4 65536 True (hex_group g @ rest) = Some (unat g, rest)"
    using group_bound[of g] group_end_stops[OF assms] unfolding hex_group_def
    by (intro read_number_show) auto
  then show ?thesis by (simp add: read_group_def read_separator_def)
qed

text \<open>A group is never the beginning of an IPv4 address: no dot comes before the separator.\<close>

lemma no_ipv4_in_group:
  assumes "group_end rest"
  shows "read_ipv4 (hex_group g @ rest) = None"
proof (cases "read_octet 0 (hex_group g @ rest)")
  case (Some ar)
  obtain a r where ar: "ar = (a, r)" by (cases ar)
  let ?s = "hex_group g @ rest"
  have r: "r = dropWhile (is_digit 10) ?s"
    using Some ar by (auto simp: read_octet_def read_separator_def read_number_def Let_def
        dropWhile_eq_drop split: if_splits)
  have "strip_prefix_char 46 r = None"
  proof (cases "\<forall>c \<in> set (hex_group g). is_digit 10 c")
    case True
    then have "r = rest" using r assms by (cases rest) (auto simp: dropWhile_append)
    then show ?thesis using assms by (cases rest) auto
  next
    case False
    then obtain c cs where d: "dropWhile (is_digit 10) (hex_group g) = c # cs"
      by (cases "dropWhile (is_digit 10) (hex_group g)") (auto simp: dropWhile_eq_Nil_conv)
    then have "c \<in> set (hex_group g)" by (metis list.set_intros(1) set_dropWhileD)
    then have "c \<noteq> 46" using hex_group_chars by force
    then show ?thesis using r d False by (simp add: dropWhile_append)
  qed
  then show ?thesis
    using Some ar by (simp add: read_ipv4_def read_octet_def[of "Suc 0"] read_separator_def)
qed (simp add: read_ipv4_def)

text \<open>Where no further group can be read.\<close>

lemma no_more_groups:
  assumes "s = [] \<or> (\<exists>t. s = 58 # 58 # t)"
  shows "read_groups n i s = ([], False, s)"
proof -
  have n: "read_number r k bound z s = None" if "r = 10 \<or> r = 16" for r k bound z
    using assms that by (auto simp: read_number_stops)
  have n': "Option.bind (strip_prefix_char 58 s) (read_number r k bound z) = None" if "r = 10 \<or> r = 16" for r k bound z
    using assms that by (auto simp: read_number_stops)
  have g: "read_group i s = None"
    using n n' by (simp add: read_group_def read_separator_def)
  have "read_ipv4 s = None"
    using n by (simp add: read_ipv4_def read_octet_def read_separator_def)
  moreover have "Option.bind (strip_prefix_char 58 s) read_ipv4 = None"
    using assms by (auto simp: read_ipv4_def read_octet_def read_separator_def read_number_stops)
  ultimately have "read_separator 58 i read_ipv4 s = None" by (simp add: read_separator_def)
  then show ?thesis using g by (cases n) auto
qed

lemma read_groups_show:
  assumes "length gs \<le> n" and "rest = [] \<or> (\<exists>t. rest = 58 # 58 # t)"
  shows "read_groups n i (groups_from i gs @ rest) = (gs, False, rest)"
  using assms
proof (induction gs arbitrary: n i)
  case Nil
  then show ?case using no_more_groups by simp
next
  case (Cons g gs)
  obtain m where n: "n = Suc m" using Cons.prems by (cases n) auto
  let ?s = "groups_from (i + 1) gs @ rest"
  have e: "group_end ?s" using Cons.prems by (intro group_end_groups_from) auto
  have "read_separator 58 i read_ipv4 (groups_from i (g # gs) @ rest) = None"
    using no_ipv4_in_group[OF e, of g] by (cases i) (simp_all add: read_separator_def)
  moreover have "read_group i (groups_from i (g # gs) @ rest) = Some (g, ?s)"
    using read_group_show[OF e, of i g] by simp
  moreover have "read_groups m (i + 1) ?s = (gs, False, rest)"
    using Cons n by simp
  ultimately show ?case unfolding n by (cases m) auto
qed

section \<open>The compressed run\<close>

definition zero_run :: "16 word list \<Rightarrow> nat \<times> nat \<Rightarrow> bool" where
  "zero_run zs r \<longleftrightarrow> fst r + snd r \<le> length zs \<and> (\<forall>k < snd r. zs ! (fst r + k) = 0)"

lemma zero_span_run:
  assumes "zero_run zs longest" and "zero_run zs current" and "zs = pre @ xs" and "i = length pre"
    and "snd current \<noteq> 0 \<Longrightarrow> fst current + snd current = i"
  shows "zero_run zs (zero_span xs i longest current)"
  using assms
proof (induction xs i longest current arbitrary: pre rule: zero_span.induct)
  case (2 x xs i longest current)
  show ?case
  proof (cases "x = 0")
    case True
    let ?c = "if snd current = 0 then (i, 1) else (fst current, snd current + 1)"
    have run: "zero_run zs ?c"
    proof (cases "snd current = 0")
      case False
      have "zs ! (fst current + k) = 0" if "k < Suc (snd current)" for k
        using that 2(4,5,6,7) False True by (cases "k = snd current") (auto simp: zero_run_def)
      then show ?thesis using 2(4-7) False by (auto simp: zero_run_def)
    qed (use True 2(5,6) in \<open>auto simp: zero_run_def\<close>)
    have "zero_run zs (zero_span xs (i + 1) (if snd ?c > snd longest then ?c else longest) ?c)"
      using True 2(3,5,6,7) run
      by (intro 2(1)[OF True refl, of "pre @ [x]"]) auto
    then show ?thesis using True by (simp add: Let_def)
  next
    case False
    have "zero_run zs (zero_span xs (i + 1) longest (0, 0))"
      using False 2(3,5,6) by (intro 2(2)[OF False, of "pre @ [x]"]) (auto simp: zero_run_def)
    then show ?thesis using False by simp
  qed
qed simp

lemma zero_run_split:
  assumes "zero_run zs (start, len)"
  shows "zs = take start zs @ replicate len 0 @ drop (start + len) zs"
proof -
  have "take len (drop start zs) = replicate len 0"
    using assms by (intro nth_equalityI) (auto simp: zero_run_def)
  then show ?thesis
    by (metis append_take_drop_id drop_drop add.commute)
qed

section \<open>IPv6\<close>

lemma read_compressed:
  assumes "length head + length tail \<le> 7"
    and "of_segments (head @ replicate (8 - length head - length tail) 0 @ tail) = Some a"
  shows "read_ipv6 (show_groups head @ 58 # 58 # show_groups tail) = Some (a, [])"
proof -
  let ?t = "58 # 58 # show_groups tail"
  have "read_groups 8 0 (show_groups head @ ?t) = (head, False, ?t)"
    using assms(1) unfolding show_groups_eq[of head] by (intro read_groups_show) auto
  moreover have "read_groups (7 - length head) 0 (show_groups tail) = (tail, False, [])"
    using read_groups_show[of tail "7 - length head" "[]" 0] assms(1) by (simp add: show_groups_eq)
  ultimately show ?thesis using assms by (simp add: read_ipv6_def)
qed

lemma read_mapped:
  "read_ipv6 (lit ''::ffff:'' @ show_ipv4 (V4 a b c d)) = Some (V6 0 0 0 0 0 0xFFFF (pair_word a b) (pair_word c d), [])"
proof -
  let ?v4 = "58 # show_ipv4 (V4 a b c d)"
  have l: "lit ''::ffff:'' @ show_ipv4 (V4 a b c d) = 58 # 58 # hex_group 0xFFFF @ ?v4"
    by (simp add: lit_def hex_group_def show_radix.simps digit_char_def)
  have g: "read_separator 58 0 read_ipv4 (hex_group 0xFFFF @ ?v4) = None" "read_group 0 (hex_group 0xFFFF @ ?v4) = Some (0xFFFF, ?v4)"
    using no_ipv4_in_group[of ?v4 "0xFFFF"] read_group_show[of ?v4 0 "0xFFFF"] by (simp_all add: read_separator_def)
  have v: "read_separator 58 1 read_ipv4 ?v4 = Some (V4 a b c d, [])"
    using read_ipv4_show[of "[]" "V4 a b c d"] by (simp add: read_separator_def del: show_ipv4.simps)
  have t: "read_groups 7 0 (hex_group 0xFFFF @ ?v4) =
      ([0xFFFF, pair_word a b, pair_word c d], True, [])"
    using g v
    by (simp add: numeral_nat del: show_ipv4.simps)
  have h: "read_groups 8 0 (58 # 58 # hex_group 0xFFFF @ ?v4) = ([], False, 58 # 58 # hex_group 0xFFFF @ ?v4)"
    by (rule no_more_groups) simp
  show ?thesis
    unfolding l by (simp add: read_ipv6_def h t del: show_ipv4.simps) (simp add: numeral_nat)
qed

lemma pair_word_parts: "pair_word (of_nat (unat x div 256)) (of_nat (unat x mod 256)) = x"
proof -
  have "unat x div 256 < 256" using group_bound[of x] by auto
  then show ?thesis by (simp add: pair_word_def unat_of_nat)
qed

lemma read_show_ipv6: "read_ipv6 (show_ipv6 a) = Some (a, [])"
proof (cases "to_ipv4_mapped a")
  case (Some v)
  then show ?thesis
    by (cases a) (auto simp: show_ipv6_def to_ipv4_mapped_def read_mapped pair_word_parts
        simp del: show_ipv4.simps split: if_splits)
next
  case None
  obtain start len where z: "zero_span (segments a) 0 (0, 0) (0, 0) = (start, len)"
    by (cases "zero_span (segments a) 0 (0, 0) (0, 0)")
  have run: "zero_run (segments a) (start, len)"
    unfolding z[symmetric] by (rule zero_span_run[where pre = "[]"]) (auto simp: zero_run_def)
  then have le: "start + len \<le> 8" by (simp add: zero_run_def)
  show ?thesis
  proof (cases "len > 1")
    case True
    let ?h = "take start (segments a)" and ?t = "drop (start + len) (segments a)"
    have "8 - length ?h - length ?t = len" using le by simp
    then have "of_segments (?h @ replicate (8 - length ?h - length ?t) 0 @ ?t) = Some a"
      using zero_run_split[OF run] by (metis of_segments_segments)
    moreover have "length ?h + length ?t \<le> 7" using le True by simp
    ultimately show ?thesis
      using None z True read_compressed[of ?h ?t a] by (simp add: show_ipv6_def lit_def)
  next
    case False
    have "read_groups 8 0 (show_groups (segments a)) = (segments a, False, [])"
      using read_groups_show[of "segments a" 8 "[]" 0] by (simp add: show_groups_eq)
    then show ?thesis
      using None z False by (simp add: show_ipv6_def read_ipv6_def)
  qed
qed

lemma parse_show_ipv6: "parse_ipv6 (show_ipv6 a) = Some a"
  by (simp add: parse_ipv6_def read_show_ipv6)

interpretation ipv6_text: canonical_codec show_ipv6 parse_ipv6 "\<lambda>_. True"
  by unfold_locales (simp_all add: parse_show_ipv6)

lemma show_groups_chars: "c \<in> set (show_groups gs) \<Longrightarrow> addr_char c"
  using set_join_with[of 58 "map hex_group gs"] hex_group_chars digit_addr_char[of 16]
  by (fastforce simp: show_groups_def hex_group_def[abs_def] addr_char_def)

lemma show_ipv6_chars:
  assumes "c \<in> set (show_ipv6 a)"
  shows "addr_char c"
proof -
  have v4: "addr_char c" if "c \<in> set (show_ipv4 v)" for v
    using show_ipv4_chars[OF that] by (auto simp: addr_char_def is_ascii_alphanumeric_def)
  have l: "addr_char c" if "c \<in> set (lit ''::ffff:'')" for c
    using that by (auto simp: lit_def addr_char_def is_ascii_alphanumeric_def)
  show ?thesis
    using assms v4 l show_groups_chars
    by (auto simp: show_ipv6_def lit_def addr_char_def split: option.splits prod.splits if_splits)
qed

lemma show_ipv6_colon: "58 \<in> set (show_ipv6 a)"
proof -
  have "58 \<in> set (show_groups (segments a))"
    by (cases a) (simp add: show_groups_def)
  then show ?thesis
    by (cases "zero_span (segments a) 0 (0, 0) (0, 0)") (auto simp: show_ipv6_def lit_def split: option.splits)
qed

end
