(* ===== verification/Host_Facts.thy ===== *)
theory Host_Facts
  imports Host_Names Addr_Facts "HOL-Library.Sublist"
begin

text \<open>
  Hosts, bypass entries and bypass lists are codecs: what is parsed is in normal
  form, and the text of a normal form parses back to it.  The string test of the
  bypass list is the suffix order on label lists.
\<close>

section \<open>Names\<close>

definition dns_name :: "str \<Rightarrow> bool" where
  "dns_name d \<longleftrightarrow> d \<noteq> [] \<and> str_len d \<le> 253 \<and> to_ascii_lowercase d = d \<and> list_all label_ok (split_on 46 d)"

definition numeric :: "str \<Rightarrow> bool" where
  "numeric s \<longleftrightarrow> list_all (\<lambda>b. is_ascii_digit b \<or> b = 46) s"

lemma str_len_lowercase [simp]: "str_len (to_ascii_lowercase s) = str_len s"
  by (induction s) (auto simp: ascii_lower_def len_utf8_def)

lemma label_not_ok [simp]: "\<not> label_ok []"
  by (simp add: label_ok_def)

lemma dns_name_last: "dns_name d \<Longrightarrow> last d \<noteq> 46"
proof
  assume d: "dns_name d" and l: "last d = 46"
  have "d = butlast d @ 46 # []" using d l by (metis append_butlast_last_id dns_name_def)
  then have "split_on 46 d = split_on 46 (butlast d) @ [[]]" by (metis split_on.simps(1) split_on_sep)
  then show False using d by (simp add: dns_name_def)
qed

lemma dns_name_chars:
  assumes "dns_name d" and "c \<in> set d"
  shows "is_ascii_alphanumeric c \<or> c = 45 \<or> c = 95 \<or> c = 46"
  using set_split_on[of d 46] assms by (fastforce simp: dns_name_def label_ok_def list_all_iff)

lemma normalize_dns_name: "dns_name d \<Longrightarrow> normalize_dns d = Some d"
  using dns_name_last[of d] by (auto simp: normalize_dns_def strip_suffix_char_def dns_name_def)

lemma normalize_dns_ok: "normalize_dns t = Some d \<Longrightarrow> dns_name d"
  by (auto simp: normalize_dns_def dns_name_def Let_def split: option.splits if_splits)

lemma numeric_lowercase: "numeric (to_ascii_lowercase s) \<longleftrightarrow> numeric s"
  by (induction s) (auto simp: numeric_def ascii_lower_def is_ascii_digit_def)

lemma normalize_dns_numeric: "normalize_dns t = Some d \<Longrightarrow> numeric d \<Longrightarrow> t \<noteq> [] \<and> numeric t"
proof -
  assume n: "normalize_dns t = Some d" and d: "numeric d"
  let ?name = "case strip_suffix_char 46 t of Some n \<Rightarrow> n | None \<Rightarrow> t"
  have dn: "?name \<noteq> []" "d = to_ascii_lowercase ?name"
    using n by (auto simp: normalize_dns_def Let_def split: if_splits)
  then have name: "numeric ?name" using d by (simp add: numeric_lowercase)
  show ?thesis
  proof (cases "t \<noteq> [] \<and> last t = 46")
    case True
    then have "t = butlast t @ [46]" "?name = butlast t"
      using append_butlast_last_id[of t] by (simp_all add: strip_suffix_char_def)
    moreover have "numeric (butlast t @ [46])" using name \<open>?name = butlast t\<close> by (simp add: numeric_def)
    ultimately show ?thesis using True by metis
  next
    case False
    then show ?thesis using dn name by (auto simp: strip_suffix_char_def)
  qed
qed

section \<open>Hosts\<close>

definition host_ok :: "host \<Rightarrow> bool" where
  "host_ok h \<longleftrightarrow> (\<forall>d. h = Dns d \<longrightarrow> dns_name d \<and> \<not> numeric d)"

lemma host_ok_simps [simp]:
  "host_ok (Dns d) \<longleftrightarrow> dns_name d \<and> \<not> numeric d" "host_ok (Ipv4 a)" "host_ok (Ipv6 b)"
  by (auto simp: host_ok_def)

lemma host_parse_ok: "host_parse t b = Some h \<Longrightarrow> host_ok h"
  using normalize_dns_ok[of t] normalize_dns_numeric[of t]
  by (auto simp: host_parse_def host_ok_def numeric_def split: option.splits if_splits bind_splits)

lemma numeric_show_ipv4: "numeric (show_ipv4 a)"
  using show_ipv4_chars by (auto simp: numeric_def list_all_iff)

lemma show_ipv6_no: "\<not> addr_char c \<Longrightarrow> c \<notin> set (show_ipv6 a)"
  using show_ipv6_chars by blast

lemma show_ipv4_no: "\<not> is_ascii_digit c \<Longrightarrow> c \<noteq> 46 \<Longrightarrow> c \<notin> set (show_ipv4 a)"
  using show_ipv4_chars by blast

lemma dns_name_no: "dns_name d \<Longrightarrow> \<not> is_ascii_alphanumeric c \<Longrightarrow> c \<noteq> 45 \<Longrightarrow> c \<noteq> 95 \<Longrightarrow> c \<noteq> 46 \<Longrightarrow> c \<notin> set d"
  using dns_name_chars by blast

lemmas not_addr_chars = addr_char_def is_ascii_alphanumeric_def is_ascii_digit_def

lemma host_parse_show: "host_ok h \<Longrightarrow> host_parse (host_show h) b = Some h"
proof (cases h)
  case (Dns d)
  assume "host_ok h"
  then have d: "dns_name d" "\<not> numeric d" using Dns by auto
  have "91 \<notin> set d" "58 \<notin> set d" using d by (auto dest!: dns_name_no simp: not_addr_chars)
  then show ?thesis using d Dns by (simp add: host_parse_def host_show_def numeric_def normalize_dns_name)
next
  case (Ipv4 a)
  have "91 \<notin> set (show_ipv4 a)" "58 \<notin> set (show_ipv4 a)" by (auto dest!: show_ipv4_chars simp: is_ascii_digit_def)
  then show ?thesis
    using Ipv4 numeric_show_ipv4[of a] by (simp add: host_parse_def host_show_def numeric_def parse_show_ipv4)
next
  case (Ipv6 a)
  then show ?thesis
    using strip_suffix_simps(2)[of 93 "show_ipv6 a" 93] by (simp add: host_parse_def host_show_def parse_show_ipv6)
qed

interpretation host_text: canonical_codec host_show "\<lambda>t. host_parse t b" host_ok
  by unfold_locales (auto intro: host_parse_show host_parse_ok)

section \<open>Entries\<close>

definition entry_ok :: "bypass_entry \<Rightarrow> bool" where
  "entry_ok e \<longleftrightarrow> (\<forall>d. e = Domain d \<longrightarrow> dns_name d \<and> \<not> numeric d)"

lemma entry_ok_simps [simp]: "entry_ok (Domain d) \<longleftrightarrow> dns_name d \<and> \<not> numeric d" "entry_ok (Ip a)"
  by (auto simp: entry_ok_def)

definition entry_char :: "uchar \<Rightarrow> bool" where
  "entry_char c \<longleftrightarrow> addr_char c \<or> c = 45 \<or> c = 95"

lemma entry_text_chars: "entry_ok e \<Longrightarrow> c \<in> set (entry_text e) \<Longrightarrow> entry_char c"
  using dns_name_chars show_ipv4_chars show_ipv6_chars
  by (cases e rule: entry_text.cases) (fastforce simp: entry_char_def not_addr_chars)+

lemma entry_char_no:
  "entry_char c \<Longrightarrow> c \<noteq> 42 \<and> c \<noteq> 44 \<and> c \<noteq> 47 \<and> c \<noteq> 64 \<and> c \<noteq> 63 \<and> c \<noteq> 35 \<and> c \<noteq> 91 \<and> \<not> is_whitespace c"
  by (auto simp: entry_char_def not_addr_chars is_whitespace_def)

lemma entry_text_no:
  assumes "entry_ok e"
  shows "42 \<notin> set (entry_text e)" "44 \<notin> set (entry_text e)" "47 \<notin> set (entry_text e)"
    "64 \<notin> set (entry_text e)" "63 \<notin> set (entry_text e)" "35 \<notin> set (entry_text e)"
    "91 \<notin> set (entry_text e)" "\<forall>c \<in> set (entry_text e). \<not> is_whitespace c"
  using entry_text_chars[OF assms] entry_char_no by blast+

lemma contains_url: "47 \<notin> set s \<Longrightarrow> \<not> contains_str (lit ''://'') s"
  using split_once_Some[of "lit ''://''" s] by (auto simp: contains_str_def lit_def)

lemma entry_text_nonempty: "entry_ok e \<Longrightarrow> entry_text e \<noteq> []"
  using show_ipv6_colon by (cases e rule: entry_text.cases) (auto simp: dns_name_def, metis empty_iff list.set(1))

lemma dns_name_hd: "dns_name d \<Longrightarrow> strip_prefix_char 46 d = None"
proof (cases d)
  case (Cons c s)
  assume d: "dns_name d"
  have "c \<noteq> 46"
  proof
    assume "c = 46"
    then have "split_on 46 d = [] # split_on 46 s" using Cons by simp
    then show False using d by (simp add: dns_name_def)
  qed
  then show ?thesis using Cons by simp
qed simp

lemma parse_entry_text: "entry_ok e \<Longrightarrow> parse_entry (entry_text e) = Ok e"
proof -
  assume e: "entry_ok e"
  note no = entry_text_no[OF e] contains_url[OF entry_text_no(3)[OF e]]
  have pre: "strip_prefix_char 91 (entry_text e) = None" using no(7) by simp
  have start: "parse_entry (entry_text e) =
      (if 58 \<in> set (entry_text e) then
            (case parse_ipv6 (entry_text e) of
               Some ip \<Rightarrow> Ok (Ip (IpV6 ip))
             | None \<Rightarrow> if count_list (entry_text e) 58 = 1 then Err PortNotAllowed else Err InvalidAddress)
          else if numeric (entry_text e) then
            (case host_parse (entry_text e) False of
               Some (Ipv4 ip) \<Rightarrow> Ok (Ip (IpV4 ip))
             | _ \<Rightarrow> Err InvalidAddress)
          else
            let name = (case strip_prefix_char 46 (entry_text e) of Some n \<Rightarrow> n | None \<Rightarrow> entry_text e) in
            ok_or BadBypassHost (map_option Domain (normalize_dns name)))"
    using no pre by (auto simp: parse_entry_def numeric_def)
  show ?thesis
  proof (cases e rule: entry_text.cases)
    case (1 d)
    then have d: "dns_name d" "\<not> numeric d" using e by auto
    have "58 \<notin> set d" using d by (auto dest!: dns_name_no simp: not_addr_chars)
    then show ?thesis using d 1 start by (simp add: dns_name_hd normalize_dns_name)
  next
    case (2 ip)
    have "58 \<notin> set (show_ipv4 ip)" by (auto dest!: show_ipv4_chars simp: is_ascii_digit_def)
    then show ?thesis
      using host_parse_show[of "Ipv4 ip" False] 2 start numeric_show_ipv4[of ip] by (simp add: host_show_def)
  next
    case (3 ip)
    then show ?thesis using show_ipv6_colon[of ip] start by (simp add: parse_show_ipv6)
  qed
qed

lemma normalize_stripped:
  assumes "normalize_dns (case strip_prefix_char 46 t of Some n \<Rightarrow> n | None \<Rightarrow> t) = Some d" and "numeric d"
  shows "numeric t"
  using normalize_dns_numeric[OF assms] by (cases t) (auto simp: numeric_def split: if_splits)

lemma parse_entry_ok: "parse_entry t = Ok e \<Longrightarrow> entry_ok e"
proof (cases e)
  case (Domain d)
  assume "parse_entry t = Ok e"
  then have n: "\<not> numeric t"
    "normalize_dns (case strip_prefix_char 46 t of Some n \<Rightarrow> n | None \<Rightarrow> t) = Some d"
    unfolding Domain by (auto simp: parse_entry_def numeric_def Let_def res_bind_Ok_iff ok_or_Ok_iff
        split: if_splits option.splits host.splits)
  then show ?thesis
    using normalize_stripped[OF n(2)] normalize_dns_ok[OF n(2)] Domain by auto
qed simp

interpretation entry_codec: canonical_codec entry_text "\<lambda>t. case parse_entry t of Ok e \<Rightarrow> Some e | _ \<Rightarrow> None" entry_ok
  by unfold_locales (auto simp: parse_entry_text intro: parse_entry_ok split: res.splits)

section \<open>Lists\<close>

definition list_ok :: "bypass_list \<Rightarrow> bool" where
  "list_ok l \<longleftrightarrow> (\<forall>e \<in> set (by_entries l). entry_ok e) \<and> distinct (by_entries l)"

lemma parse_items_ok: "parse_items ps l = Ok l' \<Longrightarrow> list_ok l \<Longrightarrow> list_ok l'"
proof (induction ps arbitrary: l)
  case (Cons raw rest)
  have all: "list_ok (l\<lparr>by_all := True\<rparr>)" using Cons.prems(2) by (simp add: list_ok_def)
  have add: "list_ok (if e \<in> set (by_entries l) then l else l\<lparr>by_entries := by_entries l @ [e]\<rparr>)"
    if "parse_entry (trim raw) = Ok e" for e
    using parse_entry_ok[OF that] Cons.prems(2) by (auto simp: list_ok_def)
  show ?case
    using Cons.prems all add Cons.IH
    by (auto simp: Let_def res_bind_Ok_iff split: if_splits)
qed simp

lemma bypass_parse_ok: "bypass_parse t = Ok l \<Longrightarrow> list_ok l"
  unfolding bypass_parse_def by (erule parse_items_ok) (simp add: list_ok_def bypass_default_def)

lemma trim_entry_text: "entry_ok e \<Longrightarrow> trim (entry_text e) = entry_text e"
  using entry_text_no(8) by (rule trim_id)

lemma entry_text_not_star: "entry_ok e \<Longrightarrow> entry_text e \<noteq> [42]"
  using entry_text_no(1)[of e] by auto

lemma parse_items_texts:
  assumes "\<forall>e \<in> set es. entry_ok e"
  shows "parse_items (map entry_text es @ ps) l =
    parse_items ps (l\<lparr>by_entries := fold (\<lambda>e xs. if e \<in> set xs then xs else xs @ [e]) es (by_entries l)\<rparr>)"
  using assms
proof (induction es arbitrary: l)
  case (Cons e es)
  then have e: "entry_ok e" by simp
  have "parse_items (map entry_text (e # es) @ ps) l =
      parse_items (map entry_text es @ ps)
        (l\<lparr>by_entries := (if e \<in> set (by_entries l) then by_entries l else by_entries l @ [e])\<rparr>)"
    using e entry_text_nonempty[OF e] entry_text_not_star[OF e] by (simp add: trim_entry_text parse_entry_text)
  then show ?case using Cons by simp
qed simp

lemma fold_add_distinct:
  "distinct (xs @ es) \<Longrightarrow> fold (\<lambda>e xs. if e \<in> set xs then xs else xs @ [e]) es xs = xs @ es"
  by (induction es arbitrary: xs) auto

lemma split_texts:
  assumes "\<forall>e \<in> set es. entry_ok e" and "es \<noteq> []"
  shows "split_on 44 (join_with 44 (map entry_text es)) = map entry_text es"
  using assms entry_text_no(2) by (intro split_on_join) auto

lemma bypass_parse_texts:
  assumes "\<forall>e \<in> set es. entry_ok e" and "distinct es"
  shows "bypass_parse (join_with 44 (map entry_text es)) = Ok \<lparr>by_all = False, by_entries = es\<rparr>"
proof (cases "es = []")
  case False
  then show ?thesis
    using assms fold_add_distinct[of "[]" es] parse_items_texts[OF assms(1), of "[]" bypass_default]
    by (simp add: bypass_parse_def split_texts) (simp add: bypass_default_def)
qed (simp add: bypass_parse_def bypass_default_def trim_def)

lemma bypass_parse_star: "bypass_parse [42] = Ok \<lparr>by_all = True, by_entries = []\<rparr>"
  by (simp add: bypass_parse_def trim_def is_whitespace_def bypass_default_def)

lemma bypass_parse_to_text:
  assumes "list_ok l"
  shows "bypass_parse (bypass_to_text l) = Ok (if by_all l then \<lparr>by_all = True, by_entries = []\<rparr> else l)"
  using assms bypass_parse_texts[of "by_entries l"] bypass_parse_star
  by (cases l) (auto simp: bypass_to_text_def to_env_value_def list_ok_def)

interpretation bypass_text: text_codec bypass_to_text "\<lambda>t. case bypass_parse t of Ok l \<Rightarrow> Some l | _ \<Rightarrow> None"
  "\<lambda>l. list_ok l \<and> (by_all l \<longrightarrow> by_entries l = [])"
  by unfold_locales (auto simp: bypass_parse_to_text)

section \<open>Matching\<close>

lemma label_suffix_iff:
  assumes "d \<noteq> []"
  shows "(h = d \<or> (length h > length d \<and> ends_with h d \<and> h ! (length h - length d - 1) = 46)) \<longleftrightarrow>
    suffix (split_on 46 d) (split_on 46 h)"
    (is "?string \<longleftrightarrow> ?labels")
proof
  assume ?string
  then consider "h = d" | u where "h = u @ d" "u \<noteq> []" "h ! (length u - 1) = 46"
    by (auto simp: ends_with_iff)
  then show ?labels
  proof cases
    case 2
    then have "last u = 46" by (simp add: last_conv_nth nth_append)
    then have "h = butlast u @ 46 # d" using 2 by (metis append_butlast_last_id append_Cons append_Nil append_assoc)
    then show ?thesis by (simp add: split_on_sep suffix_def)
  qed simp
next
  assume ?labels
  then obtain xs where x: "split_on 46 h = xs @ split_on 46 d" by (auto simp: suffix_def)
  show ?string
  proof (cases "xs = []")
    case True
    then show ?thesis using x by (metis append_Nil join_split_on)
  next
    case False
    have "h = join_with 46 (split_on 46 h)" by (simp add: join_split_on)
    then have "h = join_with 46 xs @ 46 # d"
      using False x by (simp add: join_with_append join_split_on)
    moreover have "ends_with (join_with 46 xs @ 46 # d) d"
      using ends_with_append[of "join_with 46 xs @ [46]" d] by simp
    ultimately show ?thesis by (auto simp: nth_append)
  qed
qed

lemma entry_matches_labels:
  "entry_ok (Domain d) \<Longrightarrow> entry_matches (Domain d) (Dns h) \<longleftrightarrow> suffix (split_on 46 d) (split_on 46 h)"
  using label_suffix_iff[of d h] by (simp add: dns_name_def)

lemma bypass_matches_iff: "bypass_matches l h \<longleftrightarrow> by_all l \<or> (\<exists>e \<in> set (by_entries l). entry_matches e h)"
  by (auto simp: bypass_matches_def list_ex_iff)

end
