(* ===== verification/Proxy_Endpoint.thy ===== *)
theory Proxy_Endpoint
  imports Host_Names
begin

text \<open>
  Proxy URLs and credentials (\<open>crates/network/src/endpoint.rs\<close>, \<open>credential.rs\<close>).
  A credential store is a parameter, a function from references to results, as
  the trait has it.
\<close>

section \<open>Problems\<close>

datatype url_problem =
  EmptyUrl | MissingScheme | UnsupportedScheme | UserinfoNotAllowed | InvalidUserinfo | ControlCharacter
  | PathNotAllowed | QueryNotAllowed | FragmentNotAllowed | EmptyHost | InvalidHost | InvalidPort

datatype credential_error = CredNotFound | CredUnavailable | CredInvalid

datatype proxy_source = ManualSource | EnvironmentSource str

datatype network_error =
    InvalidProxyUrl proxy_source url_problem
  | InvalidBypass proxy_source bypass_problem
  | InvalidDestination
  | InvalidCredentialRef
  | UnsupportedSchema nat
  | ManualNotConfigured
  | CredentialFailure credential_error

section \<open>Percent coding\<close>

text \<open>\<open>percent_decode_once\<close>: the loop over the bytes, then \<open>String::from_utf8\<close>.\<close>

fun percent_bytes :: "nat list \<Rightarrow> nat list option" where
  "percent_bytes [] = Some []"
| "percent_bytes (b # bs) =
     (if b = 37 then
        (case bs of
           h # l # r \<Rightarrow>
             Option.bind (to_digit 16 h) (\<lambda>hi. Option.bind (to_digit 16 l) (\<lambda>lo.
             map_option ((#) (hi * 16 + lo)) (percent_bytes r)))
         | _ \<Rightarrow> None)
      else map_option ((#) b) (percent_bytes bs))"

definition percent_decode_once :: "str \<Rightarrow> str option" where
  "percent_decode_once text = Option.bind (percent_bytes (as_bytes text)) decode_utf8"

definition unreserved :: "nat \<Rightarrow> bool" where
  "unreserved b \<longleftrightarrow> is_ascii_alphanumeric b \<or> b = 45 \<or> b = 46 \<or> b = 95 \<or> b = 126"

definition encode_byte :: "nat \<Rightarrow> str" where
  "encode_byte b = (if unreserved b then [b] else [37, upper_digit_char (b div 16), upper_digit_char (b mod 16)])"

definition percent_encode :: "str \<Rightarrow> str" where
  "percent_encode text = concat (map encode_byte (as_bytes text))"

section \<open>Endpoints\<close>

record proxy_endpoint =
  pe_host :: host
  pe_port :: nat

definition default_port :: nat where
  "default_port = 80"

definition endpoint_show :: "proxy_endpoint \<Rightarrow> str" where
  "endpoint_show e = lit ''http://'' @ host_show (pe_host e) @ 58 # show_radix 10 (pe_port e)"

record parsed_proxy =
  pp_endpoint :: proxy_endpoint
  pp_userinfo :: "(str \<times> str) option"

text \<open>\<open>str::parse::<u16>\<close> of ASCII digits: an overflow is an error.\<close>

definition parse_port :: "str \<Rightarrow> (url_problem, nat) res" where
  "parse_port text =
     (if text = [] \<or> \<not> list_all is_ascii_digit text then Err InvalidPort
      else
        let p = digits_value 10 text in
        if p < 65536 \<and> p \<noteq> 0 then Ok p else Err InvalidPort)"

definition parse_userinfo :: "bool \<Rightarrow> str option \<Rightarrow> (url_problem, (str \<times> str) option) res" where
  "parse_userinfo allow_userinfo userinfo_raw =
     (case userinfo_raw of
        None \<Rightarrow> Ok None
      | Some raw \<Rightarrow>
          if \<not> allow_userinfo then Err UserinfoNotAllowed
          else
            let (user, pass) = (case split_once [58] raw of Some up \<Rightarrow> up | None \<Rightarrow> (raw, [])) in
            if user = [] then Err InvalidUserinfo
            else
              res_bind (ok_or InvalidUserinfo (percent_decode_once user)) (\<lambda>user.
              res_bind (ok_or InvalidUserinfo (percent_decode_once pass)) (\<lambda>pass.
              if \<exists>c \<in> set (user @ pass). is_control c then Err ControlCharacter
              else Ok (Some (user, pass)))))"

definition split_hostport :: "str \<Rightarrow> (url_problem, str \<times> str option) res" where
  "split_hostport hostport =
     (if strip_prefix_char 91 hostport \<noteq> None then
        res_bind (ok_or InvalidHost (split_once [93] hostport)) (\<lambda>(before, after).
        if after = [] then Ok (before @ [93], None)
        else res_map (\<lambda>p. (before @ [93], Some p)) (ok_or InvalidHost (strip_prefix_char 58 after)))
      else case rsplit_once 58 hostport of
        Some (h, p) \<Rightarrow> Ok (h, Some p)
      | None \<Rightarrow> Ok (hostport, None))"

text \<open>The authority: everything between \<open>://\<close> and the first \<open>/\<close>, \<open>?\<close> or \<open>#\<close>.\<close>

definition parse_authority :: "str \<Rightarrow> bool \<Rightarrow> (url_problem, parsed_proxy) res" where
  "parse_authority authority allow_userinfo =
     (let (userinfo_raw, hostport) =
            (case rsplit_once 64 authority of Some (u, h) \<Rightarrow> (Some u, h) | None \<Rightarrow> (None, authority)) in
      res_bind (parse_userinfo allow_userinfo userinfo_raw) (\<lambda>userinfo.
      res_bind (split_hostport hostport) (\<lambda>(host_text, port_text).
      if host_text = [] then Err EmptyHost
      else
        res_bind (ok_or InvalidHost (host_parse host_text False)) (\<lambda>host.
        res_bind (case port_text of None \<Rightarrow> Ok default_port | Some p \<Rightarrow> parse_port p) (\<lambda>port.
        Ok \<lparr>pp_endpoint = \<lparr>pe_host = host, pe_port = port\<rparr>, pp_userinfo = userinfo\<rparr>)))))"

definition parse_proxy_url :: "str \<Rightarrow> bool \<Rightarrow> (url_problem, parsed_proxy) res" where
  "parse_proxy_url input allow_userinfo =
     (let text = trim input in
      if text = [] then Err EmptyUrl
      else if \<exists>c \<in> set text. is_control c then Err ControlCharacter
      else
        res_bind (ok_or MissingScheme (split_once (lit ''://'') text)) (\<lambda>(scheme, rest).
        if \<not> eq_ignore_ascii_case scheme (lit ''http'') then Err UnsupportedScheme
        else
          let authority = takeWhile (\<lambda>c. c \<noteq> 47 \<and> c \<noteq> 63 \<and> c \<noteq> 35) rest;
              tail = drop (length authority) rest in
          if tail \<noteq> [] \<and> tail \<noteq> [47] then
            Err (if hd tail = 63 then QueryNotAllowed else if hd tail = 35 then FragmentNotAllowed
                 else PathNotAllowed)
          else parse_authority authority allow_userinfo))"

section \<open>Credentials\<close>

record basic_credentials =
  cr_username :: str
  cr_password :: str

definition check_for_basic :: "basic_credentials \<Rightarrow> (network_error, unit) res" where
  "check_for_basic c =
     (if cr_username c = [] \<or> 58 \<in> set (cr_username c) \<or> (\<exists>x \<in> set (cr_username c @ cr_password c). is_control x)
      then Err (CredentialFailure CredInvalid) else Ok ())"

datatype credential_ref = CredentialRef str

definition credential_ref_new :: "str \<Rightarrow> (network_error, credential_ref) res" where
  "credential_ref_new i =
     (if i \<noteq> [] \<and> str_len i \<le> 128 \<and> list_all (\<lambda>c. is_ascii_alphanumeric c \<or> c = 45 \<or> c = 95 \<or> c = 46) i
      then Ok (CredentialRef i) else Err InvalidCredentialRef)"

datatype credential_source = NoCredentials | Inline basic_credentials | Stored credential_ref

type_synonym credential_store = "credential_ref \<Rightarrow> (credential_error, basic_credentials) res"

fun load_credentials ::
  "credential_source \<Rightarrow> credential_store \<Rightarrow> (network_error, basic_credentials option) res" where
  "load_credentials NoCredentials store = Ok None"
| "load_credentials (Inline c) store = Ok (Some c)"
| "load_credentials (Stored r) store =
     (case store r of Ok c \<Rightarrow> Ok (Some c) | Err e \<Rightarrow> Err (CredentialFailure e) | Panic \<Rightarrow> Panic | Hang \<Rightarrow> Hang)"

end
