(* ===== verification/Proxy_Route.thy ===== *)
theory Proxy_Route
  imports Proxy_Endpoint
begin

text \<open>
  The proxy environment, the settings and the choice of a route
  (\<open>crates/network/src/environment.rs\<close>, \<open>settings.rs\<close>, \<open>route.rs\<close>, \<open>context.rs\<close>).
  The \<open>BTreeMap\<close> of variables is a map.
\<close>

section \<open>The environment\<close>

datatype env_platform = MacOs | Windows

datatype url_scheme = Http | Https

definition recognized :: "str list" where
  "recognized = map lit [''http_proxy'', ''HTTP_PROXY'', ''https_proxy'', ''HTTPS_PROXY'',
     ''all_proxy'', ''ALL_PROXY'', ''no_proxy'', ''NO_PROXY'']"

record proxy_environment =
  env_platform :: env_platform
  env_vars :: "str \<rightharpoonup> str"

fun capture_var :: "env_platform \<Rightarrow> str \<times> str \<Rightarrow> (str \<rightharpoonup> str) \<Rightarrow> (str \<rightharpoonup> str)" where
  "capture_var MacOs (name, value) m = (if name \<in> set recognized then m(name \<mapsto> value) else m)"
| "capture_var Windows (name, value) m =
     (let lower = to_ascii_lowercase name in
      if lower \<in> set recognized \<and> (name = lower \<or> m lower = None) then m(lower \<mapsto> value) else m)"

definition env_from_vars :: "env_platform \<Rightarrow> (str \<times> str) list \<Rightarrow> proxy_environment" where
  "env_from_vars p vars = \<lparr>env_platform = p, env_vars = fold (capture_var p) vars Map.empty\<rparr>"

fun first_set :: "(str \<rightharpoonup> str) \<Rightarrow> str list \<Rightarrow> (str \<times> str) option" where
  "first_set m [] = None"
| "first_set m (n # names) =
     (case m n of
        Some v \<Rightarrow> if v \<noteq> [] then Some (n, v) else first_set m names
      | None \<Rightarrow> first_set m names)"

fun proxy_names :: "env_platform \<Rightarrow> url_scheme \<Rightarrow> str list" where
  "proxy_names MacOs Https = map lit [''https_proxy'', ''HTTPS_PROXY'', ''all_proxy'', ''ALL_PROXY'']"
| "proxy_names MacOs Http = map lit [''http_proxy'', ''all_proxy'', ''ALL_PROXY'']"
| "proxy_names Windows Https = map lit [''https_proxy'', ''all_proxy'']"
| "proxy_names Windows Http = map lit [''http_proxy'', ''all_proxy'']"

fun bypass_names :: "env_platform \<Rightarrow> str list" where
  "bypass_names MacOs = map lit [''no_proxy'', ''NO_PROXY'']"
| "bypass_names Windows = map lit [''no_proxy'']"

definition proxy_for :: "proxy_environment \<Rightarrow> url_scheme \<Rightarrow> (network_error, parsed_proxy option) res" where
  "proxy_for env scheme =
     (case first_set (env_vars env) (proxy_names (env_platform env) scheme) of
        None \<Rightarrow> Ok None
      | Some (name, value) \<Rightarrow>
          (case parse_proxy_url value True of
             Ok p \<Rightarrow> Ok (Some p)
           | Err problem \<Rightarrow> Err (InvalidProxyUrl (EnvironmentSource name) problem)
           | Panic \<Rightarrow> Panic | Hang \<Rightarrow> Hang))"

definition env_bypass :: "proxy_environment \<Rightarrow> (network_error, bypass_list) res" where
  "env_bypass env =
     (case first_set (env_vars env) (bypass_names (env_platform env)) of
        None \<Rightarrow> Ok bypass_default
      | Some (name, value) \<Rightarrow>
          (case bypass_parse value of
             Ok l \<Rightarrow> Ok l
           | Err problem \<Rightarrow> Err (InvalidBypass (EnvironmentSource name) problem)
           | Panic \<Rightarrow> Panic | Hang \<Rightarrow> Hang))"

section \<open>Settings\<close>

definition settings_schema :: nat where
  "settings_schema = 1"

datatype proxy_mode = EnvironmentMode | DirectMode | ManualMode

datatype proxy_auth = AuthNone | AuthBasic credential_ref

record manual_proxy =
  mp_endpoint :: proxy_endpoint
  mp_bypass :: bypass_list
  mp_auth :: proxy_auth

definition manual_new :: "str \<Rightarrow> str \<Rightarrow> proxy_auth \<Rightarrow> (network_error, manual_proxy) res" where
  "manual_new url bypass auth =
     (case parse_proxy_url url False of
        Ok parsed \<Rightarrow>
          (case bypass_parse bypass of
             Ok l \<Rightarrow> Ok \<lparr>mp_endpoint = pp_endpoint parsed, mp_bypass = l, mp_auth = auth\<rparr>
           | Err problem \<Rightarrow> Err (InvalidBypass ManualSource problem)
           | Panic \<Rightarrow> Panic | Hang \<Rightarrow> Hang)
      | Err problem \<Rightarrow> Err (InvalidProxyUrl ManualSource problem)
      | Panic \<Rightarrow> Panic | Hang \<Rightarrow> Hang)"

record network_settings =
  ns_schema :: nat
  ns_mode :: proxy_mode
  ns_manual :: "manual_proxy option"

definition settings_default :: network_settings where
  "settings_default = \<lparr>ns_schema = settings_schema, ns_mode = EnvironmentMode, ns_manual = None\<rparr>"

definition settings_manual :: "manual_proxy \<Rightarrow> network_settings" where
  "settings_manual m = \<lparr>ns_schema = settings_schema, ns_mode = ManualMode, ns_manual = Some m\<rparr>"

definition settings_direct :: network_settings where
  "settings_direct = settings_default\<lparr>ns_mode := DirectMode\<rparr>"

definition check_schema :: "network_settings \<Rightarrow> (network_error, unit) res" where
  "check_schema s = (if ns_schema s = settings_schema then Ok () else Err (UnsupportedSchema (ns_schema s)))"

section \<open>Routes\<close>

record destination =
  dest_scheme :: url_scheme
  dest_host :: host

definition destination_new :: "url_scheme \<Rightarrow> str \<Rightarrow> (network_error, destination) res" where
  "destination_new scheme host =
     res_bind (ok_or InvalidDestination (host_parse host True)) (\<lambda>host.
     Ok \<lparr>dest_scheme = scheme, dest_host = host\<rparr>)"

datatype resolved_route = Direct | HttpProxy proxy_endpoint credential_source

fun auth_source :: "proxy_auth \<Rightarrow> credential_source" where
  "auth_source AuthNone = NoCredentials"
| "auth_source (AuthBasic r) = Stored r"

fun userinfo_source :: "(str \<times> str) option \<Rightarrow> credential_source" where
  "userinfo_source (Some (user, pass)) = Inline \<lparr>cr_username = user, cr_password = pass\<rparr>"
| "userinfo_source None = NoCredentials"

definition resolve ::
  "network_settings \<Rightarrow> proxy_environment \<Rightarrow> destination \<Rightarrow> (network_error, resolved_route) res" where
  "resolve settings env dest =
     res_bind (check_schema settings) (\<lambda>_.
     if is_loopback (dest_host dest) then Ok Direct
     else case ns_mode settings of
       DirectMode \<Rightarrow> Ok Direct
     | ManualMode \<Rightarrow>
         res_bind (ok_or ManualNotConfigured (ns_manual settings)) (\<lambda>manual.
         if bypass_matches (mp_bypass manual) (dest_host dest) then Ok Direct
         else Ok (HttpProxy (mp_endpoint manual) (auth_source (mp_auth manual))))
     | EnvironmentMode \<Rightarrow>
         res_bind (env_bypass env) (\<lambda>bypass.
         if bypass_matches bypass (dest_host dest) then Ok Direct
         else res_bind (proxy_for env (dest_scheme dest)) (\<lambda>proxy.
           case proxy of
             None \<Rightarrow> Ok Direct
           | Some p \<Rightarrow> Ok (HttpProxy (pp_endpoint p) (userinfo_source (pp_userinfo p))))))"

section \<open>The network context\<close>

record network_context =
  nc_settings :: network_settings
  nc_environment :: proxy_environment
  nc_store :: credential_store

definition unavailable_store :: credential_store where
  "unavailable_store r = Err CredUnavailable"

definition context_from_environment :: "proxy_environment \<Rightarrow> network_context" where
  "context_from_environment env =
     \<lparr>nc_settings = settings_default, nc_environment = env, nc_store = unavailable_store\<rparr>"

definition context_direct :: "env_platform \<Rightarrow> network_context" where
  "context_direct p =
     \<lparr>nc_settings = settings_direct, nc_environment = env_from_vars p [], nc_store = unavailable_store\<rparr>"

definition context_route :: "network_context \<Rightarrow> url_scheme \<Rightarrow> str \<Rightarrow> (network_error, resolved_route) res" where
  "context_route c scheme host =
     res_bind (destination_new scheme host) (\<lambda>dest. resolve (nc_settings c) (nc_environment c) dest)"

definition context_credentials ::
  "network_context \<Rightarrow> credential_source \<Rightarrow> (network_error, basic_credentials option) res" where
  "context_credentials c source =
     res_bind (load_credentials source (nc_store c)) (\<lambda>loaded.
     case loaded of
       Some credentials \<Rightarrow> res_bind (check_for_basic credentials) (\<lambda>_. Ok loaded)
     | None \<Rightarrow> Ok loaded)"

section \<open>Child processes\<close>

text \<open>\<open>crates/network/src/child_env.rs\<close>: what a child process is given.\<close>

record child_proxy =
  cp_endpoint :: proxy_endpoint
  cp_credentials :: "basic_credentials option"

definition child_url :: "child_proxy \<Rightarrow> str" where
  "child_url p =
     (case cp_credentials p of
        None \<Rightarrow> endpoint_show (cp_endpoint p)
      | Some c \<Rightarrow>
          lit ''http://'' @ percent_encode (cr_username c) @ 58 # percent_encode (cr_password c) @ 64 #
          host_show (pe_host (cp_endpoint p)) @ 58 # show_radix 10 (pe_port (cp_endpoint p)))"

record child_proxy_plan =
  plan_http :: "child_proxy option"
  plan_https :: "child_proxy option"
  plan_no_proxy :: "str option"

definition proxy_vars :: "str list" where
  "proxy_vars = map lit [''http_proxy'', ''https_proxy'', ''all_proxy'', ''ftp_proxy'', ''socks_proxy'', ''no_proxy'']"

definition is_proxy_var :: "str \<Rightarrow> bool" where
  "is_proxy_var k \<longleftrightarrow> (\<exists>v \<in> set proxy_vars. eq_ignore_ascii_case k v)"

definition loopback_bypass :: str where
  "loopback_bypass = lit ''localhost,127.0.0.1,::1''"

definition with_loopback :: "str \<Rightarrow> str" where
  "with_loopback l = (if l = [42] then [42] else if l = [] then loopback_bypass else l @ 44 # loopback_bypass)"

definition plan_direct :: child_proxy_plan where
  "plan_direct = \<lparr>plan_http = None, plan_https = None, plan_no_proxy = None\<rparr>"

definition child_from_env ::
  "proxy_environment \<Rightarrow> url_scheme \<Rightarrow> (network_error, child_proxy option) res" where
  "child_from_env env scheme =
     res_map (map_option (\<lambda>p. \<lparr>cp_endpoint = pp_endpoint p,
       cp_credentials = map_option (\<lambda>(user, pass). \<lparr>cr_username = user, cr_password = pass\<rparr>) (pp_userinfo p)\<rparr>))
       (proxy_for env scheme)"

definition plan_from_settings ::
  "network_settings \<Rightarrow> proxy_environment \<Rightarrow> credential_store \<Rightarrow> (network_error, child_proxy_plan) res" where
  "plan_from_settings settings env store =
     res_bind (check_schema settings) (\<lambda>_.
     case ns_mode settings of
       DirectMode \<Rightarrow> Ok plan_direct
     | ManualMode \<Rightarrow>
         res_bind (ok_or ManualNotConfigured (ns_manual settings)) (\<lambda>manual.
         res_bind (load_credentials (auth_source (mp_auth manual)) store) (\<lambda>credentials.
         let proxy = \<lparr>cp_endpoint = mp_endpoint manual, cp_credentials = credentials\<rparr>
         in Ok \<lparr>plan_http = Some proxy, plan_https = Some proxy,
               plan_no_proxy = Some (with_loopback (to_env_value (mp_bypass manual)))\<rparr>))
     | EnvironmentMode \<Rightarrow>
         res_bind (env_bypass env) (\<lambda>bypass.
         res_bind (child_from_env env Http) (\<lambda>http.
         res_bind (child_from_env env Https) (\<lambda>https.
         if http = None \<and> https = None then Ok plan_direct
         else Ok \<lparr>plan_http = http, plan_https = https,
                 plan_no_proxy = Some (with_loopback (to_env_value bypass))\<rparr>))))"

definition uses_proxy :: "child_proxy_plan \<Rightarrow> bool" where
  "uses_proxy p \<longleftrightarrow> plan_http p \<noteq> None \<or> plan_https p \<noteq> None"

fun both_cases :: "str \<Rightarrow> str \<Rightarrow> str option \<Rightarrow> (str \<times> str) list" where
  "both_cases lower upper None = []"
| "both_cases lower upper (Some v) = [(lower, v), (upper, v)]"

definition plan_apply :: "child_proxy_plan \<Rightarrow> (str \<times> str) list \<Rightarrow> (str \<times> str) list" where
  "plan_apply p parent =
     filter (\<lambda>(k, _). \<not> is_proxy_var k) parent
     @ both_cases (lit ''http_proxy'') (lit ''HTTP_PROXY'') (map_option child_url (plan_http p))
     @ both_cases (lit ''https_proxy'') (lit ''HTTPS_PROXY'') (map_option child_url (plan_https p))
     @ both_cases (lit ''no_proxy'') (lit ''NO_PROXY'') (plan_no_proxy p)"

definition child_env_get :: "(str \<times> str) list \<Rightarrow> str \<Rightarrow> str option" where
  "child_env_get vars name = map_of vars name"

definition plan_of_context :: "network_context \<Rightarrow> (network_error, child_proxy_plan) res" where
  "plan_of_context c = plan_from_settings (nc_settings c) (nc_environment c) (nc_store c)"

end
