(* ===== verification/Proxy_Facts.thy ===== *)
theory Proxy_Facts
  imports Host_Facts Proxy_Route
begin

text \<open>
  Percent coding, proxy URLs and the child's list are inverse to their parsers;
  whatever a URL parses to can be printed and parsed again.
\<close>

section \<open>Percent coding\<close>

lemma as_bytes_ascii: "\<forall>c \<in> set s. c < 128 \<Longrightarrow> as_bytes s = s"
  by (induction s) (auto simp: encode_char_def)

lemma scalar_bytes: "is_scalar c \<Longrightarrow> b \<in> set (encode_char c) \<Longrightarrow> b < 256"
  by (auto simp: encode_char_def is_scalar_def split: if_splits)

lemma text_bytes: "is_text s \<Longrightarrow> b \<in> set (as_bytes s) \<Longrightarrow> b < 256"
  by (auto simp: as_bytes_def is_text_def dest: scalar_bytes)

text \<open>The characters of an encoded string: unreserved ones and the escapes.\<close>

definition escaped_char :: "uchar \<Rightarrow> bool" where
  "escaped_char c \<longleftrightarrow> unreserved c \<or> c = 37"

lemma upper_digit_escaped: "v < 16 \<Longrightarrow> escaped_char (upper_digit_char v)"
  by (auto simp: escaped_char_def unreserved_def upper_digit_char_def is_ascii_alphanumeric_def is_ascii_digit_def)

lemma encode_byte_chars: "b < 256 \<Longrightarrow> c \<in> set (encode_byte b) \<Longrightarrow> escaped_char c"
  using upper_digit_escaped[of "b div 16"] upper_digit_escaped[of "b mod 16"]
  by (auto simp: encode_byte_def escaped_char_def split: if_splits)

lemma percent_encode_chars: "is_text s \<Longrightarrow> c \<in> set (percent_encode s) \<Longrightarrow> escaped_char c"
  using text_bytes encode_byte_chars by (auto simp: percent_encode_def)

lemma escaped_char_ascii: "escaped_char c \<Longrightarrow> c < 128"
  by (auto simp: escaped_char_def unreserved_def is_ascii_alphanumeric_def is_ascii_digit_def)

lemma percent_bytes_encode: "b < 256 \<Longrightarrow> percent_bytes (encode_byte b @ bs) = map_option ((#) b) (percent_bytes bs)"
proof -
  assume b: "b < 256"
  then have "b div 16 < 16" "b mod 16 < 16" by auto
  moreover have "b div 16 * 16 + b mod 16 = b" by simp
  moreover have "unreserved b \<Longrightarrow> b \<noteq> 37"
    by (auto simp: unreserved_def is_ascii_alphanumeric_def is_ascii_digit_def)
  ultimately show ?thesis by (simp add: encode_byte_def)
qed

lemma percent_bytes_concat:
  "\<forall>b \<in> set bs. b < 256 \<Longrightarrow> percent_bytes (concat (map encode_byte bs)) = Some bs"
  by (induction bs) (auto simp: percent_bytes_encode)

lemma percent_decode_encode: "is_text s \<Longrightarrow> percent_decode_once (percent_encode s) = Some s"
proof -
  assume s: "is_text s"
  have "as_bytes (percent_encode s) = percent_encode s"
    using percent_encode_chars[OF s] escaped_char_ascii by (intro as_bytes_ascii) blast
  then show ?thesis
    using s text_bytes[OF s] percent_bytes_concat[of "as_bytes s"]
    by (simp add: percent_decode_once_def percent_encode_def decode_as_bytes)
qed

interpretation percent: canonical_codec percent_encode percent_decode_once is_text
proof unfold_locales
  show "is_text s" if "percent_decode_once t = Some s" for s t
    using that by (auto simp: percent_decode_once_def bind_eq_Some_conv decode_is_text)
qed (rule percent_decode_encode)

lemma percent_bytes_nonempty: "percent_bytes bs = Some [] \<Longrightarrow> bs = []"
  by (cases bs rule: percent_bytes.cases) (auto split: if_splits list.splits bind_splits)

lemma decode_utf8_nonempty: "decode_utf8 bs = Some [] \<Longrightarrow> bs = []"
  by (cases bs rule: decode_utf8.cases) (auto simp: Let_def split: if_splits list.splits)

lemma as_bytes_nonempty [simp]: "as_bytes s = [] \<longleftrightarrow> s = []"
  by (metis length_0_conv length_as_bytes str_len_0_iff)

lemma percent_decode_nonempty: "percent_decode_once s = Some [] \<Longrightarrow> s = []"
  using percent_bytes_nonempty decode_utf8_nonempty
  by (fastforce simp: percent_decode_once_def bind_eq_Some_conv)

lemma percent_encode_nonempty: "is_text s \<Longrightarrow> s \<noteq> [] \<Longrightarrow> percent_encode s \<noteq> []"
  using percent_decode_encode by (metis as_bytes_simps(1) bind.bind_lunit decode_utf8.simps(1) option.inject
      percent_bytes.simps(1) percent_decode_once_def)

section \<open>URLs\<close>

definition endpoint_ok :: "proxy_endpoint \<Rightarrow> bool" where
  "endpoint_ok e \<longleftrightarrow> host_ok (pe_host e) \<and> 0 < pe_port e \<and> pe_port e < 65536"

definition userinfo_ok :: "str \<times> str \<Rightarrow> bool" where
  "userinfo_ok up \<longleftrightarrow> fst up \<noteq> [] \<and> is_text (fst up) \<and> is_text (snd up) \<and>
     (\<forall>c \<in> set (fst up @ snd up). \<not> is_control c)"

lemma parse_userinfo_ok: "parse_userinfo a ui = Ok (Some up) \<Longrightarrow> a \<and> userinfo_ok up"
  using percent_decode_nonempty percent.parse_ok
  by (fastforce simp: parse_userinfo_def userinfo_ok_def res_bind_Ok_iff ok_or_Ok_iff Let_def
      split: option.splits if_splits prod.splits)

lemma parse_no_userinfo [simp]: "parse_userinfo a None = Ok None"
  by (simp add: parse_userinfo_def)

lemma parse_port_ok: "parse_port p = Ok n \<Longrightarrow> 0 < n \<and> n < 65536"
  by (auto simp: parse_port_def Let_def split: if_splits)

lemma parse_authority_ok:
  assumes "parse_authority t a = Ok p"
  shows "endpoint_ok (pp_endpoint p) \<and> (\<forall>up. pp_userinfo p = Some up \<longrightarrow> a \<and> userinfo_ok up)"
proof -
  obtain raw hostport where
    s: "(case rsplit_once 64 t of Some (u, h) \<Rightarrow> (Some u, h) | None \<Rightarrow> (None, t)) = (raw, hostport)"
    by fastforce
  obtain host_text host port port_text ui where
    h: "host_parse host_text False = Some host" and
    port: "(case port_text of None \<Rightarrow> Ok default_port | Some p \<Rightarrow> parse_port p) = Ok port" and
    p: "p = \<lparr>pp_endpoint = \<lparr>pe_host = host, pe_port = port\<rparr>, pp_userinfo = ui\<rparr>" and
    ui: "parse_userinfo a raw = Ok ui"
    using assms unfolding parse_authority_def s
    by (auto simp: res_bind_Ok_iff ok_or_Ok_iff split: if_splits)
  have "0 < port \<and> port < 65536"
    using port parse_port_ok by (auto simp: default_port_def split: option.splits)
  then show ?thesis
    using host_parse_ok[OF h] ui parse_userinfo_ok[of a raw] by (auto simp: p endpoint_ok_def)
qed

lemma parse_proxy_url_ok:
  "parse_proxy_url t a = Ok p \<Longrightarrow>
    endpoint_ok (pp_endpoint p) \<and> (\<forall>up. pp_userinfo p = Some up \<longrightarrow> a \<and> userinfo_ok up)"
  by (auto simp: parse_proxy_url_def Let_def res_bind_Ok_iff split: if_splits dest!: parse_authority_ok)

text \<open>What may stand in the authority of a printed URL.\<close>

definition url_safe :: "uchar \<Rightarrow> bool" where
  "url_safe c \<longleftrightarrow> c \<noteq> 47 \<and> c \<noteq> 63 \<and> c \<noteq> 35 \<and> \<not> is_whitespace c \<and> \<not> is_control c"

lemma escaped_url_safe: "escaped_char c \<Longrightarrow> url_safe c \<and> c \<noteq> 58 \<and> c \<noteq> 64"
  by (auto simp: escaped_char_def unreserved_def is_ascii_alphanumeric_def is_ascii_digit_def url_safe_def
      is_whitespace_def is_control_def)

lemma addr_url_safe: "addr_char c \<or> c = 45 \<or> c = 95 \<or> c = 91 \<or> c = 93 \<Longrightarrow> url_safe c \<and> c \<noteq> 64"
  by (auto simp: not_addr_chars url_safe_def is_whitespace_def is_control_def)

lemma host_show_safe: "host_ok h \<Longrightarrow> c \<in> set (host_show h) \<Longrightarrow> url_safe c \<and> c \<noteq> 64"
proof (rule addr_url_safe, cases h)
  case (Dns d)
  assume "host_ok h" "c \<in> set (host_show h)"
  then show "addr_char c \<or> c = 45 \<or> c = 95 \<or> c = 91 \<or> c = 93"
    using Dns dns_name_chars[of d c] by (auto simp: host_show_def addr_char_def)
next
  case (Ipv4 a)
  assume "c \<in> set (host_show h)"
  then show "addr_char c \<or> c = 45 \<or> c = 95 \<or> c = 91 \<or> c = 93"
    using Ipv4 show_ipv4_chars[of c a] by (auto simp: host_show_def not_addr_chars)
next
  case (Ipv6 a)
  assume "c \<in> set (host_show h)"
  then show "addr_char c \<or> c = 45 \<or> c = 95 \<or> c = 91 \<or> c = 93"
    using Ipv6 show_ipv6_chars[of c a] by (auto simp: host_show_def)
qed

lemma port_chars: "c \<in> set (show_radix 10 n) \<Longrightarrow> is_ascii_digit c"
  using show_radix_is_digit[of 10 c n] is_digit_10 by auto

lemma port_safe: "c \<in> set (show_radix 10 n) \<Longrightarrow> url_safe c \<and> c \<noteq> 64 \<and> c \<noteq> 58"
  using port_chars[of c n] addr_url_safe[of c] by (auto simp: not_addr_chars)

lemma parse_port_show: "0 < n \<Longrightarrow> n < 65536 \<Longrightarrow> parse_port (show_radix 10 n) = Ok n"
  using port_chars by (simp add: parse_port_def digits_value_show list_all_iff)

text \<open>The host and port of an authority.\<close>

lemma split_hostport_show:
  assumes "host_ok h"
  shows "split_hostport (host_show h @ 58 # show_radix 10 n) = Ok (host_show h, Some (show_radix 10 n))"
proof (cases "\<exists>a. h = Ipv6 a")
  case True
  then obtain a where h: "h = Ipv6 a" by blast
  have "93 \<notin> set (91 # show_ipv6 a)" using show_ipv6_no[of 93 a] by (simp add: not_addr_chars)
  then have "split_once [93] ((91 # show_ipv6 a) @ 93 # 58 # show_radix 10 n) = Some (91 # show_ipv6 a, 58 # show_radix 10 n)"
    by (rule split_once_char)
  then show ?thesis by (simp add: h host_show_def split_hostport_def del: split_once.simps)
next
  case False
  have "91 \<notin> set (host_show h)"
    using False assms show_ipv4_no[of 91] dns_name_no[of _ 91]
    by (cases h) (auto simp: host_show_def not_addr_chars)
  then have "strip_prefix_char 91 (host_show h @ 58 # show_radix 10 n) = None"
    by (cases "host_show h") auto
  moreover have "58 \<notin> set (show_radix 10 n)" using port_safe by blast
  ultimately show ?thesis
    by (simp add: split_hostport_def rsplit_once_last)
qed

lemma host_show_nonempty: "host_ok h \<Longrightarrow> host_show h \<noteq> []"
  by (cases h) (auto simp: host_show_def dns_name_def)

lemma parse_userinfo_show:
  assumes "userinfo_ok (u, p)"
  shows "parse_userinfo True (Some (percent_encode u @ 58 # percent_encode p)) = Ok (Some (u, p))"
proof -
  have u: "u \<noteq> []" "is_text u" "is_text p" "\<not> (\<exists>c \<in> set (u @ p). is_control c)"
    using assms by (auto simp: userinfo_ok_def)
  have "58 \<notin> set (percent_encode u)" using percent_encode_chars[OF u(2)] escaped_url_safe by blast
  then show ?thesis
    using u percent_encode_nonempty[OF u(2,1)]
    by (auto simp: parse_userinfo_def split_once_char percent_decode_encode simp del: split_once.simps)
qed

text \<open>A whole URL.\<close>

lemma parse_http_url:
  assumes "\<forall>c \<in> set authority. url_safe c"
  shows "parse_proxy_url (lit ''http://'' @ authority) a = parse_authority authority a"
proof -
  let ?t = "lit ''http://'' @ authority"
  have lits: "lit ''http://'' = lit ''http'' @ lit ''://''" "hd (lit ''://'') \<notin> set (lit ''http'')"
    "lit ''://'' \<noteq> []" "\<forall>c \<in> set (lit ''http://''). \<not> is_whitespace c \<and> \<not> is_control c"
    by (simp_all add: lit_def is_whitespace_def is_control_def)
  have safe: "\<forall>c \<in> set ?t. \<not> is_whitespace c \<and> \<not> is_control c"
    using assms lits(4) by (auto simp: url_safe_def)
  then have "trim ?t = ?t" by (intro trim_id) blast
  moreover have "split_once (lit ''://'') ?t = Some (lit ''http'', authority)"
    using split_once_first[OF lits(2,3), of authority] lits(1) by simp
  moreover have whole: "takeWhile (\<lambda>c. c \<noteq> 47 \<and> c \<noteq> 63 \<and> c \<noteq> 35) authority = authority"
    using assms by (auto simp: takeWhile_eq_all_conv url_safe_def)
  moreover have "?t \<noteq> []" by (simp add: lit_def)
  ultimately show ?thesis
    using safe by (auto simp: parse_proxy_url_def eq_ignore_ascii_case_def Let_def whole)
qed

lemma hostport_chars:
  assumes "host_ok h" and "c \<in> set (host_show h @ 58 # show_radix 10 n)"
  shows "url_safe c \<and> c \<noteq> 64"
  using assms host_show_safe port_safe addr_url_safe[of 58] by (auto simp: addr_char_def)

lemma parse_endpoint_show:
  assumes "endpoint_ok e"
  shows "parse_proxy_url (endpoint_show e) a = Ok \<lparr>pp_endpoint = e, pp_userinfo = None\<rparr>"
proof -
  let ?hp = "host_show (pe_host e) @ 58 # show_radix 10 (pe_port e)"
  have h: "host_ok (pe_host e)" "0 < pe_port e" "pe_port e < 65536" using assms by (auto simp: endpoint_ok_def)
  have "\<forall>c \<in> set ?hp. url_safe c \<and> c \<noteq> 64" using hostport_chars[OF h(1)] by blast
  then have "rsplit_once 64 ?hp = None" "parse_proxy_url (endpoint_show e) a = parse_authority ?hp a"
    unfolding endpoint_show_def by (auto simp: rsplit_once_None intro!: parse_http_url simp del: set_append)
  then show ?thesis
    using h by (simp add: parse_authority_def split_hostport_show host_show_nonempty
        host_parse_show parse_port_show)
qed

lemma parse_url_with_userinfo:
  assumes "endpoint_ok e" and "userinfo_ok (u, p)"
  shows "parse_proxy_url (lit ''http://'' @ percent_encode u @ 58 # percent_encode p @ 64 #
      host_show (pe_host e) @ 58 # show_radix 10 (pe_port e)) True =
    Ok \<lparr>pp_endpoint = e, pp_userinfo = Some (u, p)\<rparr>"
proof -
  let ?hp = "host_show (pe_host e) @ 58 # show_radix 10 (pe_port e)"
  let ?ui = "percent_encode u @ 58 # percent_encode p"
  have h: "host_ok (pe_host e)" "0 < pe_port e" "pe_port e < 65536" using assms by (auto simp: endpoint_ok_def)
  have hp: "\<forall>c \<in> set ?hp. url_safe c \<and> c \<noteq> 64" using hostport_chars[OF h(1)] by blast
  have "is_text u" "is_text p" using assms(2) by (auto simp: userinfo_ok_def)
  then have ui: "\<forall>c \<in> set ?ui. url_safe c"
    using percent_encode_chars escaped_url_safe addr_url_safe[of 58] by (auto simp: addr_char_def)
  have "rsplit_once 64 (?ui @ 64 # ?hp) = Some (?ui, ?hp)"
    using hp by (intro rsplit_once_last) blast
  moreover have "parse_proxy_url (lit ''http://'' @ ?ui @ 64 # ?hp) True = parse_authority (?ui @ 64 # ?hp) True"
    using hp ui by (intro parse_http_url) (auto simp: url_safe_def is_whitespace_def is_control_def)
  ultimately show ?thesis
    using h parse_userinfo_show[OF assms(2)]
    by (simp add: parse_authority_def split_hostport_show host_show_nonempty host_parse_show parse_port_show)
qed

interpretation endpoint_text: canonical_codec endpoint_show
  "\<lambda>t. case parse_proxy_url t False of Ok p \<Rightarrow> Some (pp_endpoint p) | _ \<Rightarrow> None" endpoint_ok
  by unfold_locales (auto simp: parse_endpoint_show dest: parse_proxy_url_ok split: res.splits)

end
