(* ===== verification/Route_Facts.thy ===== *)
theory Route_Facts
  imports Proxy_Facts
begin

text \<open>
  The environment a child process is given, read back: which variables survive,
  what its bypass list matches, and that the selected values are the parent's.
\<close>

section \<open>The first set variable\<close>

lemma first_set_Some:
  "first_set m ns = Some (n, v) \<longleftrightarrow>
     (\<exists>before after. ns = before @ n # after \<and> m n = Some v \<and> v \<noteq> [] \<and>
        (\<forall>k \<in> set before. m k = None \<or> m k = Some []))"
proof (induction ns)
  case (Cons k ns)
  show ?case (is "?first = ?ex (k # ns)")
  proof (cases "m k = None \<or> m k = Some []")
    case True
    then have "?first = (first_set m ns = Some (n, v))" by auto
    also have "\<dots> = ?ex ns" by (rule Cons)
    also have "\<dots> = ?ex (k # ns)"
    proof
      assume "?ex ns"
      then obtain b a where "ns = b @ n # a \<and> m n = Some v \<and> v \<noteq> [] \<and> (\<forall>k \<in> set b. m k = None \<or> m k = Some [])"
        by blast
      then show "?ex (k # ns)" using True by (intro exI[of _ "k # b"] exI[of _ a]) auto
    next
      assume "?ex (k # ns)"
      then obtain b a where e: "k # ns = b @ n # a" "m n = Some v" "v \<noteq> []"
        "\<forall>k \<in> set b. m k = None \<or> m k = Some []"
        by blast
      then have "b \<noteq> []" using True by auto
      then have "ns = tl b @ n # a" "\<forall>k \<in> set (tl b). m k = None \<or> m k = Some []"
        using e by (cases b; simp)+
      then show "?ex ns" using e by blast
    qed
    finally show ?thesis .
  next
    case False
    then obtain w where w: "m k = Some w" "w \<noteq> []" by (cases "m k") auto
    then show ?thesis by (auto simp: Cons_eq_append_conv neq_Nil_conv)
  qed
qed simp

lemma first_set_None: "first_set m ns = None \<longleftrightarrow> (\<forall>n \<in> set ns. m n = None \<or> m n = Some [])"
  by (induction ns) (auto split: option.splits)

lemma env_bypass_ok: "env_bypass env = Ok l \<Longrightarrow> list_ok l"
  by (auto simp: env_bypass_def bypass_default_def list_ok_def split: option.splits res.splits dest!: bypass_parse_ok)

lemma proxy_for_ok:
  "proxy_for env scheme = Ok (Some p) \<Longrightarrow>
    endpoint_ok (pp_endpoint p) \<and> (\<forall>up. pp_userinfo p = Some up \<longrightarrow> userinfo_ok up)"
  by (auto simp: proxy_for_def split: option.splits res.splits dest!: parse_proxy_url_ok)

section \<open>The child's bypass list\<close>

definition loopback_entries :: "bypass_entry list" where
  "loopback_entries = [Domain (lit ''localhost''), Ip (IpV4 (V4 127 0 0 1)), Ip (IpV6 (V6 0 0 0 0 0 0 0 1))]"

lemma loopback_entries_ok: "\<forall>e \<in> set loopback_entries. entry_ok e"
  by (auto simp: loopback_entries_def dns_name_def numeric_def lit_def len_utf8_def label_ok_def ascii_lower_def
      not_addr_chars)

lemma loopback_entries_text: "join_with 44 (map entry_text loopback_entries) = loopback_bypass"
  by (simp add: loopback_entries_def loopback_bypass_def lit_def show_radix.simps digit_char_def
      show_ipv6_def to_ipv4_mapped_def show_groups_def)

lemma set_fold_add: "set (fold (\<lambda>e xs. if e \<in> set xs then xs else xs @ [e]) es xs) = set xs \<union> set es"
  by (induction es arbitrary: xs) auto

lemma bypass_parse_entries:
  assumes "\<forall>e \<in> set es. entry_ok e"
  shows "\<exists>l. bypass_parse (join_with 44 (map entry_text es)) = Ok l \<and> \<not> by_all l \<and> set (by_entries l) = set es"
proof (cases "es = []")
  case False
  then show ?thesis
    using assms parse_items_texts[OF assms, of "[]" bypass_default]
    by (simp add: bypass_parse_def split_texts set_fold_add) (simp add: bypass_default_def)
qed (simp add: bypass_parse_def bypass_default_def trim_def)

lemma to_env_value_all: "list_ok l \<Longrightarrow> to_env_value l = [42] \<longleftrightarrow> by_all l"
proof -
  assume l: "list_ok l"
  have "join_with 44 (map entry_text (by_entries l)) \<noteq> [42]"
  proof
    assume j: "join_with 44 (map entry_text (by_entries l)) = [42]"
    then have "42 \<in> insert 44 (\<Union>e \<in> set (by_entries l). set (entry_text e))"
      using set_join_with[of 44 "map entry_text (by_entries l)"] by auto
    then show False using l entry_text_no(1) by (auto simp: list_ok_def)
  qed
  then show ?thesis by (simp add: to_env_value_def)
qed

lemma to_env_value_empty: "list_ok l \<Longrightarrow> to_env_value l = [] \<longleftrightarrow> bypass_is_empty l"
proof -
  assume l: "list_ok l"
  have "join_with 44 (map entry_text (e # es)) \<noteq> []" if "entry_ok e" for e es
    using entry_text_nonempty[OF that] by (cases es) auto
  then show ?thesis
    using l by (cases "by_entries l") (auto simp: to_env_value_def bypass_is_empty_def list_ok_def)
qed

text \<open>What the child's list matches: the parent's entries and the three loopback entries.\<close>

definition child_loopback :: "host \<Rightarrow> bool" where
  "child_loopback h \<longleftrightarrow> list_ex (\<lambda>e. entry_matches e h) loopback_entries"

lemma with_loopback_matches:
  assumes "list_ok l"
  shows "\<exists>l'. bypass_parse (with_loopback (to_env_value l)) = Ok l' \<and>
    (\<forall>h. bypass_matches l' h \<longleftrightarrow> bypass_matches l h \<or> child_loopback h)"
proof (cases "by_all l")
  case True
  then show ?thesis
    using bypass_parse_star by (auto simp: with_loopback_def to_env_value_def bypass_matches_def)
next
  case False
  let ?es = "by_entries l @ loopback_entries"
  have v: "with_loopback (to_env_value l) = join_with 44 (map entry_text ?es)"
  proof (cases "by_entries l = []")
    case True
    then show ?thesis
      using False by (simp add: with_loopback_def to_env_value_def loopback_entries_text)
  next
    case ne: False
    have "to_env_value l \<noteq> [42]" "to_env_value l \<noteq> []"
      using to_env_value_all[OF assms] to_env_value_empty[OF assms] False ne by (auto simp: bypass_is_empty_def)
    moreover have "join_with 44 (map entry_text ?es) =
        join_with 44 (map entry_text (by_entries l)) @ 44 # loopback_bypass"
      using ne loopback_entries_text by (simp add: join_with_append loopback_entries_def)
    ultimately show ?thesis using False by (simp add: with_loopback_def to_env_value_def)
  qed
  have "\<forall>e \<in> set ?es. entry_ok e" using assms loopback_entries_ok by (auto simp: list_ok_def)
  from bypass_parse_entries[OF this] obtain l' where
    l': "bypass_parse (join_with 44 (map entry_text ?es)) = Ok l'" "\<not> by_all l'" "set (by_entries l') = set ?es"
    by blast
  then show ?thesis
    using False v by (auto simp: bypass_matches_iff child_loopback_def list_ex_iff)
qed

text \<open>The three entries are loopback hosts, but for the subdomains of \<open>localhost\<close>.\<close>

definition localhost_subdomain :: "host \<Rightarrow> bool" where
  "localhost_subdomain h \<longleftrightarrow> h \<noteq> Dns (lit ''localhost'') \<and> entry_matches (Domain (lit ''localhost'')) h"

lemma child_loopback_iff:
  "child_loopback h \<and> \<not> is_loopback h \<longleftrightarrow> localhost_subdomain h"
  by (cases h) (auto simp: child_loopback_def is_loopback_def localhost_subdomain_def loopback_entries_def)

section \<open>The child's variables\<close>

lemma recognized_stripped: "n \<in> set recognized \<Longrightarrow> is_proxy_var n"
  by (auto simp: is_proxy_var_def recognized_def proxy_vars_def eq_ignore_ascii_case_def lit_def ascii_lower_def)

lemma is_proxy_var_lower: "is_proxy_var (to_ascii_lowercase n) \<longleftrightarrow> is_proxy_var n"
  by (simp add: is_proxy_var_def eq_ignore_ascii_case_def)

lemma capture_stripped: "\<not> is_proxy_var k \<Longrightarrow> capture_var p (k, v) m = m"
  using recognized_stripped[of k] recognized_stripped[of "to_ascii_lowercase k"] is_proxy_var_lower[of k]
  by (cases p) (auto simp: Let_def)

lemma fold_capture_stripped:
  "fold (capture_var p) (filter (\<lambda>(k, _). \<not> is_proxy_var k) vars) m = m"
  by (induction vars arbitrary: m) (auto simp: capture_stripped simp del: capture_var.simps)

lemma lower_names [simp]:
  "to_ascii_lowercase (lit ''http_proxy'') = lit ''http_proxy''"
  "to_ascii_lowercase (lit ''HTTP_PROXY'') = lit ''http_proxy''"
  "to_ascii_lowercase (lit ''https_proxy'') = lit ''https_proxy''"
  "to_ascii_lowercase (lit ''HTTPS_PROXY'') = lit ''https_proxy''"
  "to_ascii_lowercase (lit ''no_proxy'') = lit ''no_proxy''"
  "to_ascii_lowercase (lit ''NO_PROXY'') = lit ''no_proxy''"
  by (simp_all add: lit_def ascii_lower_def)

lemma capture_own [simp]:
  "capture_var MacOs (lit ''http_proxy'', v) m = m(lit ''http_proxy'' \<mapsto> v)"
  "capture_var MacOs (lit ''HTTP_PROXY'', v) m = m(lit ''HTTP_PROXY'' \<mapsto> v)"
  "capture_var MacOs (lit ''https_proxy'', v) m = m(lit ''https_proxy'' \<mapsto> v)"
  "capture_var MacOs (lit ''HTTPS_PROXY'', v) m = m(lit ''HTTPS_PROXY'' \<mapsto> v)"
  "capture_var MacOs (lit ''no_proxy'', v) m = m(lit ''no_proxy'' \<mapsto> v)"
  "capture_var MacOs (lit ''NO_PROXY'', v) m = m(lit ''NO_PROXY'' \<mapsto> v)"
  "capture_var Windows (lit ''http_proxy'', v) m = m(lit ''http_proxy'' \<mapsto> v)"
  "capture_var Windows (lit ''https_proxy'', v) m = m(lit ''https_proxy'' \<mapsto> v)"
  "capture_var Windows (lit ''no_proxy'', v) m = m(lit ''no_proxy'' \<mapsto> v)"
  "capture_var Windows (lit ''HTTP_PROXY'', v) m =
     (if m (lit ''http_proxy'') = None then m(lit ''http_proxy'' \<mapsto> v) else m)"
  "capture_var Windows (lit ''HTTPS_PROXY'', v) m =
     (if m (lit ''https_proxy'') = None then m(lit ''https_proxy'' \<mapsto> v) else m)"
  "capture_var Windows (lit ''NO_PROXY'', v) m =
     (if m (lit ''no_proxy'') = None then m(lit ''no_proxy'' \<mapsto> v) else m)"
  by (simp_all add: recognized_def Let_def)

declare capture_var.simps [simp del]

definition own_vars :: "child_proxy_plan \<Rightarrow> env_platform \<Rightarrow> str \<rightharpoonup> str" where
  "own_vars plan pl = env_vars (env_from_vars pl (plan_apply plan []))"

lemma env_from_plan: "env_from_vars pl (plan_apply plan parent) = \<lparr>env_platform = pl, env_vars = own_vars plan pl\<rparr>"
  by (simp add: env_from_vars_def plan_apply_def own_vars_def fold_capture_stripped)

lemma own_vars_selected:
  assumes "\<forall>p. plan_http plan = Some p \<longrightarrow> child_url p \<noteq> []" and "\<forall>p. plan_https plan = Some p \<longrightarrow> child_url p \<noteq> []"
  shows "first_set (own_vars plan pl) (proxy_names pl Http) =
      map_option (\<lambda>p. (lit ''http_proxy'', child_url p)) (plan_http plan)"
    and "first_set (own_vars plan pl) (proxy_names pl Https) =
      map_option (\<lambda>p. (lit ''https_proxy'', child_url p)) (plan_https plan)"
    and "plan_no_proxy plan \<noteq> Some [] \<Longrightarrow>
      first_set (own_vars plan pl) (bypass_names pl) = map_option (\<lambda>v. (lit ''no_proxy'', v)) (plan_no_proxy plan)"
proof -
  show "first_set (own_vars plan pl) (proxy_names pl Http) =
      map_option (\<lambda>p. (lit ''http_proxy'', child_url p)) (plan_http plan)"
    using assms(1) by (cases pl; cases "plan_http plan"; cases "plan_https plan"; cases "plan_no_proxy plan")
      (simp_all add: own_vars_def env_from_vars_def plan_apply_def)
  show "first_set (own_vars plan pl) (proxy_names pl Https) =
      map_option (\<lambda>p. (lit ''https_proxy'', child_url p)) (plan_https plan)"
    using assms(2) by (cases pl; cases "plan_http plan"; cases "plan_https plan"; cases "plan_no_proxy plan")
      (simp_all add: own_vars_def env_from_vars_def plan_apply_def)
  show "plan_no_proxy plan \<noteq> Some [] \<Longrightarrow>
      first_set (own_vars plan pl) (bypass_names pl) = map_option (\<lambda>v. (lit ''no_proxy'', v)) (plan_no_proxy plan)"
    by (cases pl; cases "plan_http plan"; cases "plan_https plan"; cases "plan_no_proxy plan")
      (simp_all add: own_vars_def env_from_vars_def plan_apply_def)
qed

section \<open>The child's proxies\<close>

definition creds_pair :: "basic_credentials \<Rightarrow> str \<times> str" where
  "creds_pair c = (cr_username c, cr_password c)"

definition child_ok :: "child_proxy \<Rightarrow> bool" where
  "child_ok p \<longleftrightarrow> endpoint_ok (cp_endpoint p) \<and> (\<forall>c. cp_credentials p = Some c \<longrightarrow> userinfo_ok (creds_pair c))"

lemma parse_child_url:
  assumes "child_ok p"
  shows "parse_proxy_url (child_url p) True =
    Ok \<lparr>pp_endpoint = cp_endpoint p, pp_userinfo = map_option creds_pair (cp_credentials p)\<rparr>"
  using assms parse_endpoint_show[of "cp_endpoint p" True]
    parse_url_with_userinfo[of "cp_endpoint p" "cr_username (the (cp_credentials p))" "cr_password (the (cp_credentials p))"]
  by (cases "cp_credentials p") (auto simp: child_url_def child_ok_def creds_pair_def)

lemma child_url_nonempty: "child_url p \<noteq> []"
  by (simp add: child_url_def endpoint_show_def lit_def split: option.splits)

definition plan_child :: "child_proxy_plan \<Rightarrow> url_scheme \<Rightarrow> child_proxy option" where
  "plan_child plan scheme = (case scheme of Http \<Rightarrow> plan_http plan | Https \<Rightarrow> plan_https plan)"

lemma child_proxy_for:
  assumes "\<forall>p. plan_child plan scheme = Some p \<longrightarrow> child_ok p"
  shows "proxy_for (env_from_vars pl (plan_apply plan parent)) scheme =
    Ok (map_option (\<lambda>p. \<lparr>pp_endpoint = cp_endpoint p, pp_userinfo = map_option creds_pair (cp_credentials p)\<rparr>)
      (plan_child plan scheme))"
proof -
  have n: "\<forall>p. plan_http plan = Some p \<longrightarrow> child_url p \<noteq> []" "\<forall>p. plan_https plan = Some p \<longrightarrow> child_url p \<noteq> []"
    using child_url_nonempty by blast+
  have "first_set (own_vars plan pl) (proxy_names pl scheme) =
      map_option (\<lambda>p. (lit (case scheme of Http \<Rightarrow> ''http_proxy'' | Https \<Rightarrow> ''https_proxy''), child_url p)) (plan_child plan scheme)"
    using own_vars_selected(1,2)[OF n] by (cases scheme) (simp_all add: plan_child_def)
  then show ?thesis
    using assms by (cases "plan_child plan scheme") (simp_all add: proxy_for_def env_from_plan parse_child_url)
qed

lemma with_loopback_nonempty: "with_loopback t \<noteq> []"
  by (simp add: with_loopback_def loopback_bypass_def lit_def)

lemma child_bypass:
  assumes "list_ok l" and "plan_no_proxy plan = Some (with_loopback (to_env_value l))"
  shows "\<exists>l'. env_bypass (env_from_vars pl (plan_apply plan parent)) = Ok l' \<and>
    (\<forall>h. bypass_matches l' h \<longleftrightarrow> bypass_matches l h \<or> child_loopback h)"
proof -
  have n: "\<forall>p. plan_http plan = Some p \<longrightarrow> child_url p \<noteq> []" "\<forall>p. plan_https plan = Some p \<longrightarrow> child_url p \<noteq> []"
    using child_url_nonempty by blast+
  have "first_set (own_vars plan pl) (bypass_names pl) = Some (lit ''no_proxy'', with_loopback (to_env_value l))"
    using own_vars_selected(3)[OF n, of pl] assms(2) with_loopback_nonempty by simp
  then show ?thesis
    using with_loopback_matches[OF assms(1)] by (auto simp: env_bypass_def env_from_plan)
qed

end
