(* ===== verification/Network_Claims.thy ===== *)
theory Network_Claims
  imports Route_Facts
begin

text \<open>
  The properties of the network crate: a child process is routed like its
  parent, direct connections have a reason, bypass lists are label suffixes that
  survive being saved, and proxy URLs survive being printed.
\<close>

section \<open>What is assumed of the inputs\<close>

text \<open>
  The fields of a manual proxy are private: every one was made by \<open>ManualProxy::new\<close>.
  A store returns strings that it has checked for Basic (the backend in
  \<open>crates/ui/src/proxy_secret.rs\<close> does).
\<close>

definition settings_made :: "network_settings \<Rightarrow> bool" where
  "settings_made s \<longleftrightarrow> (\<forall>m. ns_manual s = Some m \<longrightarrow> (\<exists>url bypass auth. manual_new url bypass auth = Ok m))"

definition store_checked :: "credential_store \<Rightarrow> bool" where
  "store_checked store \<longleftrightarrow>
     (\<forall>r. case store r of
            Ok c \<Rightarrow> check_for_basic c = Ok () \<and> is_text (cr_username c) \<and> is_text (cr_password c)
          | Err e \<Rightarrow> True | _ \<Rightarrow> False)"

lemma manual_new_ok: "manual_new url bypass auth = Ok m \<Longrightarrow> endpoint_ok (mp_endpoint m) \<and> list_ok (mp_bypass m)"
  by (auto simp: manual_new_def split: res.splits dest!: parse_proxy_url_ok bypass_parse_ok)

lemma check_for_basic_ok:
  "check_for_basic c = Ok () \<Longrightarrow> is_text (cr_username c) \<Longrightarrow> is_text (cr_password c) \<Longrightarrow> userinfo_ok (creds_pair c)"
  by (auto simp: check_for_basic_def userinfo_ok_def creds_pair_def split: if_splits)

lemma load_credentials_checked:
  assumes "store_checked store" and "load_credentials (auth_source auth) store = Ok c"
  shows "\<forall>x. c = Some x \<longrightarrow> userinfo_ok (creds_pair x)"
proof (cases auth)
  case (AuthBasic r)
  then show ?thesis
    using assms check_for_basic_ok by (cases "store r") (auto simp: store_checked_def dest: spec[of _ r])
qed (use assms in auto)

section \<open>Children are routed like their parent\<close>

text \<open>A route whose credentials have been fetched.\<close>

fun fetched :: "credential_store \<Rightarrow> (network_error, resolved_route) res \<Rightarrow> (network_error, resolved_route) res" where
  "fetched store (Ok (HttpProxy e source)) =
     res_map (\<lambda>c. HttpProxy e (userinfo_source (map_option creds_pair c))) (load_credentials source store)"
| "fetched store r = r"

definition plan_ok :: "child_proxy_plan \<Rightarrow> bool" where
  "plan_ok plan \<longleftrightarrow> (\<forall>scheme p. plan_child plan scheme = Some p \<longrightarrow> child_ok p)"

definition child_route :: "env_platform \<Rightarrow> child_proxy_plan \<Rightarrow> (str \<times> str) list \<Rightarrow> destination \<Rightarrow> (network_error, resolved_route) res" where
  "child_route pl plan parent dest = resolve settings_default (env_from_vars pl (plan_apply plan parent)) dest"

lemma child_route_eq:
  assumes "plan_ok plan" and "list_ok l" and "plan_no_proxy plan = Some (with_loopback (to_env_value l))"
    and "\<not> localhost_subdomain (dest_host dest)"
  shows "child_route pl plan parent dest =
    (if is_loopback (dest_host dest) \<or> bypass_matches l (dest_host dest) then Ok Direct
     else case plan_child plan (dest_scheme dest) of
       None \<Rightarrow> Ok Direct
     | Some p \<Rightarrow> Ok (HttpProxy (cp_endpoint p) (userinfo_source (map_option creds_pair (cp_credentials p)))))"
proof -
  obtain l' where l': "env_bypass (env_from_vars pl (plan_apply plan parent)) = Ok l'"
    "\<And>h. bypass_matches l' h \<longleftrightarrow> bypass_matches l h \<or> child_loopback h"
    using child_bypass[OF assms(2,3)] by blast
  have "proxy_for (env_from_vars pl (plan_apply plan parent)) (dest_scheme dest) =
    Ok (map_option (\<lambda>p. \<lparr>pp_endpoint = cp_endpoint p, pp_userinfo = map_option creds_pair (cp_credentials p)\<rparr>)
      (plan_child plan (dest_scheme dest)))"
    using assms(1) by (intro child_proxy_for) (auto simp: plan_ok_def)
  then show ?thesis
    using l' child_loopback_iff[of "dest_host dest"] assms(4)
    by (auto simp: child_route_def resolve_def settings_default_def check_schema_def split: option.splits)
qed

lemma child_route_direct:
  "child_route pl plan_direct parent dest = Ok Direct"
proof -
  have "first_set (own_vars plan_direct pl) (bypass_names pl) = None"
    "first_set (own_vars plan_direct pl) (proxy_names pl scheme) = None" for scheme
    using own_vars_selected[of plan_direct pl] by (cases scheme; simp add: plan_direct_def)+
  then have "env_bypass (env_from_vars pl (plan_apply plan_direct parent)) = Ok bypass_default"
    "proxy_for (env_from_vars pl (plan_apply plan_direct parent)) scheme = Ok None" for scheme
    by (simp_all add: env_bypass_def proxy_for_def env_from_plan)
  then show ?thesis
    by (simp add: child_route_def resolve_def settings_default_def check_schema_def bypass_default_def bypass_matches_def)
qed

lemma child_from_env_ok: "child_from_env env scheme = Ok (Some p) \<Longrightarrow> child_ok p"
proof -
  assume "child_from_env env scheme = Ok (Some p)"
  then obtain q where q: "proxy_for env scheme = Ok (Some q)" "cp_endpoint p = pp_endpoint q"
    "cp_credentials p = map_option (\<lambda>(user, pass). \<lparr>cr_username = user, cr_password = pass\<rparr>) (pp_userinfo q)"
    by (cases "proxy_for env scheme") (auto simp: child_from_env_def)
  then show ?thesis
    using proxy_for_ok[OF q(1)] by (auto simp: child_ok_def creds_pair_def)
qed

text \<open>What a plan is, by mode.\<close>

lemma plan_manual:
  assumes "plan_from_settings s env store = Ok plan" and "ns_mode s = ManualMode"
  obtains m c where "ns_schema s = settings_schema" "ns_manual s = Some m"
    "load_credentials (auth_source (mp_auth m)) store = Ok c"
    "plan_child plan = (\<lambda>_. Some \<lparr>cp_endpoint = mp_endpoint m, cp_credentials = c\<rparr>)"
    "plan_no_proxy plan = Some (with_loopback (to_env_value (mp_bypass m)))"
  using assms
  by (auto simp: plan_from_settings_def check_schema_def res_bind_Ok_iff ok_or_Ok_iff plan_child_def Let_def fun_eq_iff
      split: if_splits url_scheme.splits)

lemma plan_environment:
  assumes "plan_from_settings s env store = Ok plan" and "ns_mode s = EnvironmentMode"
  obtains l where "ns_schema s = settings_schema" "env_bypass env = Ok l"
    "\<And>scheme. child_from_env env scheme = Ok (plan_child plan scheme)"
    "plan = plan_direct \<or> plan_no_proxy plan = Some (with_loopback (to_env_value l))"
proof -
  obtain l http https where l: "env_bypass env = Ok l" "child_from_env env Http = Ok http"
    "child_from_env env Https = Ok https" "ns_schema s = settings_schema"
    and plan: "plan = (if http = None \<and> https = None then plan_direct
      else \<lparr>plan_http = http, plan_https = https, plan_no_proxy = Some (with_loopback (to_env_value l))\<rparr>)"
    using assms by (auto simp: plan_from_settings_def check_schema_def res_bind_Ok_iff split: if_splits)
  have "child_from_env env scheme = Ok (plan_child plan scheme)" for scheme
    using l plan by (cases scheme) (auto simp: plan_child_def plan_direct_def)
  then show ?thesis using l plan that by auto
qed

lemma res_map_Ok_iff: "res_map f r = Ok b \<longleftrightarrow> (\<exists>a. r = Ok a \<and> b = f a)"
  by (cases r) auto

text \<open>C21: A child process that reads its environment with the same rules takes the
  same route as its parent: with the variables of the plan, whatever the parent's
  own environment held, every destination is sent to the proxy, with the
  credentials, or directly, exactly as the settings say.  The one exception is
  stated next.\<close>

theorem child_is_routed_like_its_parent:
  assumes "plan_from_settings s env store = Ok plan" and "settings_made s" and "store_checked store"
    and "\<not> localhost_subdomain (dest_host dest)"
  shows "resolve settings_default (env_from_vars pl (plan_apply plan parent)) dest = fetched store (resolve s env dest)"
proof (cases "ns_mode s")
  case DirectMode
  then have "plan = plan_direct" "ns_schema s = settings_schema"
    using assms(1) by (auto simp: plan_from_settings_def check_schema_def res_bind_Ok_iff split: if_splits)
  then show ?thesis
    using child_route_direct[of pl parent dest] DirectMode
    by (simp add: child_route_def[symmetric] resolve_def[of s] check_schema_def)
next
  case ManualMode
  from plan_manual[OF assms(1) this] obtain m c where m: "ns_schema s = settings_schema" "ns_manual s = Some m"
    "load_credentials (auth_source (mp_auth m)) store = Ok c"
    "plan_child plan = (\<lambda>_. Some \<lparr>cp_endpoint = mp_endpoint m, cp_credentials = c\<rparr>)"
    "plan_no_proxy plan = Some (with_loopback (to_env_value (mp_bypass m)))" by blast
  have mok: "endpoint_ok (mp_endpoint m)" "list_ok (mp_bypass m)"
    using assms(2) m(2) manual_new_ok by (auto simp: settings_made_def)
  have "plan_ok plan"
    using m(4) mok(1) load_credentials_checked[OF assms(3) m(3)] by (auto simp: plan_ok_def child_ok_def)
  from child_route_eq[OF this mok(2) m(5) assms(4)] show ?thesis
    using m ManualMode by (simp add: child_route_def[symmetric] resolve_def[of s] check_schema_def)
next
  case EnvironmentMode
  from plan_environment[OF assms(1) this] obtain l where l: "ns_schema s = settings_schema" "env_bypass env = Ok l"
    "\<And>scheme. child_from_env env scheme = Ok (plan_child plan scheme)"
    "plan = plan_direct \<or> plan_no_proxy plan = Some (with_loopback (to_env_value l))" by blast
  from l(3)[of "dest_scheme dest"] obtain q where q: "proxy_for env (dest_scheme dest) = Ok q"
    "plan_child plan (dest_scheme dest) = map_option (\<lambda>p. \<lparr>cp_endpoint = pp_endpoint p,
       cp_credentials = map_option (\<lambda>(user, pass). \<lparr>cr_username = user, cr_password = pass\<rparr>) (pp_userinfo p)\<rparr>) q"
    by (auto simp: child_from_env_def res_map_Ok_iff)
  have r: "fetched store (resolve s env dest) =
      (if is_loopback (dest_host dest) \<or> bypass_matches l (dest_host dest) then Ok Direct
       else case plan_child plan (dest_scheme dest) of
         None \<Rightarrow> Ok Direct
       | Some p \<Rightarrow> Ok (HttpProxy (cp_endpoint p) (userinfo_source (map_option creds_pair (cp_credentials p)))))"
  proof (cases q)
    case (Some p)
    then show ?thesis using l(1,2) q EnvironmentMode
      by (cases "pp_userinfo p") (auto simp: resolve_def check_schema_def creds_pair_def)
  qed (use l(1,2) q EnvironmentMode in \<open>auto simp: resolve_def check_schema_def\<close>)
  have pok: "plan_ok plan" unfolding plan_ok_def using l(3) child_from_env_ok by metis
  show ?thesis
    using l(4)
  proof
    assume "plan = plan_direct"
    then have "plan_child plan (dest_scheme dest) = None"
      by (cases "dest_scheme dest") (simp_all add: plan_child_def plan_direct_def)
    then show ?thesis
      using child_route_direct[of pl parent dest] r \<open>plan = plan_direct\<close>
      by (simp add: child_route_def)
  next
    assume "plan_no_proxy plan = Some (with_loopback (to_env_value l))"
    then show ?thesis
      using child_route_eq[OF pok env_bypass_ok[OF l(2)] _ assms(4)] r by (simp add: child_route_def)
  qed
qed

definition office_proxy :: proxy_endpoint where
  "office_proxy = \<lparr>pe_host = Dns (lit ''proxy''), pe_port = 3128\<rparr>"

definition office_login :: basic_credentials where
  "office_login = \<lparr>cr_username = lit ''u:1'', cr_password = lit ''p''\<rparr>"

definition office_child :: child_proxy where
  "office_child = \<lparr>cp_endpoint = office_proxy, cp_credentials = Some office_login\<rparr>"

definition office_env :: proxy_environment where
  "office_env = env_from_vars MacOs [(lit ''https_proxy'', child_url office_child)]"

lemma office_child_ok: "child_ok office_child"
  by (auto simp: child_ok_def office_child_def office_proxy_def office_login_def endpoint_ok_def dns_name_def numeric_def
      lit_def len_utf8_def label_ok_def ascii_lower_def not_addr_chars userinfo_ok_def creds_pair_def is_scalar_def
      is_control_def)

lemma office_vars: "env_vars office_env = [lit ''https_proxy'' \<mapsto> child_url office_child]" "env_platform office_env = MacOs"
  by (simp_all add: office_env_def env_from_vars_def)

lemma office_parts:
  "env_bypass office_env = Ok bypass_default"
  "proxy_for office_env Http = Ok None"
  "proxy_for office_env Https =
     Ok (Some \<lparr>pp_endpoint = office_proxy, pp_userinfo = Some (creds_pair office_login)\<rparr>)"
  using child_url_nonempty[of office_child] parse_child_url[OF office_child_ok]
  by (simp_all add: env_bypass_def proxy_for_def office_vars) (simp add: office_child_def)

lemma office_plan: "\<exists>plan. plan_from_settings settings_default office_env unavailable_store = Ok plan"
  by (simp add: plan_from_settings_def check_schema_def settings_default_def office_parts child_from_env_def)

lemma office_route:
  "resolve settings_default office_env \<lparr>dest_scheme = Https, dest_host = Dns (lit ''hane.dev'')\<rparr> =
     Ok (HttpProxy office_proxy (Inline office_login))"
  by (simp add: resolve_def check_schema_def settings_default_def office_parts is_loopback_def bypass_matches_def
      bypass_default_def creds_pair_def)

theorem child_is_routed_like_its_parent_witness:
  "\<exists>plan. plan_from_settings settings_default office_env unavailable_store = Ok plan \<and>
    resolve settings_default (env_from_vars Windows (plan_apply plan [(lit ''ALL_PROXY'', lit ''x'')]))
        \<lparr>dest_scheme = Https, dest_host = Dns (lit ''hane.dev'')\<rparr> =
      Ok (HttpProxy office_proxy (Inline office_login))"
proof -
  let ?d = "\<lparr>dest_scheme = Https, dest_host = Dns (lit ''hane.dev'')\<rparr>"
  obtain plan where plan: "plan_from_settings settings_default office_env unavailable_store = Ok plan"
    using office_plan by blast
  have "\<not> localhost_subdomain (dest_host ?d)"
    by (simp add: localhost_subdomain_def ends_with_def lit_def)
  moreover have "settings_made settings_default" by (simp add: settings_made_def settings_default_def)
  moreover have "store_checked unavailable_store" by (simp add: store_checked_def unavailable_store_def)
  moreover have "fetched unavailable_store (resolve settings_default office_env ?d) =
      Ok (HttpProxy office_proxy (Inline office_login))"
    by (simp add: office_route creds_pair_def)
  ultimately show ?thesis
    using plan child_is_routed_like_its_parent[OF plan, of ?d Windows "[(lit ''ALL_PROXY'', lit ''x'')]"] by auto
qed

text \<open>The exception: a child that has a proxy sends the subdomains of \<open>localhost\<close>
  directly, because the loopback list that is appended to its \<open>no_proxy\<close> names the
  domain \<open>localhost\<close> and a domain matches its subdomains, although the parent does
  not count them as loopback hosts and sends them to the proxy.\<close>

theorem child_bypasses_localhost_subdomains:
  assumes "plan_from_settings s env store = Ok plan" and "settings_made s" and "store_checked store"
    and "localhost_subdomain (dest_host dest)"
  shows "resolve settings_default (env_from_vars pl (plan_apply plan parent)) dest = Ok Direct \<and>
    \<not> is_loopback (dest_host dest)"
proof -
  have h: "child_loopback (dest_host dest)" "\<not> is_loopback (dest_host dest)"
    using child_loopback_iff assms(4) by blast+
  have listed: "resolve settings_default (env_from_vars pl (plan_apply plan parent)) dest = Ok Direct"
    if "list_ok l" "plan_no_proxy plan = Some (with_loopback (to_env_value l))" for l
    using child_bypass[OF that, of pl parent] h
    by (auto simp: resolve_def settings_default_def check_schema_def)
  show ?thesis
  proof (cases "ns_mode s")
    case DirectMode
    then have "plan = plan_direct"
      using assms(1) by (auto simp: plan_from_settings_def res_bind_Ok_iff)
    then show ?thesis using child_route_direct[of pl parent dest] h by (simp add: child_route_def)
  next
    case ManualMode
    from plan_manual[OF assms(1) this] obtain m where "ns_manual s = Some m"
      "plan_no_proxy plan = Some (with_loopback (to_env_value (mp_bypass m)))" by metis
    then show ?thesis
      using listed[of "mp_bypass m"] assms(2) manual_new_ok h by (auto simp: settings_made_def)
  next
    case EnvironmentMode
    from plan_environment[OF assms(1) this] obtain l where "env_bypass env = Ok l"
      "plan = plan_direct \<or> plan_no_proxy plan = Some (with_loopback (to_env_value l))" by metis
    then show ?thesis
      using listed[of l] env_bypass_ok child_route_direct[of pl parent dest] h by (auto simp: child_route_def)
  qed
qed

theorem child_bypasses_localhost_subdomains_witness:
  "\<exists>plan. plan_from_settings settings_default office_env unavailable_store = Ok plan \<and>
    resolve settings_default (env_from_vars MacOs (plan_apply plan []))
      \<lparr>dest_scheme = Https, dest_host = Dns (lit ''a.localhost'')\<rparr> = Ok Direct \<and>
    resolve settings_default office_env \<lparr>dest_scheme = Https, dest_host = Dns (lit ''a.localhost'')\<rparr> =
      Ok (HttpProxy office_proxy (Inline office_login))"
proof -
  let ?d = "\<lparr>dest_scheme = Https, dest_host = Dns (lit ''a.localhost'')\<rparr>"
  obtain plan where plan: "plan_from_settings settings_default office_env unavailable_store = Ok plan"
    using office_plan by blast
  have "localhost_subdomain (dest_host ?d)"
    by (simp add: localhost_subdomain_def ends_with_def lit_def)
  moreover have "settings_made settings_default" by (simp add: settings_made_def settings_default_def)
  moreover have "store_checked unavailable_store" by (simp add: store_checked_def unavailable_store_def)
  moreover have "resolve settings_default office_env ?d = Ok (HttpProxy office_proxy (Inline office_login))"
    by (simp add: resolve_def check_schema_def settings_default_def office_parts is_loopback_def bypass_matches_def
      bypass_default_def creds_pair_def)
  ultimately show ?thesis
    using plan child_bypasses_localhost_subdomains[OF plan, of ?d MacOs "[]"] by auto
qed

section \<open>Routes\<close>

text \<open>C22: A destination is reached directly only for a reason: it is a loopback host,
  the settings say direct, its host is on the bypass list in force, or no proxy
  variable for its scheme is set at all.  No error and no broken value ends in a
  direct connection.\<close>

theorem direct_needs_a_reason:
  assumes "resolve s env dest = Ok Direct"
  shows "ns_schema s = settings_schema \<and>
    (is_loopback (dest_host dest) \<or> ns_mode s = DirectMode \<or>
     (ns_mode s = ManualMode \<and> (\<exists>m. ns_manual s = Some m \<and> bypass_matches (mp_bypass m) (dest_host dest))) \<or>
     (ns_mode s = EnvironmentMode \<and>
       (\<exists>l. env_bypass env = Ok l \<and>
         (bypass_matches l (dest_host dest) \<or>
          (\<forall>n \<in> set (proxy_names (env_platform env) (dest_scheme dest)).
             env_vars env n = None \<or> env_vars env n = Some [])))))"
  using assms
  by (auto simp: resolve_def check_schema_def res_bind_Ok_iff ok_or_Ok_iff proxy_for_def first_set_None
      split: if_splits proxy_mode.splits option.splits res.splits)

theorem direct_needs_a_reason_witness:
  "list_all (\<lambda>n. env_vars office_env n = None \<or> env_vars office_env n = Some []) (proxy_names MacOs Http)"
proof -
  let ?d = "\<lparr>dest_scheme = Http, dest_host = Dns (lit ''hane.dev'')\<rparr>"
  have "resolve settings_default office_env ?d = Ok Direct"
    by (simp add: resolve_def check_schema_def settings_default_def office_parts)
  from direct_needs_a_reason[OF this] show ?thesis
    by (simp add: list_all_iff settings_default_def office_parts is_loopback_def bypass_matches_def bypass_default_def office_vars)
qed

text \<open>The value of the first set variable in the documented order is final: the
  route of a proxied destination is parsed from it, and when it is broken the
  result is its error, whatever the later variables hold.\<close>

theorem first_set_variable_decides:
  assumes "proxy_names (env_platform env) scheme = before @ n # after" and "env_vars env n = Some v" and "v \<noteq> []"
    and "\<forall>k \<in> set before. env_vars env k = None \<or> env_vars env k = Some []"
  shows "proxy_for env scheme =
    (case parse_proxy_url v True of
       Ok p \<Rightarrow> Ok (Some p)
     | Err problem \<Rightarrow> Err (InvalidProxyUrl (EnvironmentSource n) problem)
     | Panic \<Rightarrow> Panic | Hang \<Rightarrow> Hang)"
proof -
  have "first_set (env_vars env) (proxy_names (env_platform env) scheme) = Some (n, v)"
    unfolding first_set_Some using assms by blast
  then show ?thesis by (simp add: proxy_for_def)
qed

theorem first_set_variable_decides_witness:
  "proxy_for \<lparr>env_platform = Windows, env_vars = [lit ''https_proxy'' \<mapsto> [32], lit ''all_proxy'' \<mapsto> lit ''http://p:1'']\<rparr> Https =
     Err (InvalidProxyUrl (EnvironmentSource (lit ''https_proxy'')) EmptyUrl)"
  using first_set_variable_decides[of "\<lparr>env_platform = Windows,
      env_vars = [lit ''https_proxy'' \<mapsto> [32], lit ''all_proxy'' \<mapsto> lit ''http://p:1'']\<rparr>" Https "[]" "lit ''https_proxy''"
      "[lit ''all_proxy'']" "[32]"]
  by (simp add: parse_proxy_url_def trim_def is_whitespace_def)

section \<open>Round trips\<close>

text \<open>C26: Whatever a proxy URL parses to, the URL that a child process is given for it
  parses to the same endpoint, user and password: every host spelling, reserved
  character and UTF-8 sequence survives.\<close>

theorem proxy_url_round_trip:
  assumes "parse_proxy_url text allow = Ok p"
  shows "parse_proxy_url (child_url \<lparr>cp_endpoint = pp_endpoint p,
      cp_credentials = map_option (\<lambda>(user, pass). \<lparr>cr_username = user, cr_password = pass\<rparr>) (pp_userinfo p)\<rparr>) True = Ok p"
proof -
  let ?c = "\<lparr>cp_endpoint = pp_endpoint p,
      cp_credentials = map_option (\<lambda>(user, pass). \<lparr>cr_username = user, cr_password = pass\<rparr>) (pp_userinfo p)\<rparr>"
  have "child_ok ?c"
    using parse_proxy_url_ok[OF assms] by (auto simp: child_ok_def creds_pair_def)
  moreover have "map_option creds_pair (cp_credentials ?c) = pp_userinfo p"
    by (cases "pp_userinfo p") (auto simp: creds_pair_def)
  ultimately show ?thesis using parse_child_url[of ?c] by simp
qed

theorem proxy_url_round_trip_witness:
  "parse_proxy_url (child_url office_child) True =
     Ok \<lparr>pp_endpoint = office_proxy, pp_userinfo = Some (creds_pair office_login)\<rparr>"
proof -
  have p: "parse_proxy_url (child_url office_child) True =
     Ok \<lparr>pp_endpoint = office_proxy, pp_userinfo = Some (creds_pair office_login)\<rparr>"
    using parse_child_url[OF office_child_ok] by (simp add: office_child_def)
  from proxy_url_round_trip[OF this] show ?thesis
    by (simp add: creds_pair_def office_child_def office_login_def)
qed

text \<open>Saving a bypass list and reading it back gives a list that matches the same
  hosts.  It is the same list unless the list was \<open>*\<close> together with other entries:
  those entries are lost.\<close>

theorem saved_bypass_list_matches_the_same:
  assumes "bypass_parse text = Ok l"
  shows "\<exists>l'. bypass_parse (bypass_to_text l) = Ok l' \<and> (\<forall>h. bypass_matches l' h \<longleftrightarrow> bypass_matches l h) \<and>
    (l' = l \<longleftrightarrow> \<not> (by_all l \<and> by_entries l \<noteq> []))"
  using bypass_parse_to_text[OF bypass_parse_ok[OF assms]]
  by (cases l) (auto simp: bypass_matches_def)

theorem saved_bypass_list_matches_the_same_witness:
  "\<exists>l l'. bypass_parse (lit ''a.b,*'') = Ok l \<and> bypass_parse (bypass_to_text l) = Ok l' \<and> l' \<noteq> l"
proof -
  have "bypass_parse (lit ''a.b,*'') = Ok \<lparr>by_all = True, by_entries = [Domain (lit ''a.b'')]\<rparr>"
    by (simp add: bypass_parse_def lit_def trim_def is_whitespace_def bypass_default_def parse_entry_def contains_str_def
        is_ascii_digit_def normalize_dns_def strip_suffix_char_def len_utf8_def ascii_lower_def label_ok_def
        is_ascii_alphanumeric_def)
  from saved_bypass_list_matches_the_same[OF this] this show ?thesis by auto
qed

text \<open>The bypass test on strings is the suffix order on labels: a parsed list
  matches a DNS host exactly when it is \<open>*\<close> or the labels of one of its domains end
  the labels of the host, so \<open>example.com\<close> matches \<open>www.example.com\<close> and never
  \<open>badexample.com\<close>.\<close>

theorem bypass_is_a_label_suffix:
  assumes "bypass_parse text = Ok l"
  shows "bypass_matches l (Dns h) \<longleftrightarrow>
    by_all l \<or> (\<exists>d. Domain d \<in> set (by_entries l) \<and> suffix (split_on 46 d) (split_on 46 h))"
proof -
  have ok: "\<forall>e \<in> set (by_entries l). entry_ok e" using bypass_parse_ok[OF assms] by (simp add: list_ok_def)
  have "entry_matches e (Dns h) \<longleftrightarrow> (\<exists>d. e = Domain d \<and> suffix (split_on 46 d) (split_on 46 h))"
    if "e \<in> set (by_entries l)" for e
  proof (cases e)
    case (Domain d)
    then show ?thesis using entry_matches_labels[of d h] ok that by auto
  qed (cases "e" rule: entry_text.cases; simp)
  then show ?thesis unfolding bypass_matches_iff by blast
qed

theorem bypass_is_a_label_suffix_witness:
  "bypass_matches \<lparr>by_all = False, by_entries = [Domain (lit ''a.b'')]\<rparr> (Dns (lit ''x.a.b''))"
proof -
  have "bypass_parse (lit ''A.b'') = Ok \<lparr>by_all = False, by_entries = [Domain (lit ''a.b'')]\<rparr>"
    by (simp add: bypass_parse_def lit_def trim_def is_whitespace_def bypass_default_def parse_entry_def contains_str_def
        is_ascii_digit_def normalize_dns_def strip_suffix_char_def len_utf8_def ascii_lower_def label_ok_def
        is_ascii_alphanumeric_def)
  from bypass_is_a_label_suffix[OF this, of "lit ''x.a.b''"] show ?thesis
    by (simp add: lit_def suffix_def)
qed



end
