(* ===== verification/Atomic_Install.thy ===== *)
theory Atomic_Install
  imports File_Service Text_Codecs
begin

text \<open>
  Replacing a file without losing an unchecked version
  (\<open>crates/session/src/service.rs\<close>, lines 910-1195).  The file system is the
  directory of the target, an association list from names to file objects; other
  processes act on it between any two calls of ours: \<open>ev_act\<close> is applied before
  every call, told which call it is and how many there were.  \<open>ev_fault\<close> makes a call fail
  for a reason of its own, \<open>ev_check\<close> is the caller's check of the object it finds.
  Symbolic links and the contents of an object are not modelled: a version is an
  object.  The ghost fields record what our own calls did: the versions that passed
  the check, those our calls took from the target's name, those that lost their last
  name by one of our calls, and whether one of our calls left the target's name
  without a file.
\<close>

section \<open>The directory\<close>

datatype node = FileNode nat | DirNode nat

type_synonym dir = "(str \<times> node) list"

definition dir_put :: "str \<Rightarrow> node \<Rightarrow> dir \<Rightarrow> dir" where
  "dir_put n o' d = (n, o') # filter (\<lambda>(k, _). k \<noteq> n) d"

definition dir_del :: "str \<Rightarrow> dir \<Rightarrow> dir" where
  "dir_del n d = filter (\<lambda>(k, _). k \<noteq> n) d"

datatype moment = AtRecover | AtLink | AtCheck | AtCompare | AtSwap | AtRemove | AtMove | AtPlace | AtRestore | AtCreate

record world =
  w_dir :: dir
  w_clock :: nat
  w_seq :: nat
  w_checked :: "node list"
  w_taken :: "node list"
  w_lost :: "node list"
  w_gap :: bool

record environs =
  ev_act :: "moment \<Rightarrow> nat \<Rightarrow> dir \<Rightarrow> dir"
  ev_fault :: "nat \<Rightarrow> bool"
  ev_check :: "nat \<Rightarrow> node option \<Rightarrow> save_failure + unit"
  ev_pid :: nat
  ev_target :: str
  ev_mine :: node

text \<open>The others act, the clock ticks.\<close>

definition tick :: "environs \<Rightarrow> moment \<Rightarrow> world \<Rightarrow> world" where
  "tick E m w = w\<lparr>w_dir := ev_act E m (w_clock w) (w_dir w), w_clock := w_clock w + 1\<rparr>"

text \<open>A call of ours turns the directory into another one; the ghosts are brought up to date.\<close>

definition commit_dir :: "environs \<Rightarrow> dir \<Rightarrow> world \<Rightarrow> world" where
  "commit_dir E d w =
     (let before = w_dir w; p = ev_target E;
          taken = w_taken w @ (case map_of before p of
                    Some o' \<Rightarrow> if map_of d p \<noteq> Some o' then [o'] else [] | None \<Rightarrow> [])
      in w\<lparr>w_dir := d, w_taken := taken,
           w_lost := w_lost w @ filter (\<lambda>o'. o' \<notin> snd ` set d \<and> o' \<in> set taken \<and> o' \<noteq> ev_mine E) (map snd before),
           w_gap := (w_gap w \<or> (map_of before p \<noteq> None \<and> map_of d p = None))\<rparr>)"

section \<open>Calls\<close>

type_synonym 'a call = "world \<Rightarrow> (os_error + 'a) \<times> world"

definition fail_with :: "io_kind \<Rightarrow> os_error + 'a" where
  "fail_with k = Inl \<lparr>os_kind = k, os_text = []\<rparr>"

definition hard_link :: "environs \<Rightarrow> str \<Rightarrow> str \<Rightarrow> unit call" where
  "hard_link E from to w =
     (let w = tick E AtLink w in
      if ev_fault E (w_clock w) then (fail_with OtherKind, w)
      else case map_of (w_dir w) from of
        None \<Rightarrow> (fail_with NotFound, w)
      | Some (DirNode i) \<Rightarrow> (fail_with OtherKind, w)
      | Some (FileNode i) \<Rightarrow>
          if map_of (w_dir w) to \<noteq> None then (fail_with AlreadyExists, w)
          else (Inr (), commit_dir E (dir_put to (FileNode i) (w_dir w)) w))"

definition rename_no_replace :: "environs \<Rightarrow> moment \<Rightarrow> str \<Rightarrow> str \<Rightarrow> unit call" where
  "rename_no_replace E m from to w =
     (let w = tick E m w in
      if ev_fault E (w_clock w) then (fail_with OtherKind, w)
      else case map_of (w_dir w) from of
        None \<Rightarrow> (fail_with NotFound, w)
      | Some o' \<Rightarrow>
          if map_of (w_dir w) to \<noteq> None then (fail_with AlreadyExists, w)
          else (Inr (), commit_dir E (dir_put to o' (dir_del from (w_dir w))) w))"

text \<open>\<open>rename\<close> over a directory fails; over another name of the same object it does nothing.\<close>

definition rename_replacing :: "environs \<Rightarrow> str \<Rightarrow> str \<Rightarrow> unit call" where
  "rename_replacing E from to w =
     (let w = tick E AtSwap w in
      if ev_fault E (w_clock w) then (fail_with OtherKind, w)
      else case map_of (w_dir w) from of
        None \<Rightarrow> (fail_with NotFound, w)
      | Some o' \<Rightarrow>
          if map_of (w_dir w) to = Some o' then (Inr (), w)
          else case map_of (w_dir w) to of
            Some (DirNode i) \<Rightarrow> (fail_with OtherKind, w)
          | _ \<Rightarrow> (Inr (), commit_dir E (dir_put to o' (dir_del from (w_dir w))) w))"

definition remove_file :: "environs \<Rightarrow> str \<Rightarrow> unit call" where
  "remove_file E n w =
     (let w = tick E AtRemove w in
      if ev_fault E (w_clock w) then (fail_with OtherKind, w)
      else case map_of (w_dir w) n of
        None \<Rightarrow> (fail_with NotFound, w)
      | Some (DirNode i) \<Rightarrow> (fail_with OtherKind, w)
      | Some (FileNode i) \<Rightarrow> (Inr (), commit_dir E (dir_del n (w_dir w)) w))"

text \<open>\<open>symlink_metadata\<close> of one name.\<close>

definition lookup_node :: "environs \<Rightarrow> moment \<Rightarrow> str \<Rightarrow> world \<Rightarrow> node option \<times> world" where
  "lookup_node E m n w = (let w = tick E m w in (map_of (w_dir w) n, w))"

text \<open>The caller's check of the object at a name; the ghost remembers what passed.\<close>

definition run_check :: "environs \<Rightarrow> str \<Rightarrow> world \<Rightarrow> (save_failure + unit) \<times> world" where
  "run_check E n w =
     (let w = tick E AtCheck w; found = map_of (w_dir w) n in
      case ev_check E (w_clock w) found of
        Inl f \<Rightarrow> (Inl f, w)
      | Inr u \<Rightarrow> (Inr (), w\<lparr>w_checked := w_checked w @ (case found of Some o' \<Rightarrow> [o'] | None \<Rightarrow> [])\<rparr>))"

text \<open>\<open>same_file_object\<close>: two metadata calls.\<close>

definition same_file_object :: "environs \<Rightarrow> str \<Rightarrow> str \<Rightarrow> world \<Rightarrow> bool \<times> world" where
  "same_file_object E a b w =
     (let (x, w) = lookup_node E AtCompare a w; (y, w) = lookup_node E AtCompare b w
      in (x \<noteq> None \<and> x = y, w))"

section \<open>Installing\<close>

definition temporary_name :: "str \<Rightarrow> nat \<Rightarrow> nat \<Rightarrow> str" where
  "temporary_name stem pid seq =
     lit ''.'' @ stem @ lit ''.hane-'' @ show_radix 10 pid @ lit ''-'' @ show_radix 10 seq @ lit ''.tmp''"

definition displaced_prefix :: "str \<Rightarrow> str" where
  "displaced_prefix stem = lit ''.'' @ stem @ lit ''.hane-displaced-''"

definition displaced_name :: "str \<Rightarrow> nat \<Rightarrow> nat \<Rightarrow> str" where
  "displaced_name stem pid seq =
     displaced_prefix stem @ show_radix 10 pid @ lit ''-'' @ show_radix 10 seq @ lit ''.tmp''"

definition displaced_path :: "environs \<Rightarrow> world \<Rightarrow> str \<times> world" where
  "displaced_path E w = (displaced_name (ev_target E) (ev_pid E) (w_seq w), w\<lparr>w_seq := w_seq w + 1\<rparr>)"

definition restore_displaced :: "environs \<Rightarrow> str \<Rightarrow> save_failure \<Rightarrow> world \<Rightarrow> save_failure \<times> world" where
  "restore_displaced E aside failure w =
     (case rename_no_replace E AtRestore aside (ev_target E) w of
        (Inr _, w) \<Rightarrow> (failure, w)
      | (Inl e, w) \<Rightarrow> (SaveIo (os_error_other (os_text e @ lit ''; the previous version remains at '' @ aside)), w))"

datatype round_outcome = Installed | Failed save_failure | Again

text \<open>One round of the loop.  The pin: link, check, compare, swap.\<close>

definition pinned_round :: "environs \<Rightarrow> str \<Rightarrow> str \<Rightarrow> world \<Rightarrow> round_outcome \<times> world" where
  "pinned_round E temporary aside w =
     (case run_check E aside w of
        (Inl failure, w) \<Rightarrow> (Failed failure, snd (remove_file E aside w))
      | (Inr _, w) \<Rightarrow>
          (case same_file_object E (ev_target E) aside w of
             (False, w) \<Rightarrow> (Again, snd (remove_file E aside w))
           | (True, w) \<Rightarrow>
               (case rename_replacing E temporary (ev_target E) w of
                  (installed, w) \<Rightarrow>
                    (case installed of Inr _ \<Rightarrow> Installed | Inl e \<Rightarrow> Failed (SaveIo e),
                     snd (remove_file E aside w)))))"

text \<open>Nothing at the target: check, then place without replacing.\<close>

definition absent_round :: "environs \<Rightarrow> str \<Rightarrow> world \<Rightarrow> round_outcome \<times> world" where
  "absent_round E temporary w =
     (case run_check E (ev_target E) w of
        (Inl failure, w) \<Rightarrow> (Failed failure, w)
      | (Inr _, w) \<Rightarrow>
          (case rename_no_replace E AtPlace temporary (ev_target E) w of
             (Inr _, w) \<Rightarrow> (Installed, w)
           | (Inl e, w) \<Rightarrow> (if os_kind e = AlreadyExists then Again else Failed (SaveIo e), w)))"

text \<open>The fallback: move aside, check, place, remove; put back on failure.\<close>

definition aside_round :: "environs \<Rightarrow> str \<Rightarrow> str \<Rightarrow> world \<Rightarrow> round_outcome \<times> world" where
  "aside_round E temporary aside w =
     (case rename_no_replace E AtMove (ev_target E) aside w of
        (Inr _, w) \<Rightarrow>
          (case run_check E aside w of
             (Inl failure, w) \<Rightarrow> (let (f, w) = restore_displaced E aside failure w in (Failed f, w))
           | (Inr _, w) \<Rightarrow>
               (case rename_no_replace E AtPlace temporary (ev_target E) w of
                  (Inr _, w) \<Rightarrow> (Installed, snd (remove_file E aside w))
                | (Inl e, w) \<Rightarrow>
                    if os_kind e = AlreadyExists then (Again, snd (remove_file E aside w))
                    else (let (f, w) = restore_displaced E aside (SaveIo e) w in (Failed f, w))))
      | (Inl e, w) \<Rightarrow>
          if os_kind e = NotFound then absent_round E temporary w else (Failed (SaveIo e), w))"

definition install_round :: "environs \<Rightarrow> bool \<Rightarrow> str \<Rightarrow> world \<Rightarrow> round_outcome \<times> world" where
  "install_round E identity temporary w =
     (let (aside, w) = displaced_path E w in
      if \<not> identity then aside_round E temporary aside w
      else case hard_link E (ev_target E) aside w of
        (Inr _, w) \<Rightarrow> pinned_round E temporary aside w
      | (Inl e, w) \<Rightarrow>
          if os_kind e = NotFound then absent_round E temporary w
          else aside_round E temporary aside w)"

definition max_install_attempts :: nat where
  "max_install_attempts = 3"

fun install_loop :: "environs \<Rightarrow> bool \<Rightarrow> str \<Rightarrow> nat \<Rightarrow> world \<Rightarrow> (save_failure + unit) \<times> world" where
  "install_loop E identity temporary 0 w = (Inl ExternalChangeFailure, w)"
| "install_loop E identity temporary (Suc n) w =
     (case install_round E identity temporary w of
        (Installed, w) \<Rightarrow> (Inr (), w)
      | (Failed f, w) \<Rightarrow> (Inl f, w)
      | (Again, w) \<Rightarrow> install_loop E identity temporary n w)"

definition install_checked :: "environs \<Rightarrow> bool \<Rightarrow> str \<Rightarrow> world \<Rightarrow> (save_failure + unit) \<times> world" where
  "install_checked E identity temporary w = install_loop E identity temporary max_install_attempts w"

section \<open>Recovery\<close>

definition is_number :: "str \<Rightarrow> bool" where
  "is_number t \<longleftrightarrow> t \<noteq> [] \<and> list_all is_ascii_digit t"

definition strip_prefix_str :: "str \<Rightarrow> str \<Rightarrow> str option" where
  "strip_prefix_str p s = (if take (length p) s = p then Some (drop (length p) s) else None)"

definition strip_suffix_str :: "str \<Rightarrow> str \<Rightarrow> str option" where
  "strip_suffix_str p s = (if ends_with s p then Some (take (length s - length p) s) else None)"

text \<open>The process id in a displaced file's name.\<close>

definition displaced_pid :: "str \<Rightarrow> str \<Rightarrow> str option" where
  "displaced_pid stem name =
     Option.bind (strip_prefix_str (displaced_prefix stem) name) (\<lambda>r.
     Option.bind (strip_suffix_str (lit ''.tmp'') r) (\<lambda>rest.
     Option.bind (split_once [45] rest) (\<lambda>(pid, sequence).
     if is_number pid \<and> is_number sequence then Some pid else None)))"

fun recover_candidates :: "environs \<Rightarrow> dir \<Rightarrow> str list \<Rightarrow> str list option" where
  "recover_candidates E [] found = Some found"
| "recover_candidates E ((name, o') # rest) found =
     (case displaced_pid (ev_target E) name of
        None \<Rightarrow> recover_candidates E rest found
      | Some pid \<Rightarrow>
          if pid = show_radix 10 (ev_pid E) then None
          else recover_candidates E rest
                 (case o' of FileNode i \<Rightarrow> found @ [name] | DirNode i \<Rightarrow> found))"

definition recover_displaced_file :: "environs \<Rightarrow> world \<Rightarrow> bool \<times> world" where
  "recover_displaced_file E w =
     (case lookup_node E AtRecover (ev_target E) w of
        (Some o', w) \<Rightarrow> (False, w)
      | (None, w) \<Rightarrow>
          (let w = tick E AtRecover w in
           case recover_candidates E (w_dir w) [] of
             Some [only] \<Rightarrow>
               (case rename_no_replace E AtRestore only (ev_target E) w of (r, w) \<Rightarrow> (r = Inr (), w))
           | _ \<Rightarrow> (False, w)))"

section \<open>The whole write\<close>

text \<open>\<open>create_new\<close>, the write and the sync; \<open>written\<close> is whether writing the bytes succeeded.\<close>

definition create_temporary :: "environs \<Rightarrow> str \<Rightarrow> (os_error + unit) \<Rightarrow> unit call" where
  "create_temporary E temporary written w =
     (let w = tick E AtCreate w in
      if ev_fault E (w_clock w) then (fail_with OtherKind, w)
      else if map_of (w_dir w) temporary \<noteq> None then (fail_with AlreadyExists, w)
      else (written, commit_dir E (dir_put temporary (ev_mine E) (w_dir w)) w))"

definition atomic_write_checked ::
  "environs \<Rightarrow> bool \<Rightarrow> (os_error + unit) \<Rightarrow> world \<Rightarrow> (save_failure + unit) \<times> world" where
  "atomic_write_checked E identity written w =
     (let w = snd (recover_displaced_file E w) in
      case lookup_node E AtRecover (ev_target E) w of
        (Some (DirNode i), w) \<Rightarrow> (Inl (SaveIo \<lparr>os_kind = IsADirectory, os_text = ev_target E @ lit '' is a directory''\<rparr>), w)
      | (_, w) \<Rightarrow>
          let temporary = temporary_name (ev_target E) (ev_pid E) (w_seq w);
              w = w\<lparr>w_seq := w_seq w + 1\<rparr>;
              (result, w) =
                (case create_temporary E temporary written w of
                   (Inl e, w) \<Rightarrow> (Inl (SaveIo e), w)
                 | (Inr _, w) \<Rightarrow> install_checked E identity temporary w)
          in (result, case result of Inr _ \<Rightarrow> w | Inl f \<Rightarrow> snd (remove_file E temporary w)))"

end
