(* ===== verification/Install_Facts.thy ===== *)
theory Install_Facts
  imports Atomic_Install
begin

text \<open>
  What each call of the installation does to the directory and to the ghosts,
  whatever the other processes do between the calls, as long as they leave the
  names with this process's id alone.
\<close>

section \<open>Names\<close>

definition private_name :: "environs \<Rightarrow> str \<Rightarrow> bool" where
  "private_name E n \<longleftrightarrow>
     (\<exists>s. n = displaced_name (ev_target E) (ev_pid E) s \<or> n = temporary_name (ev_target E) (ev_pid E) s)"

definition keeps_private :: "environs \<Rightarrow> bool" where
  "keeps_private E \<longleftrightarrow>
     (\<forall>m t d. (\<forall>n. private_name E n \<longrightarrow> map_of (ev_act E m t d) n = map_of d n) \<and>
       (distinct (map fst d) \<longrightarrow> distinct (map fst (ev_act E m t d))))"

lemma private_not_target: "private_name E n \<Longrightarrow> n \<noteq> ev_target E"
  unfolding private_name_def displaced_name_def temporary_name_def displaced_prefix_def
  by (auto simp: lit_def dest: arg_cong[of _ _ length])

lemma private_displaced [simp]: "private_name E (displaced_name (ev_target E) (ev_pid E) s)"
  and private_temporary [simp]: "private_name E (temporary_name (ev_target E) (ev_pid E) s)"
  by (auto simp: private_name_def)

lemma displaced_not_temporary: "displaced_name s p k \<noteq> temporary_name s p k'"
proof
  assume "displaced_name s p k = temporary_name s p k'"
  then have e: "lit ''displaced-'' @ show_radix 10 p @ lit ''-'' @ show_radix 10 k @ lit ''.tmp'' =
      show_radix 10 p @ lit ''-'' @ show_radix 10 k' @ lit ''.tmp''"
    by (simp add: displaced_name_def temporary_name_def displaced_prefix_def lit_def)
  have "hd (show_radix 10 p) = 100"
    using arg_cong[OF e, of hd] by (simp add: lit_def)
  moreover have "is_digit 10 (hd (show_radix 10 p))"
    by (rule show_radix_is_digit[of 10 _ p]) auto
  ultimately show False by (simp add: is_digit_10 is_ascii_digit_def)
qed

text \<open>The three names of a write are different.\<close>

lemma name_lengths: "length (displaced_name s p k) > length s" "length (temporary_name s p k) > length s"
  by (simp_all add: displaced_name_def temporary_name_def displaced_prefix_def lit_def)

lemma names_differ [simp]:
  "displaced_name s p k \<noteq> s" "s \<noteq> displaced_name s p k" "temporary_name s p k \<noteq> s" "s \<noteq> temporary_name s p k"
  "displaced_name s p k \<noteq> temporary_name s p k'" "temporary_name s p k' \<noteq> displaced_name s p k"
  using name_lengths[of s p k] displaced_not_temporary[of s p k k'] by (force, force, force, force, auto)

section \<open>Directories\<close>

lemma map_of_filter: "map_of (filter (\<lambda>(k, _). k \<noteq> n) d) = (map_of d)(n := None)"
  by (induction d) auto

lemma map_of_dir [simp]:
  "map_of (dir_put n o' d) = (map_of d)(n \<mapsto> o')" "map_of (dir_del n d) = (map_of d)(n := None)"
  by (simp_all add: dir_put_def dir_del_def map_of_filter fun_eq_iff)

lemma fst_filter: "map fst (filter (\<lambda>(k, _). k \<noteq> n) d) = filter (\<lambda>k. k \<noteq> n) (map fst d)"
  by (induction d) auto

lemma distinct_dir [simp]:
  "distinct (map fst d) \<Longrightarrow> distinct (map fst (dir_put n o' d))"
  "distinct (map fst d) \<Longrightarrow> distinct (map fst (dir_del n d))"
  by (simp_all add: dir_put_def dir_del_def fst_filter)

lemma node_in_dir: "distinct (map fst d) \<Longrightarrow> o' \<in> snd ` set d \<longleftrightarrow> (\<exists>n. map_of d n = Some o')"
proof
  assume "distinct (map fst d)" "o' \<in> snd ` set d"
  then show "\<exists>n. map_of d n = Some o'"
    using map_of_eq_Some_iff by (metis imageE prod.collapse)
next
  show "\<exists>n. map_of d n = Some o' \<Longrightarrow> o' \<in> snd ` set d" using map_of_SomeD by force
qed

section \<open>The invariant\<close>

text \<open>No unchecked version lost; the temporary name holds our file or nothing.\<close>

definition inst_inv :: "environs \<Rightarrow> str \<Rightarrow> world \<Rightarrow> bool" where
  "inst_inv E temp w \<longleftrightarrow> distinct (map fst (w_dir w)) \<and> set (w_lost w) \<subseteq> set (w_checked w) \<and>
     (map_of (w_dir w) temp = None \<or> map_of (w_dir w) temp = Some (ev_mine E))"

text \<open>Between rounds every version taken from the target has been checked.\<close>

definition settled :: "world \<Rightarrow> bool" where
  "settled w \<longleftrightarrow> set (w_taken w) \<subseteq> set (w_checked w)"

lemma seq_simps [simp]:
  "inst_inv E temp (w\<lparr>w_seq := j\<rparr>) = inst_inv E temp w" "settled (w\<lparr>w_seq := j\<rparr>) = settled w"
  by (simp_all add: inst_inv_def settled_def)

lemma tick_simps [simp]:
  "w_checked (tick E m w) = w_checked w" "w_taken (tick E m w) = w_taken w" "w_lost (tick E m w) = w_lost w"
  "w_seq (tick E m w) = w_seq w" "w_gap (tick E m w) = w_gap w" "w_clock (tick E m w) = w_clock w + 1"
  "w_dir (tick E m w) = ev_act E m (w_clock w) (w_dir w)"
  by (simp_all add: tick_def)

lemma tick_inv: "keeps_private E \<Longrightarrow> private_name E temp \<Longrightarrow> inst_inv E temp w \<Longrightarrow> inst_inv E temp (tick E m w)"
  by (auto simp: inst_inv_def keeps_private_def)

lemma tick_settled [simp]: "settled (tick E m w) \<longleftrightarrow> settled w"
  by (simp add: settled_def)

lemma tick_private: "keeps_private E \<Longrightarrow> private_name E n \<Longrightarrow> map_of (w_dir (tick E m w)) n = map_of (w_dir w) n"
  by (simp add: keeps_private_def)

lemma commit_simps [simp]:
  "w_checked (commit_dir E d w) = w_checked w" "w_dir (commit_dir E d w) = d" "w_seq (commit_dir E d w) = w_seq w"
  "w_clock (commit_dir E d w) = w_clock w"
  by (simp_all add: commit_dir_def Let_def)

lemma commit_taken: "w_taken (commit_dir E d w) = w_taken w @ (case map_of (w_dir w) (ev_target E) of
    Some o' \<Rightarrow> if map_of d (ev_target E) \<noteq> Some o' then [o'] else [] | None \<Rightarrow> [])"
  by (simp add: commit_dir_def Let_def)

lemma commit_keeps_taken:
  "map_of d (ev_target E) = map_of (w_dir w) (ev_target E) \<or> map_of (w_dir w) (ev_target E) = None \<Longrightarrow>
    w_taken (commit_dir E d w) = w_taken w"
  by (auto simp: commit_taken split: option.splits)

lemma commit_lost:
  assumes "distinct (map fst (w_dir w))" and "distinct (map fst d)"
  shows "set (w_lost (commit_dir E d w)) = set (w_lost w) \<union>
    {o'. (\<exists>n. map_of (w_dir w) n = Some o') \<and> \<not> (\<exists>n. map_of d n = Some o') \<and>
      o' \<in> set (w_taken (commit_dir E d w)) \<and> o' \<noteq> ev_mine E}"
  unfolding node_in_dir[OF assms(1), symmetric] node_in_dir[OF assms(2), symmetric]
  by (auto simp: commit_dir_def Let_def)

text \<open>A settled commit keeps the invariant; so does one that unbinds nothing but our own file.\<close>

lemma commit_settled:
  assumes "inst_inv E temp w" and "settled (commit_dir E d w)" and "distinct (map fst d)"
    and "map_of d temp = None \<or> map_of d temp = Some (ev_mine E)"
  shows "inst_inv E temp (commit_dir E d w)"
  using assms commit_lost[of w d E] by (auto simp: inst_inv_def settled_def)

lemma commit_unbinds_nothing:
  assumes "inst_inv E temp w" and "distinct (map fst d)"
    and "map_of d temp = None \<or> map_of d temp = Some (ev_mine E)"
    and "\<And>o'. \<exists>n. map_of (w_dir w) n = Some o' \<Longrightarrow> o' \<noteq> ev_mine E \<Longrightarrow> \<exists>n. map_of d n = Some o'"
  shows "inst_inv E temp (commit_dir E d w)"
  using assms commit_lost[of w d E] by (auto simp: inst_inv_def)

section \<open>The calls\<close>

lemma rename_no_replace_moves:
  assumes k: "keeps_private E" "private_name E temp" and i: "inst_inv E temp w"
    and names: "from \<noteq> to" "to \<noteq> temp" and r: "rename_no_replace E m from to w = (r, w')"
  shows "inst_inv E temp w'"
    and "w_checked w' = w_checked w"
    and "from \<noteq> ev_target E \<Longrightarrow> settled w' = settled w"
    and "r = Inl e \<Longrightarrow> settled w' = settled w"
    and "r = Inr u \<Longrightarrow> \<exists>o'. map_of (w_dir w') to = Some o' \<and> set (w_taken w') \<subseteq> insert o' (set (w_taken w))"
proof -
  let ?w = "tick E m w"
  have i': "inst_inv E temp ?w" using tick_inv[OF k i] .
  define o' where "o' = the (map_of (w_dir ?w) from)"
  let ?d = "dir_put to o' (dir_del from (w_dir ?w))"
  have cases: "(\<exists>e. r = Inl e \<and> w' = ?w) \<or>
    (r = Inr () \<and> w' = commit_dir E ?d ?w \<and> map_of (w_dir ?w) from = Some o' \<and> map_of (w_dir ?w) to = None)"
    using r by (auto simp: rename_no_replace_def Let_def fail_with_def o'_def split: if_splits option.splits)
  have moved: "inst_inv E temp (commit_dir E ?d ?w)"
    if "map_of (w_dir ?w) from = Some o'" "map_of (w_dir ?w) to = None"
  proof (rule commit_unbinds_nothing[OF i'])
    show "distinct (map fst ?d)" using i' by (simp add: inst_inv_def)
    show "map_of ?d temp = None \<or> map_of ?d temp = Some (ev_mine E)"
      using i' names by (auto simp: inst_inv_def)
    fix x assume "\<exists>n. map_of (w_dir ?w) n = Some x" "x \<noteq> ev_mine E"
    then obtain n where n: "map_of (w_dir ?w) n = Some x" by blast
    show "\<exists>n. map_of ?d n = Some x"
    proof (cases "n = from")
      case True
      then show ?thesis using n that by (intro exI[of _ to]) simp
    next
      case False
      then show ?thesis using n that by (intro exI[of _ n]) auto
    qed
  qed
  show "inst_inv E temp w'" using cases i' moved by auto
  show "w_checked w' = w_checked w" using cases by auto
  show "settled w' = settled w" if "from \<noteq> ev_target E"
    using cases that commit_keeps_taken[of ?d E ?w] by (cases "to = ev_target E") (auto simp: settled_def)
  show "settled w' = settled w" if "r = Inl e" using cases that by auto
  show "\<exists>o'. map_of (w_dir w') to = Some o' \<and> set (w_taken w') \<subseteq> insert o' (set (w_taken w))" if "r = Inr u"
    using cases that names by (auto simp: commit_taken split: option.splits)
qed

lemma hard_link_adds:
  assumes k: "keeps_private E" "private_name E temp" and i: "inst_inv E temp w"
    and names: "to \<noteq> temp" "to \<noteq> ev_target E" and r: "hard_link E from to w = (r, w')"
  shows "inst_inv E temp w'" and "settled w' = settled w"
proof -
  let ?w = "tick E AtLink w"
  have i': "inst_inv E temp ?w" using tick_inv[OF k i] .
  have cases: "(\<exists>e. r = Inl e \<and> w' = ?w) \<or>
    (\<exists>x. w' = commit_dir E (dir_put to (FileNode x) (w_dir ?w)) ?w \<and> map_of (w_dir ?w) to = None)"
    using r by (auto simp: hard_link_def Let_def fail_with_def split: if_splits option.splits node.splits)
  have added: "inst_inv E temp (commit_dir E (dir_put to o' (w_dir ?w)) ?w)" if "map_of (w_dir ?w) to = None" for o'
  proof (rule commit_unbinds_nothing[OF i'])
    show "distinct (map fst (dir_put to o' (w_dir ?w)))" using i' by (simp add: inst_inv_def)
    show "map_of (dir_put to o' (w_dir ?w)) temp = None \<or> map_of (dir_put to o' (w_dir ?w)) temp = Some (ev_mine E)"
      using i' names by (auto simp: inst_inv_def)
    fix x assume "\<exists>n. map_of (w_dir ?w) n = Some x"
    then obtain n where "map_of (w_dir ?w) n = Some x" by blast
    then show "\<exists>n. map_of (dir_put to o' (w_dir ?w)) n = Some x"
      using that by (intro exI[of _ n]) auto
  qed
  show "inst_inv E temp w'" using cases i' added by auto
  show "settled w' = settled w"
    using cases names commit_keeps_taken[of _ E ?w] by (auto simp: settled_def)
qed

lemma remove_settled:
  assumes k: "keeps_private E" "private_name E temp" and i: "inst_inv E temp w" and s: "settled w"
    and n: "n \<noteq> ev_target E" and r: "remove_file E n w = (r, w')"
  shows "inst_inv E temp w'" and "settled w'"
proof -
  let ?w = "tick E AtRemove w"
  let ?d = "dir_del n (w_dir ?w)"
  have i': "inst_inv E temp ?w" using tick_inv[OF k i] .
  have cases: "w' = ?w \<or> w' = commit_dir E ?d ?w"
    using r by (auto simp: remove_file_def Let_def split: if_splits option.splits node.splits)
  have t: "w_taken (commit_dir E ?d ?w) = w_taken w"
    using commit_keeps_taken[of ?d E ?w] n by simp
  then have s': "settled (commit_dir E ?d ?w)" using s by (simp add: settled_def)
  have "inst_inv E temp (commit_dir E ?d ?w)"
    using i' by (intro commit_settled[OF i' s']) (auto simp: inst_inv_def)
  then show "inst_inv E temp w'" and "settled w'" using cases i' s s' by auto
qed

text \<open>Removing our own temporary file loses nothing, settled or not.\<close>

lemma remove_temporary:
  assumes k: "keeps_private E" "private_name E temp" and i: "inst_inv E temp w"
  shows "inst_inv E temp (snd (remove_file E temp w))"
proof -
  let ?w = "tick E AtRemove w"
  let ?d = "dir_del temp (w_dir ?w)"
  have i': "inst_inv E temp ?w" using tick_inv[OF k i] .
  have "inst_inv E temp (commit_dir E ?d ?w)"
  proof (rule commit_unbinds_nothing[OF i'])
    fix x assume "\<exists>n. map_of (w_dir ?w) n = Some x" "x \<noteq> ev_mine E"
    then obtain n where n: "map_of (w_dir ?w) n = Some x" by blast
    have "n \<noteq> temp" using n i' \<open>x \<noteq> ev_mine E\<close> by (auto simp: inst_inv_def)
    then show "\<exists>n. map_of ?d n = Some x" using n by (intro exI[of _ n]) simp
  qed (use i' in \<open>auto simp: inst_inv_def\<close>)
  then show ?thesis
    using i' by (auto simp: remove_file_def Let_def split: option.splits node.splits)
qed

lemma run_check_facts:
  assumes k: "keeps_private E" "private_name E temp" and i: "inst_inv E temp w"
    and r: "run_check E n w = (r, w')"
  shows "inst_inv E temp w'" and "settled w \<Longrightarrow> settled w'" and "w_taken w' = w_taken w"
    and "set (w_checked w) \<subseteq> set (w_checked w')" and "private_name E m \<Longrightarrow> map_of (w_dir w') m = map_of (w_dir w) m"
    and "r = Inr u \<Longrightarrow> private_name E n \<Longrightarrow> map_of (w_dir w) n = Some o' \<Longrightarrow> o' \<in> set (w_checked w')"
proof -
  let ?w = "tick E AtCheck w"
  have w': "w_dir w' = w_dir ?w" "w_lost w' = w_lost w" "w_taken w' = w_taken w"
    "set (w_checked w) \<subseteq> set (w_checked w')"
    using r by (auto simp: run_check_def Let_def split: sum.splits)
  show "inst_inv E temp w'" using tick_inv[OF k i, of AtCheck] w' by (auto simp: inst_inv_def)
  show "settled w \<Longrightarrow> settled w'" "w_taken w' = w_taken w" "set (w_checked w) \<subseteq> set (w_checked w')"
    using w' by (auto simp: settled_def)
  show "private_name E m \<Longrightarrow> map_of (w_dir w') m = map_of (w_dir w) m"
    using tick_private[OF k(1), of m AtCheck w] w' by simp
  show "o' \<in> set (w_checked w')" if "r = Inr u" "private_name E n" "map_of (w_dir w) n = Some o'"
    using r that tick_private[OF k(1) that(2), of AtCheck w]
    by (auto simp: run_check_def Let_def split: sum.splits option.splits)
qed

lemma same_file_facts:
  assumes k: "keeps_private E" "private_name E temp" and i: "inst_inv E temp w"
    and r: "same_file_object E a b w = (r, w')"
  shows "inst_inv E temp w'" and "settled w' = settled w" and "w_taken w' = w_taken w" and "w_checked w' = w_checked w"
    and "private_name E m \<Longrightarrow> map_of (w_dir w') m = map_of (w_dir w) m"
proof -
  have w': "w' = tick E AtCompare (tick E AtCompare w)"
    using r by (simp add: same_file_object_def lookup_node_def Let_def)
  show "inst_inv E temp w'" using tick_inv[OF k tick_inv[OF k i]] w' by simp
  show "settled w' = settled w" "w_taken w' = w_taken w" "w_checked w' = w_checked w" using w' by simp_all
  show "private_name E m \<Longrightarrow> map_of (w_dir w') m = map_of (w_dir w) m"
    using tick_private[OF k(1), of m] w' by metis
qed

section \<open>Rounds\<close>

lemma restore_keeps:
  assumes k: "keeps_private E" "private_name E temp" and i: "inst_inv E temp w"
    and a: "private_name E aside" "aside \<noteq> temp"
  shows "inst_inv E temp (snd (restore_displaced E aside f w))"
proof -
  obtain r w' where r: "rename_no_replace E AtRestore aside (ev_target E) w = (r, w')" by fastforce
  have "inst_inv E temp w'"
    using rename_no_replace_moves(1)[OF k i _ _ r] private_not_target a k(2) by metis
  then show ?thesis by (simp add: restore_displaced_def r split: sum.splits)
qed

lemma place_temporary:
  assumes k: "keeps_private E" "private_name E temp" and i: "inst_inv E temp w" and s: "settled w"
    and r: "rename_no_replace E AtPlace temp (ev_target E) w = (r, w')"
  shows "inst_inv E temp w'" and "settled w'"
  using rename_no_replace_moves(1,3)[OF k i _ _ r] private_not_target[OF k(2)] s by metis+

lemma absent_round_inv:
  assumes k: "keeps_private E" "private_name E temp" and i: "inst_inv E temp w" and s: "settled w"
    and r: "absent_round E temp w = (out, w')"
  shows "inst_inv E temp w'" and "settled w'"
proof -
  obtain c w1 where c: "run_check E (ev_target E) w = (c, w1)" by fastforce
  note f = run_check_facts(1)[OF k i c] run_check_facts(2)[OF k i c s]
  obtain p w2 where p: "rename_no_replace E AtPlace temp (ev_target E) w1 = (p, w2)" by fastforce
  note g = place_temporary[OF k f p]
  have "w' = w1 \<or> w' = w2" using r by (auto simp: absent_round_def c p split: sum.splits)
  then show "inst_inv E temp w'" "settled w'" using f g by auto
qed

lemma aside_round_inv:
  assumes k: "keeps_private E" "private_name E temp" and i: "inst_inv E temp w" and s: "settled w"
    and a: "private_name E aside" "aside \<noteq> temp" and r: "aside_round E temp aside w = (out, w')"
  shows "inst_inv E temp w'" and "(\<exists>f. out = Failed f) \<or> settled w'"
proof -
  have at: "aside \<noteq> ev_target E" using private_not_target a(1) by blast
  obtain m w1 where m: "rename_no_replace E AtMove (ev_target E) aside w = (m, w1)" by fastforce
  have i1: "inst_inv E temp w1" using rename_no_replace_moves(1)[OF k i _ _ m] at a(2) by metis
  have both: "inst_inv E temp w' \<and> ((\<exists>f. out = Failed f) \<or> settled w')"
  proof (cases m)
    case (Inl e)
    then have s1: "settled w1" using rename_no_replace_moves(4)[OF k i _ _ m] at a(2) s by metis
    show ?thesis
    proof (cases "os_kind e = NotFound")
      case True
      then show ?thesis
        using r absent_round_inv[OF k i1 s1, of out w'] by (auto simp: aside_round_def m Inl)
    qed (use r i1 in \<open>auto simp: aside_round_def m Inl\<close>)
  next
    case (Inr u)
    obtain o' where o': "map_of (w_dir w1) aside = Some o'" "set (w_taken w1) \<subseteq> insert o' (set (w_taken w))"
      using rename_no_replace_moves(5)[OF k i _ _ m Inr] at a(2) by metis
    obtain c w2 where c: "run_check E aside w1 = (c, w2)" by fastforce
    note f = run_check_facts[OF k i1 c]
    show ?thesis
    proof (cases c)
      case (Inl failure)
      then show ?thesis
        using r restore_keeps[OF k f(1) a, of failure]
        by (auto simp: aside_round_def m Inr c split: prod.splits)
    next
      case ok: (Inr v)
      have "o' \<in> set (w_checked w2)" using f(6)[OF ok a(1) o'(1)] .
      moreover have "w_checked w1 = w_checked w" using rename_no_replace_moves(2)[OF k i _ _ m] at a(2) by metis
      ultimately have s2: "settled w2" using o'(2) s f(3,4) by (auto simp: settled_def)
      obtain p w3 where p: "rename_no_replace E AtPlace temp (ev_target E) w2 = (p, w3)" by fastforce
      note g = place_temporary[OF k f(1) s2 p]
      obtain x w4 where x: "remove_file E aside w3 = (x, w4)" by fastforce
      note h = remove_settled[OF k g at x]
      show ?thesis
        using r g h restore_keeps[OF k g(1) a]
        by (cases p) (auto simp: aside_round_def m Inr c ok p x split: prod.splits if_splits, metis snd_conv)
    qed
  qed
  then show "inst_inv E temp w'" and "(\<exists>f. out = Failed f) \<or> settled w'" by auto
qed

text \<open>The pin guards the swap only if nobody else acts on the target between the comparison and the swap.\<close>

definition quiet_swap :: "environs \<Rightarrow> bool" where
  "quiet_swap E \<longleftrightarrow> (\<forall>t d. map_of (ev_act E AtCompare t d) (ev_target E) = map_of d (ev_target E) \<and>
     map_of (ev_act E AtSwap t d) (ev_target E) = map_of d (ev_target E))"

lemma pinned_round_inv:
  assumes k: "keeps_private E" "private_name E temp" and i: "inst_inv E temp w" and s: "settled w"
    and q: "quiet_swap E" and a: "private_name E aside" "aside \<noteq> temp" "map_of (w_dir w) aside = Some o'"
    and r: "pinned_round E temp aside w = (out, w')"
  shows "inst_inv E temp w' \<and> settled w'"
proof -
  have at: "aside \<noteq> ev_target E" using private_not_target a(1) by blast
  have rm: "inst_inv E temp (snd (remove_file E aside v)) \<and> settled (snd (remove_file E aside v))"
    if "inst_inv E temp v" "settled v" for v
    using remove_settled[OF k that at] by (metis prod.collapse)
  obtain c w1 where c: "run_check E aside w = (c, w1)" by fastforce
  note f = run_check_facts[OF k i c]
  show ?thesis
  proof (cases c)
    case (Inl failure)
    then show ?thesis using r rm[OF f(1) f(2)[OF s]] by (auto simp: pinned_round_def c)
  next
    case ok: (Inr v)
    have o1: "o' \<in> set (w_checked w1)" using f(6)[OF ok a(1,3)] .
    obtain b w2 where b: "same_file_object E (ev_target E) aside w1 = (b, w2)" by fastforce
    note g = same_file_facts[OF k f(1) b]
    have s2: "settled w2" using g(2) f(2)[OF s] by simp
    show ?thesis
    proof (cases b)
      case False
      then show ?thesis using r rm[OF g(1) s2] by (auto simp: pinned_round_def c ok b)
    next
      case True
      have "map_of (w_dir w2) (ev_target E) = map_of (w_dir w1) (ev_target E)"
        "map_of (w_dir w1) (ev_target E) = map_of (w_dir w1) aside"
        using b q True g(5)[OF a(1)]
        by (auto simp: same_file_object_def lookup_node_def Let_def quiet_swap_def)
      then have target: "map_of (w_dir w2) (ev_target E) = Some o'" using f(5)[OF a(1)] a(3) by simp
      let ?w = "tick E AtSwap w2"
      have i3: "inst_inv E temp ?w" using tick_inv[OF k g(1)] .
      have target': "map_of (w_dir ?w) (ev_target E) = Some o'" using target q by (simp add: quiet_swap_def)
      let ?d = "dir_put (ev_target E) (the (map_of (w_dir ?w) temp)) (dir_del temp (w_dir ?w))"
      obtain p w3 where p: "rename_replacing E temp (ev_target E) w2 = (p, w3)" by fastforce
      have cases: "w3 = ?w \<or> w3 = commit_dir E ?d ?w"
        using p by (auto simp: rename_replacing_def Let_def fail_with_def split: if_splits option.splits node.splits)
      have taken: "set (w_taken (commit_dir E ?d ?w)) \<subseteq> insert o' (set (w_taken w2))"
        using target' by (auto simp: commit_taken)
      have s3: "settled (commit_dir E ?d ?w)"
        using taken s2 o1 g(4) by (auto simp: settled_def)
      have "inst_inv E temp (commit_dir E ?d ?w)"
        using i3 private_not_target[OF k(2)] by (intro commit_settled[OF i3 s3]) (auto simp: inst_inv_def)
      then have "inst_inv E temp w3 \<and> settled w3" using cases i3 s2 s3 by auto
      then show ?thesis using r rm[of w3] True by (auto simp: pinned_round_def c ok b p)
    qed
  qed
qed

lemma hard_link_binds:
  assumes "keeps_private E" "private_name E to" and "hard_link E from to w = (Inr u, w')"
  shows "\<exists>o'. map_of (w_dir w') to = Some o'"
  using assms by (auto simp: hard_link_def Let_def fail_with_def split: if_splits option.splits node.splits)

lemma install_round_inv:
  assumes k: "keeps_private E" and t: "temp = temporary_name (ev_target E) (ev_pid E) j"
    and i: "inst_inv E temp w" and s: "settled w" and q: "identity \<Longrightarrow> quiet_swap E"
    and r: "install_round E identity temp w = (out, w')"
  shows "inst_inv E temp w' \<and> ((\<exists>f. out = Failed f) \<or> settled w')"
proof -
  let ?aside = "displaced_name (ev_target E) (ev_pid E) (w_seq w)" and ?w = "w\<lparr>w_seq := w_seq w + 1\<rparr>"
  have pt: "private_name E temp" using t by simp
  have a: "private_name E ?aside" "?aside \<noteq> temp" using t displaced_not_temporary by auto
  have at: "?aside \<noteq> ev_target E" using private_not_target a(1) by blast
  have i0: "inst_inv E temp ?w" "settled ?w" using i s by simp_all
  show ?thesis
  proof (cases identity)
    case False
    then show ?thesis
      using r aside_round_inv[OF k pt i0 a, of out w'] by (auto simp: install_round_def displaced_path_def)
  next
    case True
    obtain h w1 where h: "hard_link E (ev_target E) ?aside ?w = (h, w1)" by fastforce
    have i1: "inst_inv E temp w1" "settled w1"
      using hard_link_adds[OF k pt i0(1) a(2) at h] i0(2) by auto
    show ?thesis
    proof (cases h)
      case (Inr u)
      obtain o' where "map_of (w_dir w1) ?aside = Some o'"
        using hard_link_binds[OF k a(1)] h Inr by blast
      then show ?thesis
        using r pinned_round_inv[OF k pt i1 q[OF True] a, of o' out w'] True Inr h
        by (auto simp: install_round_def displaced_path_def)
    next
      case (Inl e)
      then show ?thesis
        using r aside_round_inv[OF k pt i1 a, of out w'] absent_round_inv[OF k pt i1, of out w'] True h
        by (auto simp: install_round_def displaced_path_def split: if_splits)
    qed
  qed
qed

lemma install_loop_inv:
  assumes k: "keeps_private E" and t: "temp = temporary_name (ev_target E) (ev_pid E) j"
    and q: "identity \<Longrightarrow> quiet_swap E"
  shows "inst_inv E temp w \<Longrightarrow> settled w \<Longrightarrow> install_loop E identity temp n w = (res, w') \<Longrightarrow> inst_inv E temp w'"
proof (induction n arbitrary: w)
  case (Suc n)
  obtain out w1 where o: "install_round E identity temp w = (out, w1)" by fastforce
  have "inst_inv E temp w1 \<and> ((\<exists>f. out = Failed f) \<or> settled w1)"
    using install_round_inv[OF k t Suc.prems(1,2) q o] .
  then show ?case using Suc o by (cases out) auto
qed simp

section \<open>The whole write\<close>

lemma recover_inv:
  assumes k: "keeps_private E" and n: "distinct (map fst (w_dir w))" "w_lost w = []" "w_taken w = []" "w_checked w = []"
    and r: "recover_displaced_file E w = (b, w')"
  shows "distinct (map fst (w_dir w')) \<and> w_lost w' = [] \<and> w_taken w' = []"
proof -
  have d: "distinct (map fst (w_dir (tick E m v)))" if "distinct (map fst (w_dir v))" for m v
    using k that by (simp add: keeps_private_def)
  let ?w = "tick E AtRecover (tick E AtRecover w)"
  have dw: "distinct (map fst (w_dir ?w))" "distinct (map fst (w_dir (tick E AtRecover w)))" using d n(1) by blast+
  have moved: "distinct (map fst (w_dir v)) \<and> w_lost v = [] \<and> w_taken v = []"
    if v: "rename_no_replace E AtRestore only (ev_target E) ?w = (x, v)" for only x v
  proof -
    let ?v = "tick E AtRestore ?w"
    define o' where "o' = the (map_of (w_dir ?v) only)"
    let ?d = "dir_put (ev_target E) o' (dir_del only (w_dir ?v))"
    have dv: "distinct (map fst (w_dir ?v))" using d[OF dw(1)] .
    have cases: "v = ?v \<or> (v = commit_dir E ?d ?v \<and> map_of (w_dir ?v) (ev_target E) = None)"
      using v by (auto simp: rename_no_replace_def Let_def fail_with_def o'_def split: if_splits option.splits)
    have "w_taken (commit_dir E ?d ?v) = []" if "map_of (w_dir ?v) (ev_target E) = None"
      using commit_keeps_taken[of ?d E ?v] that n by simp
    moreover from this have "w_lost (commit_dir E ?d ?v) = []" if "map_of (w_dir ?v) (ev_target E) = None"
      using that n by (simp add: commit_dir_def Let_def)
    ultimately show ?thesis using cases dv n distinct_dir by auto
  qed
  show ?thesis
  proof (cases "map_of (w_dir (tick E AtRecover w)) (ev_target E)")
    case (Some x)
    then show ?thesis using r dw n by (auto simp: recover_displaced_file_def lookup_node_def Let_def)
  next
    case None
    show ?thesis
    proof (cases "\<exists>only. recover_candidates E (w_dir ?w) [] = Some [only]")
      case True
      then obtain only where c: "recover_candidates E (w_dir ?w) [] = Some [only]" by blast
      obtain x v where v: "rename_no_replace E AtRestore only (ev_target E) ?w = (x, v)" by fastforce
      then have "w' = v" using r None c by (simp add: recover_displaced_file_def lookup_node_def Let_def)
      then show ?thesis using moved[OF v] by simp
    next
      case False
      then have "w' = ?w" using r None
        by (auto simp: recover_displaced_file_def lookup_node_def Let_def split: option.splits list.splits)
      then show ?thesis using dw n by simp
    qed
  qed
qed

text \<open>As long as nothing was taken, nothing is lost.\<close>

lemma commit_lost_none: "w_taken (commit_dir E d w) = [] \<Longrightarrow> w_lost (commit_dir E d w) = w_lost w"
  by (auto simp: commit_dir_def Let_def filter_empty_conv split: option.splits if_splits)

lemma create_temporary_inv:
  assumes k: "keeps_private E" "private_name E temp" and n: "distinct (map fst (w_dir w))" "w_lost w = []" "w_taken w = []"
    and r: "create_temporary E temp written w = (res, w')"
  shows "distinct (map fst (w_dir w')) \<and> w_lost w' = [] \<and> w_taken w' = []"
    and "res = Inr u \<Longrightarrow> inst_inv E temp w' \<and> settled w'"
proof -
  let ?w = "tick E AtCreate w"
  let ?d = "dir_put temp (ev_mine E) (w_dir ?w)"
  have d: "distinct (map fst (w_dir ?w))" using k(1) n(1) by (simp add: keeps_private_def)
  have cases: "(\<exists>e. res = Inl e \<and> w' = ?w) \<or> w' = commit_dir E ?d ?w"
    using r by (auto simp: create_temporary_def Let_def fail_with_def split: if_splits)
  have t: "w_taken (commit_dir E ?d ?w) = []"
    using commit_keeps_taken[of ?d E ?w] private_not_target[OF k(2)] n(3) by simp
  have l: "w_lost (commit_dir E ?d ?w) = []" using commit_lost_none[OF t] n(2) by simp
  have dd: "distinct (map fst (w_dir (commit_dir E ?d ?w)))" using d by simp
  show "distinct (map fst (w_dir w')) \<and> w_lost w' = [] \<and> w_taken w' = []"
    using cases d dd t l n by auto
  show "inst_inv E temp w' \<and> settled w'" if "res = Inr u"
  proof -
    have "w' = commit_dir E ?d ?w" using cases that by auto
    then show ?thesis using dd t l by (simp add: inst_inv_def settled_def)
  qed
qed

lemma remove_untaken:
  assumes "keeps_private E" "private_name E n" and "w_lost w = []" "w_taken w = []"
  shows "w_lost (snd (remove_file E n w)) = []"
proof -
  let ?w = "tick E AtRemove w"
  have "w_taken (commit_dir E (dir_del n (w_dir ?w)) ?w) = []"
    using commit_keeps_taken[of "dir_del n (w_dir ?w)" E ?w] private_not_target[OF assms(2)] assms(4) by simp
  from commit_lost_none[OF this] show ?thesis
    using assms(3) by (auto simp: remove_file_def Let_def split: option.splits node.splits)
qed

lemma atomic_write_inv:
  assumes k: "keeps_private E" and q: "identity \<Longrightarrow> quiet_swap E"
    and n: "distinct (map fst (w_dir w))" "w_lost w = []" "w_taken w = []" "w_checked w = []"
    and r: "atomic_write_checked E identity written w = (res, w')"
  shows "set (w_lost w') \<subseteq> set (w_checked w')"
proof -
  obtain b w1 where b: "recover_displaced_file E w = (b, w1)" by fastforce
  note n1 = recover_inv[OF k n b]
  let ?w2 = "tick E AtRecover w1"
  have d2: "distinct (map fst (w_dir ?w2))" using k n1 by (simp add: keeps_private_def)
  let ?temp = "temporary_name (ev_target E) (ev_pid E) (w_seq w1)" and ?w3 = "?w2\<lparr>w_seq := w_seq w1 + 1\<rparr>"
  have pt: "private_name E ?temp" by simp
  have n3: "distinct (map fst (w_dir ?w3))" "w_lost ?w3 = []" "w_taken ?w3 = []" using d2 n1 by simp_all
  obtain c w4 where c: "create_temporary E ?temp written ?w3 = (c, w4)" by fastforce
  note f = create_temporary_inv[OF k pt n3 c]
  show ?thesis
  proof (cases "\<exists>i. map_of (w_dir ?w2) (ev_target E) = Some (DirNode i)")
    case True
    then have "w' = ?w2" using r b by (auto simp: atomic_write_checked_def lookup_node_def Let_def)
    then show ?thesis using n1 by simp
  next
    case False
    then have w': "(res, w') =
      (let (result, w) = (case c of Inl e \<Rightarrow> (Inl (SaveIo e), w4) | Inr _ \<Rightarrow> install_checked E identity ?temp w4)
       in (result, case result of Inr _ \<Rightarrow> w | Inl f \<Rightarrow> snd (remove_file E ?temp w)))"
      using r b c
      by (auto simp: atomic_write_checked_def lookup_node_def Let_def split: option.splits node.splits sum.splits)
    show ?thesis
    proof (cases c)
      case (Inl e)
      then show ?thesis using w' remove_untaken[OF k pt] f(1) by (simp add: Let_def)
    next
      case (Inr u)
      obtain x w5 where x: "install_checked E identity ?temp w4 = (x, w5)" by fastforce
      have i5: "inst_inv E ?temp w5"
        using install_loop_inv[OF k refl q] f(2)[OF Inr] x unfolding install_checked_def by blast
      have "inst_inv E ?temp w'"
        using w' Inr x i5 remove_temporary[OF k pt i5] by (auto simp: Let_def split: sum.splits)
      then show ?thesis by (simp add: inst_inv_def)
    qed
  qed
qed

section \<open>Recovery\<close>

lemma strip_prefix_str_append [simp]: "strip_prefix_str p (p @ s) = Some s"
  by (simp add: strip_prefix_str_def)

lemma strip_suffix_str_append [simp]: "strip_suffix_str p (s @ p) = Some s"
  by (simp add: strip_suffix_str_def)

lemma is_number_show: "is_number (show_radix 10 n)"
  using show_radix_is_digit[of 10 _ n] is_digit_10 by (auto simp: is_number_def list_all_iff)

lemma displaced_pid_name: "displaced_pid stem (displaced_name stem p k) = Some (show_radix 10 p)"
proof -
  have "45 \<notin> set (show_radix 10 p)"
    using show_radix_is_digit[of 10 45 p] is_digit_10[of 45] by (auto simp: is_ascii_digit_def)
  then have "split_once [45] (show_radix 10 p @ 45 # show_radix 10 k) = Some (show_radix 10 p, show_radix 10 k)"
    by (rule split_once_char)
  moreover have "displaced_name stem p k =
      displaced_prefix stem @ (show_radix 10 p @ 45 # show_radix 10 k) @ lit ''.tmp''"
    by (simp add: displaced_name_def lit_def)
  ultimately show ?thesis
    by (simp add: displaced_pid_def is_number_show del: split_once.simps append_assoc)
qed

lemma no_candidates:
  "\<forall>(n, x) \<in> set d. displaced_pid (ev_target E) n = None \<Longrightarrow> recover_candidates E d found = Some found"
  by (induction d arbitrary: found) auto

lemma candidates_append:
  "\<forall>(n, x) \<in> set d. displaced_pid (ev_target E) n = None \<Longrightarrow>
    recover_candidates E (d @ d') found = recover_candidates E d' found"
  by (induction d arbitrary: found) auto

lemma only_candidate:
  assumes "\<forall>(n, x) \<in> set d. displaced_pid (ev_target E) n = None" and "p \<noteq> ev_pid E"
  shows "recover_candidates E (dir_put (displaced_name (ev_target E) p j) (FileNode i) d) [] =
    Some [displaced_name (ev_target E) p j]"
  using assms by (simp add: dir_put_def displaced_pid_name show_radix_inj no_candidates)

end
