(* ===== verification/Install_Claims.thy ===== *)
theory Install_Claims
  imports Install_Facts
begin

text \<open>
  The properties of replacing a file on disk: no version that was not checked is
  lost, the window in which that fails, what an undisturbed write does, and what
  is recovered after a crash.
\<close>

section \<open>Nothing unchecked is lost\<close>


definition start_world :: "dir \<Rightarrow> world" where
  "start_world d = \<lparr>w_dir = d, w_clock = 0, w_seq = 1, w_checked = [], w_taken = [], w_lost = [], w_gap = False\<rparr>"

text \<open>Others put the object \<open>b\<close> at the target at the moment \<open>m\<close>; the check accepts the object \<open>a\<close> only.\<close>

definition rival :: "moment \<Rightarrow> str \<Rightarrow> nat \<Rightarrow> nat \<Rightarrow> nat \<Rightarrow> nat \<Rightarrow> environs" where
  "rival m target pid a b mine =
    \<lparr>ev_act = (\<lambda>k _ d. if k = m then dir_put target (FileNode b) d else d), ev_fault = (\<lambda>_. False),
     ev_check = (\<lambda>_ o'. if o' = Some (FileNode a) then Inr () else Inl ExternalChangeFailure),
     ev_pid = pid, ev_target = target, ev_mine = FileNode mine\<rparr>"


lemma install_first_round:
  "install_checked E identity temporary w =
     (case install_round E identity temporary w of
        (Installed, w) \<Rightarrow> (Inr (), w)
      | (Failed f, w) \<Rightarrow> (Inl f, w)
      | (Again, w) \<Rightarrow> install_loop E identity temporary 2 w)"
proof -
  have "(3 :: nat) = Suc 2" by simp
  then show ?thesis unfolding install_checked_def max_install_attempts_def by (simp only: install_loop.simps)
qed

lemmas install_evals = atomic_write_checked_def recover_displaced_file_def lookup_node_def create_temporary_def
  install_first_round install_round_def displaced_path_def aside_round_def pinned_round_def
  absent_round_def run_check_def same_file_object_def rename_no_replace_def rename_replacing_def hard_link_def
  remove_file_def restore_displaced_def fail_with_def tick_def commit_dir_def start_world_def Let_def


text \<open>The window of the pin is real.  If another program replaces the target after the
  comparison and before the swap, the write reports success, although the version
  it overwrote was never shown to the check and has no name any more.\<close>

theorem pin_window_loses_a_version:
  assumes "a \<noteq> b" and "b \<noteq> mine" and "a \<noteq> mine"
  shows "\<exists>w'. atomic_write_checked (rival AtSwap target pid a b mine) True (Inr ())
      (start_world [(target, FileNode a)]) = (Inr (), w') \<and>
    w_checked w' = [FileNode a] \<and> FileNode b \<in> set (w_lost w') \<and>
    map_of (w_dir w') target = Some (FileNode mine)"
  using assms by (auto simp: install_evals rival_def dir_put_def dir_del_def)

theorem pin_window_loses_a_version_witness:
  "\<exists>w'. atomic_write_checked (rival AtSwap [97] 7 1 9 5) True (Inr ()) (start_world [([97], FileNode 1)]) = (Inr (), w') \<and>
    FileNode 9 \<in> set (w_lost w')"
  using pin_window_loses_a_version[of 1 9 5 "[97]" 7] by auto

section \<open>The undisturbed write\<close>

definition calm :: "environs \<Rightarrow> bool" where
  "calm E \<longleftrightarrow> (\<forall>m t d. ev_act E m t d = d) \<and> (\<forall>t. \<not> ev_fault E t) \<and> (\<exists>k. ev_mine E = FileNode k)"

text \<open>C24: Undisturbed, a checked write is all or nothing: if the check accepts the file at
  the target the directory ends up with the new file there and no other change, and
  if it refuses the directory is as before and the result is the check's failure.
  With the pin the target's name is never without a file on the way.\<close>

theorem undisturbed_write_is_all_or_nothing:
  assumes "calm E" and "map_of d (ev_target E) = Some (FileNode i)" and "ev_mine E \<noteq> FileNode i"
    and "\<forall>n. private_name E n \<longrightarrow> map_of d n = None"
    and "\<forall>t. ev_check E t (Some (FileNode i)) = verdict"
  shows "\<exists>w'. atomic_write_checked E identity (Inr ()) (start_world d) = (verdict, w') \<and>
    map_of (w_dir w') = (case verdict of Inr _ \<Rightarrow> (map_of d)(ev_target E \<mapsto> ev_mine E) | Inl f \<Rightarrow> map_of d) \<and>
    (identity \<longrightarrow> \<not> w_gap w')"
proof -
  obtain k where k: "ev_mine E = FileNode k" using assms(1) by (auto simp: calm_def)
  have free: "map_of d (displaced_name (ev_target E) (ev_pid E) s) = None"
    "map_of d (temporary_name (ev_target E) (ev_pid E) s) = None" for s
    using assms(4) by simp_all
  have c: "ev_act E m t d' = d'" "\<not> ev_fault E t" for m t d' using assms(1) by (simp_all add: calm_def)
  show ?thesis
    using assms(2,3,5) k by (cases verdict; cases identity) (auto simp: install_evals c free fun_eq_iff)
qed

theorem undisturbed_write_is_all_or_nothing_witness:
  "\<exists>w'. atomic_write_checked \<lparr>ev_act = (\<lambda>_ _ d. d), ev_fault = (\<lambda>_. False), ev_check = (\<lambda>_ _. Inl ExternalChangeFailure),
      ev_pid = 7, ev_target = [97], ev_mine = FileNode 5\<rparr> True (Inr ()) (start_world [([97], FileNode 1)]) =
    (Inl ExternalChangeFailure, w') \<and> map_of (w_dir w') = [[97] \<mapsto> FileNode 1]"
proof -
  let ?E = "\<lparr>ev_act = (\<lambda>_ _ d. d), ev_fault = (\<lambda>_. False), ev_check = (\<lambda>_ _. Inl ExternalChangeFailure),
      ev_pid = 7, ev_target = [97], ev_mine = FileNode 5\<rparr>"
  have "calm ?E" by (simp add: calm_def)
  moreover have "\<forall>n. private_name ?E n \<longrightarrow> map_of [([97], FileNode 1)] n = None"
    using private_not_target[of ?E] by auto
  ultimately show ?thesis
    using undisturbed_write_is_all_or_nothing[of ?E "[([97], FileNode 1)]" 1 "Inl ExternalChangeFailure" True] by auto
qed

section \<open>Recovery\<close>



end
