(* ===== verification/Sidebar_Pins.thy ===== *)
theory Sidebar_Pins
  imports Session_Identity Text_Codecs
begin

text \<open>
  Sidebar pins (\<open>crates/session/src/pins.rs\<close>).  A path is its list of components,
  as everywhere; on disk it is spelled with single slashes, and read with the rules
  of Unix paths.  The repositories are state-passing functions under the process's
  lock; the revision counter is part of the state.
\<close>

section \<open>Entries\<close>

datatype pin_kind = PinFile | PinFolder

record pinned_entry =
  pin_path :: path
  pin_kind :: pin_kind

datatype pin_update =
    Pin pinned_entry
  | Unpin path
  | RenameFile path path
  | RenameFolder path path
  | RemovePin path bool

datatype pin_error =
    InvalidPath path
  | Unreadable str
  | Corrupt str
  | UnknownVersion str
  | WriteError str

record pin_snapshot =
  snap_entries :: "pinned_entry list"
  snap_revision :: u64

definition hane_dir :: str where
  "hane_dir = lit ''.hane''"

fun validate_components :: "path \<Rightarrow> nat \<Rightarrow> bool" where
  "validate_components [] count = (count \<noteq> 0)"
| "validate_components (c # cs) count =
     (case c of
        Normal name \<Rightarrow> if count = 0 \<and> name = hane_dir then False else validate_components cs (count + 1)
      | _ \<Rightarrow> False)"

definition validate_pin_path :: "path \<Rightarrow> (pin_error, unit) res" where
  "validate_pin_path p = (if validate_components p 0 then Ok () else Err (InvalidPath p))"

definition rebase :: "path \<Rightarrow> path \<Rightarrow> path \<Rightarrow> path option" where
  "rebase p old new =
     map_option (\<lambda>relative. if relative = [] then new else path_join new relative) (path_strip_prefix p old)"

fun dedupe_seen :: "path list \<Rightarrow> pinned_entry list \<Rightarrow> pinned_entry list" where
  "dedupe_seen seen [] = []"
| "dedupe_seen seen (e # es) =
     (if pin_path e \<in> set seen then dedupe_seen seen es else e # dedupe_seen (pin_path e # seen) es)"

definition dedupe :: "pinned_entry list \<Rightarrow> pinned_entry list" where
  "dedupe = dedupe_seen []"

definition rename_file_entry :: "path \<Rightarrow> path \<Rightarrow> pinned_entry \<Rightarrow> pinned_entry" where
  "rename_file_entry old new e = (if pin_kind e = PinFile \<and> pin_path e = old then e\<lparr>pin_path := new\<rparr> else e)"

definition rename_folder_entry :: "path \<Rightarrow> path \<Rightarrow> pinned_entry \<Rightarrow> pinned_entry" where
  "rename_folder_entry old new e = (case rebase (pin_path e) old new of Some p \<Rightarrow> e\<lparr>pin_path := p\<rparr> | None \<Rightarrow> e)"

text \<open>The flag and the entries; on an error the entries are the caller's.\<close>

definition apply_pin_update ::
  "pin_update \<Rightarrow> pinned_entry list \<Rightarrow> (pin_error, bool \<times> pinned_entry list) res" where
  "apply_pin_update u es =
     (case u of
        Pin e \<Rightarrow>
          res_bind (validate_pin_path (pin_path e)) (\<lambda>_.
          if \<exists>x \<in> set es. pin_path x = pin_path e then Ok (False, es) else Ok (True, e # es))
      | Unpin p \<Rightarrow>
          (let es' = filter (\<lambda>e. pin_path e \<noteq> p) es in Ok (length es' \<noteq> length es, es'))
      | RenameFile old new \<Rightarrow>
          res_bind (validate_pin_path new) (\<lambda>_.
          if \<exists>e \<in> set es. pin_kind e = PinFile \<and> pin_path e = old
          then Ok (True, dedupe (map (rename_file_entry old new) es)) else Ok (False, es))
      | RenameFolder old new \<Rightarrow>
          res_bind (validate_pin_path new) (\<lambda>_.
          if \<exists>e \<in> set es. rebase (pin_path e) old new \<noteq> None
          then Ok (True, dedupe (map (rename_folder_entry old new) es)) else Ok (False, es))
      | RemovePin p folder \<Rightarrow>
          (let es' = (if folder then filter (\<lambda>e. \<not> path_starts_with (pin_path e) p) es
                      else filter (\<lambda>e. \<not> (pin_kind e = PinFile \<and> pin_path e = p)) es)
           in Ok (length es' \<noteq> length es, es')))"

fun apply_all :: "pin_update list \<Rightarrow> pinned_entry list \<Rightarrow> (pin_error, bool \<times> pinned_entry list) res" where
  "apply_all [] es = Ok (False, es)"
| "apply_all (u # us) es =
     res_bind (apply_pin_update u es) (\<lambda>(c, es). res_map (\<lambda>(c', es). (c \<or> c', es)) (apply_all us es))"

section \<open>The repository in memory\<close>

record memory_pins =
  mem_roots :: "path \<rightharpoonup> pinned_entry list"
  mem_revision :: u64

definition mem_load :: "path \<Rightarrow> memory_pins \<Rightarrow> (pin_error, pin_snapshot) res \<times> memory_pins" where
  "mem_load root s =
     (let r = mem_revision s + 1 in
      (Ok \<lparr>snap_entries = (case mem_roots s root of Some es \<Rightarrow> es | None \<Rightarrow> []), snap_revision = r\<rparr>,
       s\<lparr>mem_revision := r\<rparr>))"

definition mem_update ::
  "path \<Rightarrow> pin_update list \<Rightarrow> memory_pins \<Rightarrow> (pin_error, pin_snapshot) res \<times> memory_pins" where
  "mem_update root us s =
     (case apply_all us (case mem_roots s root of Some es \<Rightarrow> es | None \<Rightarrow> []) of
        Ok (changed, es) \<Rightarrow>
          (let r = mem_revision s + 1 in
           (Ok \<lparr>snap_entries = es, snap_revision = r\<rparr>,
            s\<lparr>mem_roots := (mem_roots s)(root \<mapsto> es), mem_revision := r\<rparr>))
      | Err e \<Rightarrow> (Err e, s) | Panic \<Rightarrow> (Panic, s) | Hang \<Rightarrow> (Hang, s))"

section \<open>The stored text\<close>

text \<open>Bytes of a path: names between slashes; and the components of bytes (\<open>Path::components\<close> on Unix).\<close>

type_synonym os_string = "nat list"

fun component_name :: "path_component \<Rightarrow> os_string" where
  "component_name (Normal n) = n"
| "component_name CurDir = [46]"
| "component_name ParentDir = [46, 46]"
| "component_name RootDir = []"
| "component_name (PathPrefix n) = n"

definition os_of_path :: "path \<Rightarrow> os_string" where
  "os_of_path p = (if p = [RootDir] then [47] else join_with 47 (map component_name p))"

definition piece_component :: "os_string \<Rightarrow> path_component" where
  "piece_component n = (if n = [46] then CurDir else if n = [46, 46] then ParentDir else Normal n)"

definition path_of_os :: "os_string \<Rightarrow> path" where
  "path_of_os s =
     (let absolute = (s \<noteq> [] \<and> hd s = 47);
          pieces = map piece_component (filter (\<lambda>n. n \<noteq> []) (split_on 47 s))
      in if absolute then RootDir # filter (\<lambda>c. c \<noteq> CurDir) pieces
         else case pieces of [] \<Rightarrow> [] | c # cs \<Rightarrow> c # filter (\<lambda>c. c \<noteq> CurDir) cs)"

definition encode_os :: "os_string \<Rightarrow> str" where
  "encode_os s = concat (map (\<lambda>b. [digit_char (b div 16), digit_char (b mod 16)]) s)"

definition nibble :: "nat \<Rightarrow> nat option" where
  "nibble d = (if 48 \<le> d \<and> d \<le> 57 then Some (d - 48) else if 97 \<le> d \<and> d \<le> 102 then Some (d - 97 + 10) else None)"

text \<open>An odd count is rejected before the pairs are read.\<close>

fun decode_pairs :: "nat list \<Rightarrow> os_string option" where
  "decode_pairs (h # l # r) =
     Option.bind (nibble h) (\<lambda>hi. Option.bind (nibble l) (\<lambda>lo. map_option ((#) (hi * 16 + lo)) (decode_pairs r)))"
| "decode_pairs _ = Some []"

definition decode_os :: "str \<Rightarrow> os_string option" where
  "decode_os hex = (let digits = as_bytes hex in if length digits mod 2 = 1 then None else decode_pairs digits)"

definition pins_header :: str where
  "pins_header = lit ''hane-pins ''"

definition entry_line :: "pinned_entry \<Rightarrow> str" where
  "entry_line e =
     (case pin_kind e of PinFile \<Rightarrow> lit ''file '' | PinFolder \<Rightarrow> lit ''folder '') @ encode_os (os_of_path (pin_path e))"

definition root_lines :: "os_string \<times> pinned_entry list \<Rightarrow> str list" where
  "root_lines r = (lit ''root '' @ encode_os (fst r)) # map entry_line (snd r)"

definition render_pins :: "(os_string \<times> pinned_entry list) list \<Rightarrow> str" where
  "render_pins roots = unlines ((pins_header @ show_radix 10 1) # concat (map root_lines roots))"

text \<open>One line of \<open>parse_pins\<close>.\<close>

definition parse_pin_line ::
  "str \<Rightarrow> (os_string \<times> pinned_entry list) list \<Rightarrow> (pin_error, (os_string \<times> pinned_entry list) list) res" where
  "parse_pin_line line roots =
     (if trim line = [] then Ok roots
      else
        res_bind (ok_or (Corrupt (lit ''unreadable line: '' @ line)) (split_once [32] line)) (\<lambda>(tag, value).
        res_bind (ok_or (Corrupt (lit ''unreadable value: '' @ line)) (decode_os value)) (\<lambda>decoded.
        if tag = lit ''root'' then Ok (roots @ [(decoded, [])])
        else if tag = lit ''file'' \<or> tag = lit ''folder'' then
          let kind = (if tag = lit ''file'' then PinFile else PinFolder); relative = path_of_os decoded in
          if validate_pin_path relative \<noteq> Ok () then Err (Corrupt (lit ''invalid path: '' @ line))
          else if roots = [] then Err (Corrupt (lit ''entry before root''))
          else if \<exists>x \<in> set (snd (last roots)). pin_path x = relative
          then Err (Corrupt (lit ''duplicate entry: '' @ line))
          else Ok (butlast roots @ [(fst (last roots), snd (last roots) @ [\<lparr>pin_path = relative, pin_kind = kind\<rparr>])])
        else Err (Corrupt (lit ''unknown line: '' @ line)))))"

fun parse_pin_lines ::
  "str list \<Rightarrow> (os_string \<times> pinned_entry list) list \<Rightarrow> (pin_error, (os_string \<times> pinned_entry list) list) res" where
  "parse_pin_lines [] roots = Ok roots"
| "parse_pin_lines (l # ls) roots = res_bind (parse_pin_line l roots) (parse_pin_lines ls)"

definition parse_pins :: "str \<Rightarrow> (pin_error, (os_string \<times> pinned_entry list) list) res" where
  "parse_pins text =
     (case text_lines text of
        [] \<Rightarrow> Err (Corrupt (lit ''empty file''))
      | header # ls \<Rightarrow>
          res_bind (ok_or (Corrupt (lit ''missing header''))
            (if take (length pins_header) header = pins_header then Some (drop (length pins_header) header) else None)) (\<lambda>version.
          if trim version \<noteq> show_radix 10 1 then Err (UnknownVersion (trim version))
          else parse_pin_lines ls []))"

section \<open>The repository in a file\<close>

text \<open>The bytes of the pins file, if it exists; what goes wrong when it is read or written is a parameter.\<close>

record file_pins =
  pf_content :: "nat list option"
  pf_revision :: u64

record pin_disk =
  pd_key :: "path \<Rightarrow> os_string"
  pd_read_error :: "str option"
  pd_write_error :: "str option"

definition read_all :: "pin_disk \<Rightarrow> file_pins \<Rightarrow> (pin_error, (os_string \<times> pinned_entry list) list) res" where
  "read_all D s =
     (case pd_read_error D of
        Some reason \<Rightarrow> Err (Unreadable reason)
      | None \<Rightarrow>
          (case pf_content s of
             None \<Rightarrow> Ok []
           | Some bytes \<Rightarrow>
               res_bind (ok_or (Corrupt (lit ''invalid utf-8'')) (decode_utf8 bytes)) parse_pins))"

definition write_all ::
  "pin_disk \<Rightarrow> (os_string \<times> pinned_entry list) list \<Rightarrow> file_pins \<Rightarrow> (pin_error, unit) res \<times> file_pins" where
  "write_all D roots s =
     (case pd_write_error D of
        Some reason \<Rightarrow> (Err (WriteError reason), s)
      | None \<Rightarrow> (Ok (), s\<lparr>pf_content := Some (as_bytes (render_pins roots))\<rparr>))"

definition file_load :: "pin_disk \<Rightarrow> path \<Rightarrow> file_pins \<Rightarrow> (pin_error, pin_snapshot) res \<times> file_pins" where
  "file_load D root s =
     (case read_all D s of
        Ok roots \<Rightarrow>
          (let r = pf_revision s + 1 in
           (Ok \<lparr>snap_entries = (case map_of roots (pd_key D root) of Some es \<Rightarrow> es | None \<Rightarrow> []), snap_revision = r\<rparr>,
            s\<lparr>pf_revision := r\<rparr>))
      | Err e \<Rightarrow> (Err e, s) | Panic \<Rightarrow> (Panic, s) | Hang \<Rightarrow> (Hang, s))"

text \<open>\<open>roots[index].1 = entries\<close> at the first entry with the key, or a push; then the empty lists go.\<close>

fun set_root :: "os_string \<Rightarrow> pinned_entry list \<Rightarrow> (os_string \<times> pinned_entry list) list \<Rightarrow> (os_string \<times> pinned_entry list) list" where
  "set_root key es [] = [(key, es)]"
| "set_root key es ((k, old) # rest) = (if k = key then (k, es) # rest else (k, old) # set_root key es rest)"

definition file_update ::
  "pin_disk \<Rightarrow> path \<Rightarrow> pin_update list \<Rightarrow> file_pins \<Rightarrow> (pin_error, pin_snapshot) res \<times> file_pins" where
  "file_update D root us s =
     step_bind (read_all D s, s) (\<lambda>roots s.
     step_bind (apply_all us (case map_of roots (pd_key D root) of Some es \<Rightarrow> es | None \<Rightarrow> []), s) (\<lambda>(changed, es) s.
     step_bind
       (if changed then write_all D (filter (\<lambda>(k, l). l \<noteq> []) (set_root (pd_key D root) es roots)) s else (Ok (), s))
       (\<lambda>_ s. let r = pf_revision s + 1 in (Ok \<lparr>snap_entries = es, snap_revision = r\<rparr>, s\<lparr>pf_revision := r\<rparr>))))"

end
