(* ===== verification/Pins_Facts.thy ===== *)
theory Pins_Facts
  imports Sidebar_Pins Proxy_Facts
begin

text \<open>
  Pins: the updates keep a list of distinct valid paths, the stored text parses
  back, and what a repository promises, proved once for both repositories.
\<close>

section \<open>Valid lists\<close>

definition name_ok :: "str \<Rightarrow> bool" where
  "name_ok n \<longleftrightarrow> n \<noteq> [] \<and> 47 \<notin> set n \<and> n \<noteq> [46] \<and> n \<noteq> [46, 46] \<and> (\<forall>b \<in> set n. b < 256)"

definition plain_path :: "path \<Rightarrow> bool" where
  "plain_path p \<longleftrightarrow> (\<forall>c \<in> set p. \<exists>n. c = Normal n \<and> name_ok n)"

definition pin_path_ok :: "path \<Rightarrow> bool" where
  "pin_path_ok p \<longleftrightarrow> p \<noteq> [] \<and> plain_path p \<and> hd p \<noteq> Normal hane_dir"

definition pins_ok :: "pinned_entry list \<Rightarrow> bool" where
  "pins_ok es \<longleftrightarrow> (\<forall>e \<in> set es. pin_path_ok (pin_path e)) \<and> distinct (map pin_path es)"

lemma validate_from_1: "0 < n \<Longrightarrow> validate_components p n \<longleftrightarrow> (\<forall>c \<in> set p. \<exists>m. c = Normal m)"
  by (induction p arbitrary: n) (auto split: path_component.splits)

lemma validate_iff:
  "validate_components p 0 \<longleftrightarrow> p \<noteq> [] \<and> (\<forall>c \<in> set p. \<exists>m. c = Normal m) \<and> hd p \<noteq> Normal hane_dir"
  by (cases p) (auto simp: validate_from_1 split: path_component.splits)

lemma validate_pin_path_ok: "pin_path_ok p \<Longrightarrow> validate_pin_path p = Ok ()"
  by (auto simp: validate_pin_path_def validate_iff pin_path_ok_def plain_path_def)

lemma pin_path_ok_iff: "plain_path p \<Longrightarrow> validate_pin_path p = Ok () \<longleftrightarrow> pin_path_ok p"
  by (auto simp: validate_pin_path_def validate_iff pin_path_ok_def plain_path_def)

text \<open>Updates of a file system that has plain names only.\<close>

fun update_plain :: "pin_update \<Rightarrow> bool" where
  "update_plain (Pin e) \<longleftrightarrow> plain_path (pin_path e)"
| "update_plain (RenameFile old new) \<longleftrightarrow> plain_path new"
| "update_plain (RenameFolder old new) \<longleftrightarrow> plain_path new"
| "update_plain _ \<longleftrightarrow> True"

section \<open>Updates keep the list valid\<close>

lemma dedupe_seen_subset: "set (dedupe_seen seen es) \<subseteq> set es"
  by (induction es arbitrary: seen) auto

lemma dedupe_seen_distinct:
  "distinct (map pin_path (dedupe_seen seen es)) \<and> (\<forall>e \<in> set (dedupe_seen seen es). pin_path e \<notin> set seen)"
proof (induction es arbitrary: seen)
  case (Cons e es)
  show ?case using Cons[of seen] Cons[of "pin_path e # seen"] by auto
qed simp

lemma pins_ok_dedupe: "\<forall>e \<in> set es. pin_path_ok (pin_path e) \<Longrightarrow> pins_ok (dedupe es)"
  using dedupe_seen_subset[of "[]" es] dedupe_seen_distinct[of "[]" es] by (auto simp: pins_ok_def dedupe_def)

lemma pins_ok_filter: "pins_ok es \<Longrightarrow> pins_ok (filter P es)"
  by (auto simp: pins_ok_def distinct_map_filter)

lemma path_join_plain: "plain_path q \<Longrightarrow> p \<noteq> [] \<Longrightarrow> path_join p q = p @ q"
  by (cases q) (auto simp: path_join_def is_absolute_def plain_path_def)

lemma rebase_plain:
  assumes "rebase p old new = Some p'" and "plain_path p" and "pin_path_ok new"
  shows "pin_path_ok p'"
proof -
  have "take (length old) p = old" and p': "p' = (if drop (length old) p = [] then new else path_join new (drop (length old) p))"
    using assms(1) by (auto simp: rebase_def path_strip_prefix_def path_starts_with_def split: if_splits)
  then obtain r where r: "p = old @ r" "p' = (if r = [] then new else path_join new r)"
    using append_take_drop_id[of "length old" p] by (intro that[of "drop (length old) p"]) simp_all
  have "plain_path r" using assms(2) r(1) by (auto simp: plain_path_def)
  then have "p' = new @ r" using r(2) assms(3) path_join_plain by (auto simp: pin_path_ok_def)
  then show ?thesis using assms(3) \<open>plain_path r\<close> by (auto simp: pin_path_ok_def plain_path_def)
qed

lemma apply_pin_update_ok:
  assumes "apply_pin_update u es = Ok (c, es')" and "pins_ok es" and "update_plain u"
  shows "pins_ok es'"
proof (cases u)
  case (Pin e)
  then have "pin_path_ok (pin_path e)" "es' = es \<or> (es' = e # es \<and> pin_path e \<notin> pin_path ` set es)"
    using assms pin_path_ok_iff by (auto simp: apply_pin_update_def res_bind_Ok_iff split: if_splits)
  then show ?thesis using assms(2) by (auto simp: pins_ok_def)
next
  case (RenameFile old new)
  then have n: "pin_path_ok new" and "es' = es \<or> es' = dedupe (map (rename_file_entry old new) es)"
    using assms pin_path_ok_iff by (auto simp: apply_pin_update_def res_bind_Ok_iff split: if_splits)
  moreover have "pins_ok (dedupe (map (rename_file_entry old new) es))"
    using n assms(2) by (intro pins_ok_dedupe) (auto simp: rename_file_entry_def pins_ok_def)
  ultimately show ?thesis using assms(2) by auto
next
  case (RenameFolder old new)
  then have n: "pin_path_ok new" and "es' = es \<or> es' = dedupe (map (rename_folder_entry old new) es)"
    using assms pin_path_ok_iff by (auto simp: apply_pin_update_def res_bind_Ok_iff split: if_splits)
  moreover have "pin_path_ok (pin_path (rename_folder_entry old new e))" if "pin_path_ok (pin_path e)" for e
    using that rebase_plain[OF _ _ n, of "pin_path e" old]
    by (auto simp: rename_folder_entry_def pin_path_ok_def split: option.splits)
  then have "pins_ok (dedupe (map (rename_folder_entry old new) es))"
    using assms(2) by (intro pins_ok_dedupe) (auto simp: pins_ok_def)
  ultimately show ?thesis using assms(2) by auto
qed (use assms pins_ok_filter in \<open>auto simp: apply_pin_update_def Let_def split: if_splits\<close>)

lemma apply_all_ok:
  "apply_all us es = Ok (c, es') \<Longrightarrow> pins_ok es \<Longrightarrow> \<forall>u \<in> set us. update_plain u \<Longrightarrow> pins_ok es'"
proof (induction us arbitrary: es c)
  case (Cons u us)
  then obtain d es1 where 1: "apply_pin_update u es = Ok (d, es1)" by (auto simp: res_bind_Ok_iff)
  have "pins_ok es1" using apply_pin_update_ok[OF 1] Cons.prems by simp
  moreover obtain d' where "apply_all us es1 = Ok (d', es')"
    using Cons.prems(1) 1 by (cases "apply_all us es1") auto
  ultimately show ?case using Cons by auto
qed auto

text \<open>An update that reports no change changes nothing.\<close>

lemma filter_same_length: "length (filter P es) = length es \<Longrightarrow> filter P es = es"
  by (metis filter_True filter_id_conv length_filter_less nless_le)

lemma apply_pin_update_unchanged: "apply_pin_update u es = Ok (False, es') \<Longrightarrow> es' = es"
  by (auto simp: apply_pin_update_def Let_def res_bind_Ok_iff filter_same_length split: pin_update.splits if_splits)

lemma apply_all_unchanged: "apply_all us es = Ok (False, es') \<Longrightarrow> es' = es"
proof (induction us arbitrary: es)
  case (Cons u us)
  then obtain d es1 where 1: "apply_pin_update u es = Ok (d, es1)" by (auto simp: res_bind_Ok_iff)
  then obtain d' where "apply_all us es1 = Ok (d', es')" "\<not> d" "\<not> d'"
    using Cons.prems by (cases "apply_all us es1") auto
  then show ?case using Cons.IH[of es1] 1 apply_pin_update_unchanged[of u es es1] by simp
qed auto

lemma apply_all_never_panics: "apply_all us es \<noteq> Panic \<and> apply_all us es \<noteq> Hang"
proof (induction us arbitrary: es)
  case (Cons u us)
  have "apply_pin_update u es \<noteq> Panic" "apply_pin_update u es \<noteq> Hang"
    by (auto simp: apply_pin_update_def Let_def res_bind_Panic_iff res_bind_Hang_iff validate_pin_path_def
        split: pin_update.splits)
  then show ?case using Cons by (cases "apply_pin_update u es") (auto, (metis res_map.simps res.exhaust res.distinct)+)
qed simp

section \<open>The text\<close>

lemma is_number_byte: "b < 256 \<Longrightarrow> nibble (digit_char (b div 16)) = Some (b div 16) \<and> nibble (digit_char (b mod 16)) = Some (b mod 16)"
  by (auto simp: nibble_def digit_char_def)

lemma encode_os_digits: "\<forall>b \<in> set s. b < 256 \<Longrightarrow> c \<in> set (encode_os s) \<Longrightarrow> is_digit 16 c"
  by (auto simp: encode_os_def is_digit_def)

lemma is_digit_ascii: "is_digit 16 c \<Longrightarrow> c < 128 \<and> c \<noteq> 10 \<and> c \<noteq> 13 \<and> c \<noteq> 32"
  by (auto simp: is_digit_def to_digit_def is_ascii_digit_def Let_def split: if_splits)

lemma decode_pairs_encode: "\<forall>b \<in> set s. b < 256 \<Longrightarrow> decode_pairs (encode_os s) = Some s"
  by (induction s) (auto simp: encode_os_def is_number_byte)

lemma decode_encode_os: "\<forall>b \<in> set s. b < 256 \<Longrightarrow> decode_os (encode_os s) = Some s"
proof -
  assume s: "\<forall>b \<in> set s. b < 256"
  have "as_bytes (encode_os s) = encode_os s"
    using encode_os_digits[OF s] is_digit_ascii by (intro as_bytes_ascii) blast
  moreover have "length (encode_os s) = 2 * length s" by (induction s) (auto simp: encode_os_def)
  ultimately show ?thesis using decode_pairs_encode[OF s] by (simp add: decode_os_def)
qed

interpretation os_hex: text_codec encode_os decode_os "\<lambda>s. \<forall>b \<in> set s. b < 256"
  by unfold_locales (rule decode_encode_os)

lemma path_of_os_path: "plain_path p \<Longrightarrow> p \<noteq> [] \<Longrightarrow> path_of_os (os_of_path p) = p"
proof -
  assume p: "plain_path p" "p \<noteq> []"
  let ?names = "map component_name p"
  have n: "\<forall>n \<in> set ?names. name_ok n" using p(1) by (auto simp: plain_path_def)
  then have "split_on 47 (join_with 47 ?names) = ?names"
    using p(2) by (intro split_on_join) (auto simp: name_ok_def)
  moreover have "filter (\<lambda>n. n \<noteq> []) ?names = ?names" using n by (auto simp: name_ok_def filter_id_conv)
  moreover have "map piece_component ?names = p"
    using p(1) by (induction p) (auto simp: plain_path_def piece_component_def name_ok_def)
  moreover have "hd (join_with 47 ?names) \<noteq> 47"
    using n p(2) by (cases ?names rule: remdups_adj.cases) (auto simp: name_ok_def hd_append, (metis list.set_sel(1))+)
  moreover have "p \<noteq> [RootDir]" using p(1) by (auto simp: plain_path_def)
  moreover have "filter (\<lambda>c. c \<noteq> CurDir) (tl p) = tl p"
    using p(1) by (cases p) (auto simp: plain_path_def filter_id_conv)
  ultimately show ?thesis
    using p(2) by (cases p) (auto simp: path_of_os_def os_of_path_def Let_def)
qed

lemma os_of_path_bytes: "plain_path p \<Longrightarrow> \<forall>b \<in> set (os_of_path p). b < 256"
proof -
  assume p: "plain_path p"
  then have "\<forall>n \<in> set (map component_name p). \<forall>b \<in> set n. b < 256" by (auto simp: plain_path_def name_ok_def)
  moreover have "p \<noteq> [RootDir]" using p by (auto simp: plain_path_def)
  ultimately show ?thesis using set_join_with[of 47 "map component_name p"] by (fastforce simp: os_of_path_def)
qed

text \<open>What the file may hold: distinct roots with valid lists.\<close>

definition roots_ok :: "(os_string \<times> pinned_entry list) list \<Rightarrow> bool" where
  "roots_ok roots \<longleftrightarrow> distinct (map fst roots) \<and>
     (\<forall>(k, es) \<in> set roots. (\<forall>b \<in> set k. b < 256) \<and> pins_ok es)"

lemma trim_nonempty: "c \<in> set s \<Longrightarrow> \<not> is_whitespace c \<Longrightarrow> trim s \<noteq> []"
proof -
  assume c: "c \<in> set s" "\<not> is_whitespace c"
  have "dropWhile is_whitespace s \<noteq> []" using c by (auto simp: dropWhile_eq_Nil_conv)
  then have "\<not> is_whitespace (hd (dropWhile is_whitespace s))" by (rule hd_dropWhile)
  then have "\<exists>x \<in> set (rev (dropWhile is_whitespace s)). \<not> is_whitespace x"
    using \<open>dropWhile is_whitespace s \<noteq> []\<close> by (auto intro!: bexI[OF _ hd_in_set])
  then show ?thesis by (auto simp: trim_def dropWhile_eq_Nil_conv)
qed

text \<open>A line is a tag of letters, a space and hex digits.\<close>

definition tagged :: "string \<Rightarrow> os_string \<Rightarrow> str" where
  "tagged tag s = lit tag @ 32 # encode_os s"

lemma entry_line_tagged:
  "entry_line e = tagged (case pin_kind e of PinFile \<Rightarrow> ''file'' | PinFolder \<Rightarrow> ''folder'') (os_of_path (pin_path e))"
  by (simp add: entry_line_def tagged_def lit_def split: pin_kind.splits)

lemma root_line_tagged: "lit ''root '' @ encode_os k = tagged ''root'' k"
  by (simp add: tagged_def lit_def)

lemma tags:
  assumes "tag \<in> {''root'', ''file'', ''folder''}"
  shows "32 \<notin> set (lit tag)" "10 \<notin> set (lit tag)" "13 \<notin> set (lit tag)" "\<forall>c \<in> set (lit tag). c < 128 \<and> \<not> is_whitespace c"
    "lit tag \<noteq> []"
  using assms by (auto simp: lit_def is_whitespace_def)

lemma tagged_read:
  assumes "tag \<in> {''root'', ''file'', ''folder''}" and "\<forall>b \<in> set s. b < 256"
  shows "trim (tagged tag s) \<noteq> []" and "split_once [32] (tagged tag s) = Some (lit tag, encode_os s)"
    and "\<forall>c \<in> set (tagged tag s). c < 128 \<and> c \<noteq> 10 \<and> c \<noteq> 13"
proof -
  note t = tags[OF assms(1)]
  obtain c where "c \<in> set (lit tag)" "\<not> is_whitespace c" using t(4,5) by (metis list.set_sel(1))
  then show "trim (tagged tag s) \<noteq> []" by (intro trim_nonempty[of c]) (auto simp: tagged_def)
  show "split_once [32] (tagged tag s) = Some (lit tag, encode_os s)"
    unfolding tagged_def using t(1) by (rule split_once_char)
  show "\<forall>c \<in> set (tagged tag s). c < 128 \<and> c \<noteq> 10 \<and> c \<noteq> 13"
    using t(2-4) encode_os_digits[OF assms(2)] is_digit_ascii by (auto simp: tagged_def)
qed

lemma parse_root_line:
  assumes "\<forall>b \<in> set k. b < 256"
  shows "parse_pin_line (tagged ''root'' k) roots = Ok (roots @ [(k, [])])"
  using tagged_read[of "''root''" k] assms decode_encode_os[OF assms] by (simp add: parse_pin_line_def)

lemma parse_entry_line:
  assumes "pin_path_ok (pin_path e)" and "pin_path e \<notin> pin_path ` set es"
  shows "parse_pin_line (entry_line e) (roots @ [(k, es)]) = Ok (roots @ [(k, es @ [e])])"
proof -
  have p: "plain_path (pin_path e)" "pin_path e \<noteq> []" using assms(1) by (auto simp: pin_path_ok_def)
  note b = os_of_path_bytes[OF p(1)]
  show ?thesis
    using assms tagged_read[of _ "os_of_path (pin_path e)", OF _ b] decode_encode_os[OF b]
      path_of_os_path[OF p] validate_pin_path_ok[OF assms(1)]
    by (cases "pin_kind e") (auto simp: parse_pin_line_def entry_line_tagged Let_def image_iff)
qed

lemma parse_entries:
  assumes "\<forall>e \<in> set es'. pin_path_ok (pin_path e)" and "distinct (map pin_path (es @ es'))"
  shows "parse_pin_lines (map entry_line es' @ ls) (roots @ [(k, es)]) = parse_pin_lines ls (roots @ [(k, es @ es')])"
  using assms
proof (induction es' arbitrary: es)
  case (Cons e es')
  have "parse_pin_line (entry_line e) (roots @ [(k, es)]) = Ok (roots @ [(k, es @ [e])])"
    using Cons.prems by (intro parse_entry_line) auto
  then show ?case using Cons.IH[of "es @ [e]"] Cons.prems by simp
qed simp

lemma parse_roots:
  "roots_ok roots \<Longrightarrow> parse_pin_lines (concat (map root_lines roots)) done_roots = Ok (done_roots @ roots)"
proof (induction roots arbitrary: done_roots)
  case (Cons r roots)
  obtain k es where r: "r = (k, es)" by (cases r)
  have ok: "\<forall>b \<in> set k. b < 256" "pins_ok es" "roots_ok roots"
    using Cons.prems r by (auto simp: roots_ok_def)
  have "parse_pin_lines (concat (map root_lines (r # roots))) done_roots =
      parse_pin_lines (map entry_line es @ concat (map root_lines roots)) (done_roots @ [(k, [])])"
    using parse_root_line[OF ok(1)] by (simp add: r root_lines_def root_line_tagged)
  also have "\<dots> = parse_pin_lines (concat (map root_lines roots)) (done_roots @ [(k, es)])"
    using ok(2) parse_entries[of es "[]"] by (simp add: pins_ok_def)
  finally show ?case using Cons.IH[OF ok(3)] r by simp
qed simp

lemma root_lines_chars:
  assumes "roots_ok roots" and "l \<in> set (concat (map root_lines roots))"
  shows "\<forall>c \<in> set l. c < 128 \<and> c \<noteq> 10 \<and> c \<noteq> 13"
proof -
  obtain k es where r: "(k, es) \<in> set roots" "l \<in> set (root_lines (k, es))" using assms(2) by auto
  have ok: "\<forall>b \<in> set k. b < 256" "pins_ok es" using assms(1) r(1) by (auto simp: roots_ok_def)
  have "l = tagged ''root'' k \<or> (\<exists>e \<in> set es. l = entry_line e)"
    using r(2) by (auto simp: root_lines_def root_line_tagged)
  then show ?thesis
  proof
    assume "\<exists>e \<in> set es. l = entry_line e"
    then obtain e where e: "e \<in> set es" "l = entry_line e" by blast
    then have "\<forall>b \<in> set (os_of_path (pin_path e)). b < 256"
      using ok(2) os_of_path_bytes by (auto simp: pins_ok_def pin_path_ok_def)
    from tagged_read(3)[OF _ this] show ?thesis
      unfolding e(2) entry_line_tagged by (cases "pin_kind e") auto
  qed (use tagged_read(3)[OF _ ok(1)] in auto)
qed

lemma header_chars: "\<forall>c \<in> set (pins_header @ show_radix 10 1). c < 128 \<and> c \<noteq> 10 \<and> c \<noteq> 13"
  by (simp add: pins_header_def lit_def show_radix.simps digit_char_def)

lemma parse_render_pins:
  assumes "roots_ok roots"
  shows "parse_pins (render_pins roots) = Ok roots"
proof -
  let ?ls = "(pins_header @ show_radix 10 1) # concat (map root_lines roots)"
  have "\<forall>l \<in> set ?ls. 10 \<notin> set l \<and> 13 \<notin> set l"
    using root_lines_chars[OF assms] header_chars by fastforce
  then have "text_lines (render_pins roots) = ?ls" unfolding render_pins_def by (rule text_lines_unlines)
  moreover have "trim (show_radix 10 1) = show_radix 10 1"
    by (simp add: show_radix.simps digit_char_def trim_def is_whitespace_def)
  ultimately show ?thesis
    using parse_roots[OF assms, of "[]"] by (simp add: parse_pins_def)
qed

interpretation pins_text: text_codec render_pins "\<lambda>t. case parse_pins t of Ok r \<Rightarrow> Some r | _ \<Rightarrow> None" roots_ok
  by unfold_locales (simp add: parse_render_pins)

lemma render_pins_text: "roots_ok roots \<Longrightarrow> is_text (render_pins roots)"
  using root_lines_chars header_chars
  by (fastforce simp: render_pins_def unlines_def is_text_def intro: ascii_is_scalar)

end
