(* ===== verification/Pins_Contract.thy ===== *)
theory Pins_Contract
  imports Pins_Facts
begin

text \<open>
  What a \<open>PinRepository\<close> promises, as a locale: every root has one list, a load
  returns it, an update replaces it by the updated list or changes nothing.  The
  repository in memory and the one in a file both keep the promise, so any run of
  updates leaves the same lists in both.
\<close>

definition apply_or_keep :: "pin_update list \<Rightarrow> pinned_entry list \<Rightarrow> pinned_entry list" where
  "apply_or_keep us es = (case apply_all us es of Ok (c, es') \<Rightarrow> es' | _ \<Rightarrow> es)"

text \<open>A run of updates on named roots, and what it does to the list of one root.\<close>

fun run_lists :: "('k \<times> pin_update list) list \<Rightarrow> 'k \<Rightarrow> pinned_entry list \<Rightarrow> pinned_entry list" where
  "run_lists [] root es = es"
| "run_lists ((r, us) # ops) root es = run_lists ops root (if r = root then apply_or_keep us es else es)"

locale pin_repository =
  fixes load :: "path \<Rightarrow> 's \<Rightarrow> (pin_error, pin_snapshot) res \<times> 's"
    and change :: "path \<Rightarrow> pin_update list \<Rightarrow> 's \<Rightarrow> (pin_error, pin_snapshot) res \<times> 's"
    and good :: "'s \<Rightarrow> bool"
    and key :: "path \<Rightarrow> 'k"
    and pins_of :: "'s \<Rightarrow> 'k \<Rightarrow> pinned_entry list"
  assumes load_spec: "good s \<Longrightarrow>
      \<exists>rev s'. load root s = (Ok \<lparr>snap_entries = pins_of s (key root), snap_revision = rev\<rparr>, s') \<and> good s' \<and> pins_of s' = pins_of s"
    and change_error: "good s \<Longrightarrow> apply_all us (pins_of s (key root)) = Err e \<Longrightarrow> change root us s = (Err e, s)"
    and change_ok: "good s \<Longrightarrow> \<forall>u \<in> set us. update_plain u \<Longrightarrow> apply_all us (pins_of s (key root)) = Ok (c, es) \<Longrightarrow>
      \<exists>rev s'. change root us s = (Ok \<lparr>snap_entries = es, snap_revision = rev\<rparr>, s') \<and> good s' \<and>
        pins_of s' = (pins_of s)(key root := es)"
begin

definition run_changes :: "(path \<times> pin_update list) list \<Rightarrow> 's \<Rightarrow> 's" where
  "run_changes ops s = fold (\<lambda>(root, us) s. snd (change root us s)) ops s"

lemma change_lists:
  assumes "good s" and "\<forall>u \<in> set us. update_plain u"
  shows "good (snd (change root us s)) \<and>
    pins_of (snd (change root us s)) = (pins_of s)(key root := apply_or_keep us (pins_of s (key root)))"
proof (cases "apply_all us (pins_of s (key root))")
  case (Ok ces)
  then show ?thesis
    using change_ok[OF assms, of root "fst ces" "snd ces"] by (cases ces) (auto simp: apply_or_keep_def)
next
  case (Err e)
  then show ?thesis using change_error[OF assms(1) Err] assms(1) by (simp add: apply_or_keep_def)
qed (use apply_all_never_panics in auto)

lemma run_changes_lists:
  assumes "good s" and "\<forall>(root, us) \<in> set ops. \<forall>u \<in> set us. update_plain u"
  shows "good (run_changes ops s) \<and>
    pins_of (run_changes ops s) k = run_lists (map (\<lambda>(root, us). (key root, us)) ops) k (pins_of s k)"
  using assms
proof (induction ops arbitrary: s)
  case (Cons op ops)
  obtain root us where op: "op = (root, us)" by (cases op)
  let ?s = "snd (change root us s)"
  have c: "good ?s" "pins_of ?s = (pins_of s)(key root := apply_or_keep us (pins_of s (key root)))"
    using change_lists[OF Cons.prems(1), of us root] Cons.prems(2) op by auto
  have "\<forall>(root, us) \<in> set ops. \<forall>u \<in> set us. update_plain u" using Cons.prems(2) by auto
  from Cons.IH[OF c(1) this] show ?case using c(2) op by (auto simp: run_changes_def)
qed (simp add: run_changes_def)

end

section \<open>In memory\<close>

definition mem_pins_of :: "memory_pins \<Rightarrow> path \<Rightarrow> pinned_entry list" where
  "mem_pins_of s root = (case mem_roots s root of Some es \<Rightarrow> es | None \<Rightarrow> [])"

interpretation memory: pin_repository mem_load mem_update "\<lambda>_. True" "\<lambda>root. root" mem_pins_of
  by unfold_locales (auto simp: mem_load_def mem_update_def mem_pins_of_def Let_def fun_eq_iff)

section \<open>In a file\<close>

text \<open>A disk that can be read and written, and keys that are bytes.\<close>

definition disk_works :: "pin_disk \<Rightarrow> bool" where
  "disk_works D \<longleftrightarrow> pd_read_error D = None \<and> pd_write_error D = None \<and> (\<forall>p. \<forall>b \<in> set (pd_key D p). b < 256)"

definition file_good :: "pin_disk \<Rightarrow> file_pins \<Rightarrow> bool" where
  "file_good D s \<longleftrightarrow> disk_works D \<and>
     (pf_content s = None \<or> (\<exists>roots. roots_ok roots \<and> pf_content s = Some (as_bytes (render_pins roots))))"

definition stored_roots :: "pin_disk \<Rightarrow> file_pins \<Rightarrow> (os_string \<times> pinned_entry list) list" where
  "stored_roots D s = (case read_all D s of Ok roots \<Rightarrow> roots | _ \<Rightarrow> [])"

definition list_at :: "(os_string \<times> pinned_entry list) list \<Rightarrow> os_string \<Rightarrow> pinned_entry list" where
  "list_at roots k = (case map_of roots k of Some es \<Rightarrow> es | None \<Rightarrow> [])"

definition file_pins_of :: "pin_disk \<Rightarrow> file_pins \<Rightarrow> os_string \<Rightarrow> pinned_entry list" where
  "file_pins_of D s k = list_at (stored_roots D s) k"

lemma read_rendered:
  "pd_read_error D = None \<Longrightarrow> roots_ok roots \<Longrightarrow> pf_content s = Some (as_bytes (render_pins roots)) \<Longrightarrow> read_all D s = Ok roots"
  by (simp add: read_all_def decode_as_bytes render_pins_text parse_render_pins)

lemma file_good_read:
  assumes "file_good D s"
  obtains roots where "read_all D s = Ok roots" and "roots_ok roots"
proof (cases "pf_content s")
  case None
  then show ?thesis using assms that[of "[]"] by (simp add: file_good_def disk_works_def read_all_def roots_ok_def)
next
  case (Some bytes)
  then obtain roots where r: "roots_ok roots" "pf_content s = Some (as_bytes (render_pins roots))"
    using assms by (auto simp: file_good_def)
  have "pd_read_error D = None" using assms by (simp add: file_good_def disk_works_def)
  from that[OF read_rendered[OF this r] r(1)] show ?thesis .
qed

lemma set_root_keys: "set (map fst (set_root k es roots)) = insert k (set (map fst roots))"
  by (induction k es roots rule: set_root.induct) auto

lemma set_root_lookup: "map_of (set_root k es roots) = (map_of roots)(k \<mapsto> es)"
  by (induction k es roots rule: set_root.induct) (auto simp: fun_eq_iff)

lemma set_root_distinct: "distinct (map fst roots) \<Longrightarrow> distinct (map fst (set_root k es roots))"
proof (induction k es roots rule: set_root.induct)
  case (2 key es k old rest)
  then show ?case using set_root_keys[of key es rest] by (cases "k = key") simp_all
qed simp

lemma set_root_ok:
  assumes "roots_ok roots" and "pins_ok es" and "\<forall>b \<in> set k. b < 256"
  shows "roots_ok (set_root k es roots)"
proof -
  have "\<forall>(k', l) \<in> set (set_root k es roots). (\<forall>b \<in> set k'. b < 256) \<and> pins_ok l"
    if "\<forall>(k', l) \<in> set roots. (\<forall>b \<in> set k'. b < 256) \<and> pins_ok l"
    using that assms(2,3) by (induction k es roots rule: set_root.induct) auto
  then show ?thesis using assms(1) set_root_distinct by (simp add: roots_ok_def)
qed

lemma drop_empty_ok: "roots_ok roots \<Longrightarrow> roots_ok (filter (\<lambda>(k, l). l \<noteq> []) roots)"
  by (auto simp: roots_ok_def distinct_map_filter)

lemma drop_empty_lookup:
  "distinct (map fst roots) \<Longrightarrow> list_at (filter (\<lambda>(k, l). l \<noteq> []) roots) k = list_at roots k"
proof (induction roots)
  case (Cons r roots)
  obtain k' l where r: "r = (k', l)" by (cases r)
  show ?case
  proof (cases "k' = k")
    case True
    then have "map_of (filter (\<lambda>(k, l). l \<noteq> []) roots) k = None"
      using Cons.prems r by (force simp: map_of_eq_None_iff)
    then show ?thesis using True r by (simp add: list_at_def)
  next
    case False
    then show ?thesis using Cons r by (simp add: list_at_def)
  qed
qed (simp add: list_at_def)

lemma list_at_ok: "roots_ok roots \<Longrightarrow> pins_ok (list_at roots k)"
  by (auto simp: list_at_def roots_ok_def pins_ok_def split: option.splits dest!: map_of_SomeD)

lemma list_at_set_root: "list_at (set_root k es roots) = (list_at roots)(k := es)"
  by (simp add: list_at_def set_root_lookup fun_eq_iff)

lemma stored_read: "read_all D s = Ok roots \<Longrightarrow> stored_roots D s = roots"
  by (simp add: stored_roots_def)

lemma file_pins_read: "read_all D s = Ok roots \<Longrightarrow> file_pins_of D s = list_at roots"
  by (simp add: file_pins_of_def stored_roots_def fun_eq_iff)

text \<open>Reading depends on the stored bytes only.\<close>

lemma read_all_revision: "read_all D (s\<lparr>pf_revision := r\<rparr>) = read_all D s"
  by (cases "pd_read_error D") (simp_all add: read_all_def)

lemma file_good_revision: "file_good D (s\<lparr>pf_revision := r\<rparr>) = file_good D s"
  by (simp add: file_good_def)

lemma file_pins_revision: "file_pins_of D (s\<lparr>pf_revision := r\<rparr>) = file_pins_of D s"
  by (simp add: file_pins_of_def stored_roots_def read_all_revision fun_eq_iff)

lemma file_load_lists:
  assumes "file_good D s"
  shows "\<exists>rev s'. file_load D root s =
      (Ok \<lparr>snap_entries = file_pins_of D s (pd_key D root), snap_revision = rev\<rparr>, s') \<and>
    file_good D s' \<and> file_pins_of D s' = file_pins_of D s"
proof -
  obtain roots where r: "read_all D s = Ok roots" using file_good_read[OF assms] .
  then show ?thesis using assms
    by (simp add: file_load_def Let_def file_pins_read[OF r] list_at_def file_good_revision file_pins_revision)
qed

lemma file_change_error:
  assumes "file_good D s" and "apply_all us (file_pins_of D s (pd_key D root)) = Err e"
  shows "file_update D root us s = (Err e, s)"
proof -
  obtain roots where r: "read_all D s = Ok roots" using file_good_read[OF assms(1)] .
  then show ?thesis using assms(2) by (simp add: file_update_def file_pins_read[OF r] list_at_def)
qed

lemma file_change_ok:
  assumes "file_good D s" and "\<forall>u \<in> set us. update_plain u"
    and "apply_all us (file_pins_of D s (pd_key D root)) = Ok (c, es)"
  shows "\<exists>rev s'. file_update D root us s = (Ok \<lparr>snap_entries = es, snap_revision = rev\<rparr>, s') \<and> file_good D s' \<and>
      file_pins_of D s' = (file_pins_of D s)(pd_key D root := es)"
proof -
  obtain roots where r: "read_all D s = Ok roots" "roots_ok roots" using file_good_read[OF assms(1)] .
  let ?k = "pd_key D root"
  have a: "apply_all us (list_at roots ?k) = Ok (c, es)" using assms(3) by (simp add: file_pins_read[OF r(1)])
  have es: "pins_ok es" using apply_all_ok[OF a list_at_ok[OF r(2)] assms(2)] .
  show ?thesis
  proof (cases c)
    case False
    then have "es = list_at roots ?k" using a apply_all_unchanged by simp
    then show ?thesis using a False assms(1) r(1)
      by (auto simp: file_update_def list_at_def[symmetric] Let_def file_pins_read[OF r(1)] file_good_revision
          file_pins_revision fun_eq_iff)
  next
    case True
    let ?roots = "filter (\<lambda>(k, l). l \<noteq> []) (set_root ?k es roots)"
    let ?s = "s\<lparr>pf_content := Some (as_bytes (render_pins ?roots))\<rparr>"
    have d: "disk_works D" using assms(1) by (simp add: file_good_def)
    then have ok: "roots_ok (set_root ?k es roots)" using set_root_ok[OF r(2) es] by (auto simp: disk_works_def)
    have g: "file_good D ?s" using d drop_empty_ok[OF ok] by (auto simp: file_good_def)
    have "read_all D ?s = Ok ?roots" using d drop_empty_ok[OF ok] by (intro read_rendered) (auto simp: disk_works_def)
    from file_pins_read[OF this] have p: "file_pins_of D ?s = (list_at roots)(?k := es)"
      using drop_empty_lookup[of "set_root ?k es roots"] ok by (simp add: roots_ok_def list_at_set_root fun_eq_iff)
    have "file_update D root us s = (Ok \<lparr>snap_entries = es, snap_revision = pf_revision s + 1\<rparr>, ?s\<lparr>pf_revision := pf_revision s + 1\<rparr>)"
      using a True r(1) d by (simp add: file_update_def list_at_def[symmetric] write_all_def disk_works_def Let_def)
    then show ?thesis using g p by (simp add: file_good_revision file_pins_revision file_pins_read[OF r(1)])
  qed
qed

interpretation on_disk: pin_repository "file_load D" "file_update D" "file_good D" "pd_key D" "file_pins_of D" for D
  by unfold_locales (simp_all add: file_load_lists file_change_error file_change_ok)

end
