(* ===== verification/Pins_Claims.thy ===== *)
theory Pins_Claims
  imports Pins_Contract
begin












section \<open>In a file as in memory\<close>



definition note_pin :: pinned_entry where
  "note_pin = \<lparr>pin_path = [Normal (lit ''a.md'')], pin_kind = PinFile\<rparr>"





section \<open>The stored text\<close>

text \<open>C28: What is written reads back unchanged: for any lists of valid pins under distinct
  folders, whatever bytes the names hold, the stored bytes are UTF-8 and parse to
  the same folders with the same entries in the same order.\<close>

theorem stored_pins_read_back:
  assumes "roots_ok roots"
  shows "Option.bind (decode_utf8 (as_bytes (render_pins roots))) (\<lambda>text. Some (parse_pins text)) = Some (Ok roots)"
  by (simp add: decode_as_bytes render_pins_text[OF assms] parse_render_pins[OF assms])

theorem stored_pins_read_back_witness:
  "Option.bind (decode_utf8 (as_bytes (render_pins [([47, 255], [note_pin])]))) (\<lambda>text. Some (parse_pins text)) =
   Some (Ok [([47, 255], [note_pin])])"
  by (rule stored_pins_read_back)
    (simp add: roots_ok_def pins_ok_def pin_path_ok_def plain_path_def name_ok_def note_pin_def lit_def hane_dir_def)

section \<open>Nothing is lost\<close>



end
