(* ===== verification/Height_Index.thy ===== *)
theory Height_Index
  imports Prelude
begin

unbundle bit_operations_syntax

text \<open>
  The height index (\<open>crates/presentation/src/height_index.rs\<close>): block heights in
  bounded chunks, with two Fenwick trees over the chunks for height sums and item
  counts.  Heights are of any ordered type with zero, addition and subtraction, so the
  definitions say nothing about \<open>f32\<close> rounding; what needs exact addition is stated
  for an ordered group.  A step \<open>1 << q\<close> is kept as its exponent \<open>q\<close>.
\<close>

section \<open>Fenwick trees\<close>

text \<open>\<open>index & index.wrapping_neg()\<close>.\<close>

definition lowest_one :: "nat \<Rightarrow> nat" where
  "lowest_one i = nat (int i AND - int i)"

lemma lowest_one_0 [simp]: "lowest_one 0 = 0"
  by (simp add: lowest_one_def)

lemma lowest_one_even: "lowest_one (2 * k) = 2 * lowest_one k"
proof -
  have "int (2 * k) AND - int (2 * k) = 2 * (int k AND - int k)"
  proof -
    have "- (2 * int k) div 2 = - int k" by presburger
    then show ?thesis by (subst and_rec) simp
  qed
  then show ?thesis by (simp add: lowest_one_def nat_mult_distrib)
qed

lemma lowest_one_odd: "odd i \<Longrightarrow> lowest_one i = 1"
proof -
  assume "odd i"
  then obtain k where i: "i = 2 * k + 1" by (elim oddE)
  have "- int i div 2 = NOT (int k)" unfolding i by (simp add: not_int_def)
  then have "int i AND - int i = 1 + 2 * (int k AND NOT (int k))"
    unfolding i by (subst and_rec) simp
  then show ?thesis by (simp add: lowest_one_def)
qed

lemma lowest_one_le: "lowest_one i \<le> i" and lowest_one_pos: "0 < i \<Longrightarrow> 0 < lowest_one i"
proof (induction i rule: less_induct)
  case (less i)
  { case 1 then show ?case
      using less.IH(1)[of "i div 2"] by (cases "even i"; cases "i = 0") (auto simp: lowest_one_odd lowest_one_even elim!: evenE) }
  { case 2 then show ?case
      using less.IH(2)[of "i div 2"] by (cases "even i") (auto simp: lowest_one_odd lowest_one_even elim!: evenE) }
qed

definition retree_step :: "nat \<Rightarrow> 'a::plus list \<Rightarrow> 'a list" where
  "retree_step i t =
     (let parent = i + lowest_one i in if parent < length t then t[parent := t ! parent + t ! i] else t)"

definition retree_values :: "'a::{zero,plus} list \<Rightarrow> 'a list" where
  "retree_values vs = (let t = 0 # vs in fold retree_step [1..<length t] t)"

lemma clear_lowest_less: "0 < i \<Longrightarrow> i AND (i - 1) < (i :: nat)"
proof -
  assume "0 < i"
  have "int i AND int (i - 1) \<le> int (i - 1)" by (rule AND_upper2) simp
  then have "i AND (i - 1) \<le> i - 1" by (simp only: and_nat_def nat_le_iff)
  then show ?thesis using \<open>0 < i\<close> by linarith
qed

function prefix_loop :: "'a::plus list \<Rightarrow> nat \<Rightarrow> 'a \<Rightarrow> 'a" where
  "prefix_loop t i acc = (if 0 < i then prefix_loop t (i AND (i - 1)) (acc + t ! i) else acc)"
  by auto
termination by (relation "measure (\<lambda>(t, i, s). i)") (use clear_lowest_less in auto)

declare prefix_loop.simps [simp del]

definition tree_prefix :: "'a::{zero,plus} list \<Rightarrow> nat \<Rightarrow> 'a" where
  "tree_prefix t exclusive_end = prefix_loop t (min exclusive_end (length t - 1)) 0"

text \<open>\<open>while step << 1 < len { step <<= 1 }\<close>, and the descent from that step.\<close>

function first_step :: "nat \<Rightarrow> nat \<Rightarrow> nat" where
  "first_step n q = (if 2 ^ (q + 1) < n then first_step n (q + 1) else q)"
  by auto
termination
proof (relation "measure (\<lambda>(n, q). n - q)")
  fix n q :: nat assume "2 ^ (q + 1) < n"
  moreover have "q < 2 ^ (q + 1)" using less_exp[of "q + 1"] by linarith
  ultimately show "((n, q + 1), n, q) \<in> measure (\<lambda>(n, q). n - q)" by simp
qed simp

declare first_step.simps [simp del]

primrec descend :: "('a::plus \<Rightarrow> bool) \<Rightarrow> 'a list \<Rightarrow> nat \<Rightarrow> nat \<times> 'a \<Rightarrow> nat \<times> 'a" where
  "descend fits t 0 p = p"
| "descend fits t (Suc q) p =
     (let next = fst p + 2 ^ q
      in descend fits t q (if next < length t \<and> fits (snd p + t ! next) then (next, snd p + t ! next) else p))"

definition search_tree :: "('a::{zero,plus} \<Rightarrow> bool) \<Rightarrow> 'a list \<Rightarrow> nat \<times> 'a" where
  "search_tree fits t = descend fits t (Suc (first_step (length t) 0)) (0, 0)"

section \<open>The index\<close>

definition chunk_target :: nat where
  "chunk_target = 128"

record 'h height_chunk =
  hc_heights :: "'h list"
  hc_total :: 'h

record 'h height_index =
  hi_chunks :: "'h height_chunk list"
  hi_sums :: "'h list"
  hi_counts :: "nat list"
  hi_len :: nat

definition sum_heights :: "'h::{zero,plus} list \<Rightarrow> 'h" where
  "sum_heights hs = foldl (+) 0 hs"

definition chunk_new :: "'h::{zero,plus} list \<Rightarrow> 'h height_chunk" where
  "chunk_new hs = \<lparr>hc_heights = hs, hc_total = sum_heights hs\<rparr>"

text \<open>\<open>slice::chunks\<close>.\<close>

function pieces :: "nat \<Rightarrow> 'a list \<Rightarrow> 'a list list" where
  "pieces n xs = (if xs = [] \<or> n = 0 then [] else take n xs # pieces n (drop n xs))"
  by auto
termination by (relation "measure (\<lambda>(n, xs). length xs)") auto

declare pieces.simps [simp del]

definition retree :: "'h::{zero,plus} height_index \<Rightarrow> 'h height_index" where
  "retree ix =
     ix\<lparr>hi_sums := retree_values (map hc_total (hi_chunks ix)),
        hi_counts := retree_values (map (\<lambda>c. length (hc_heights c)) (hi_chunks ix))\<rparr>"

definition height_index_new :: "'h::{zero,plus,linorder} list \<Rightarrow> 'h height_index" where
  "height_index_new heights =
     (let heights = map (\<lambda>h. max h 0) heights
      in retree \<lparr>hi_chunks = map chunk_new (pieces chunk_target heights), hi_sums = [], hi_counts = [],
                 hi_len = length heights\<rparr>)"

definition search_counts :: "'h height_index \<Rightarrow> nat \<Rightarrow> nat \<times> nat" where
  "search_counts ix ordinal = search_tree (\<lambda>count. count \<le> ordinal) (hi_counts ix)"

definition locate :: "'h height_index \<Rightarrow> nat \<Rightarrow> (nat \<times> nat) option" where
  "locate ix ordinal =
     (if hi_len ix \<le> ordinal then None
      else let (chunk, before) = search_counts ix ordinal in Some (chunk, ordinal - before))"

definition locate_insert :: "'h height_index \<Rightarrow> nat \<Rightarrow> nat \<times> nat" where
  "locate_insert ix ordinal =
     (case locate ix ordinal of
        Some p \<Rightarrow> p
      | None \<Rightarrow> (case last_of (hi_chunks ix) of
          Some c \<Rightarrow> (length (hi_chunks ix) - 1, length (hc_heights c))
        | None \<Rightarrow> (0, 0)))"

function add_sum_loop :: "'h::plus \<Rightarrow> nat \<Rightarrow> 'h list \<Rightarrow> 'h list" where
  "add_sum_loop delta node t =
     (if 0 < node \<and> node < length t then add_sum_loop delta (node + lowest_one node) (t[node := t ! node + delta]) else t)"
  by auto
termination by (relation "measure (\<lambda>(d, node, t). length t - node)") (auto intro: diff_less_mono2 simp: lowest_one_pos)

declare add_sum_loop.simps [simp del]

text \<open>The node is \<open>chunk + 1\<close>, so the loop's bound is the only test that matters.\<close>

definition add_sum :: "nat \<Rightarrow> 'h::plus \<Rightarrow> 'h height_index \<Rightarrow> 'h height_index" where
  "add_sum chunk delta ix = ix\<lparr>hi_sums := add_sum_loop delta (chunk + 1) (hi_sums ix)\<rparr>"

definition elem_at :: "'a list \<Rightarrow> nat \<Rightarrow> (unit, 'a) res" where
  "elem_at xs i = (case get xs i of Some x \<Rightarrow> Ok x | None \<Rightarrow> Panic)"

definition update_height ::
  "nat \<Rightarrow> 'h::{zero,plus,minus,linorder} \<Rightarrow> 'h height_index \<Rightarrow> (unit, 'h height_index) res" where
  "update_height i height ix =
     (let next = max height 0 in
      case locate ix i of
        None \<Rightarrow> Panic
      | Some (chunk, slot) \<Rightarrow>
          res_bind (elem_at (hi_chunks ix) chunk) (\<lambda>c.
          res_bind (elem_at (hc_heights c) slot) (\<lambda>old.
          let delta = next - old;
              c' = \<lparr>hc_heights = (hc_heights c)[slot := next], hc_total = hc_total c + delta\<rparr>
          in Ok (add_sum chunk delta (ix\<lparr>hi_chunks := (hi_chunks ix)[chunk := c']\<rparr>)))))"

definition height_at :: "'h height_index \<Rightarrow> nat \<Rightarrow> (unit, 'h option) res" where
  "height_at ix i =
     (case locate ix i of
        None \<Rightarrow> Ok None
      | Some (chunk, slot) \<Rightarrow>
          res_bind (elem_at (hi_chunks ix) chunk) (\<lambda>c. res_map Some (elem_at (hc_heights c) slot)))"

definition splice_heights ::
  "nat \<Rightarrow> nat \<Rightarrow> 'h::{zero,plus,linorder} list \<Rightarrow> 'h height_index \<Rightarrow> (unit, 'h height_index) res" where
  "splice_heights start stop heights ix =
     (if \<not> (start \<le> stop \<and> stop \<le> hi_len ix) then Panic
      else
        let inserted = map (\<lambda>h. max h 0) heights;
            (first_chunk, first_slot) = locate_insert ix start;
            (last_chunk, last_slot) = locate_insert ix stop;
            before = (case get (hi_chunks ix) first_chunk of
                        Some c \<Rightarrow> take (min first_slot (length (hc_heights c))) (hc_heights c) | None \<Rightarrow> []);
            after = (case get (hi_chunks ix) last_chunk of
                       Some c \<Rightarrow> drop (min last_slot (length (hc_heights c))) (hc_heights c) | None \<Rightarrow> []);
            replacement = map chunk_new (pieces chunk_target (before @ inserted @ after));
            end_chunk = min (last_chunk + 1) (length (hi_chunks ix))
        in Ok (retree (ix\<lparr>hi_chunks := take (min first_chunk end_chunk) (hi_chunks ix) @ replacement
                            @ drop end_chunk (hi_chunks ix),
                          hi_len := hi_len ix - (stop - start) + length inserted\<rparr>)))"

definition prefix_sum :: "'h::{zero,plus} height_index \<Rightarrow> nat \<Rightarrow> (unit, 'h) res" where
  "prefix_sum ix exclusive_end =
     (case locate ix (min exclusive_end (hi_len ix)) of
        None \<Rightarrow> Ok (tree_prefix (hi_sums ix) (length (hi_chunks ix)))
      | Some (chunk, slot) \<Rightarrow>
          res_bind (elem_at (hi_chunks ix) chunk) (\<lambda>c.
          if length (hc_heights c) < slot then Panic
          else Ok (tree_prefix (hi_sums ix) chunk + sum_heights (take slot (hc_heights c)))))"

definition total_height :: "'h::{zero,plus} height_index \<Rightarrow> (unit, 'h) res" where
  "total_height ix = prefix_sum ix (hi_len ix)"

text \<open>The scan of one chunk: the first slot whose running height passes the target.\<close>

fun scan_slots :: "'h::{plus,linorder} \<Rightarrow> nat \<Rightarrow> 'h \<Rightarrow> 'h list \<Rightarrow> nat option" where
  "scan_slots target slot acc [] = None"
| "scan_slots target slot acc (h # hs) = (if target < acc + h then Some slot else scan_slots target (slot + 1) (acc + h) hs)"

definition block_at_y :: "'h::{zero,plus,minus,linorder} height_index \<Rightarrow> 'h \<Rightarrow> (unit, nat) res" where
  "block_at_y ix y =
     (if hi_len ix = 0 then Ok 0
      else
        res_bind (total_height ix) (\<lambda>whole.
        if whole < 0 then Panic
        else
          let target = min (max y 0) whole;
              (chunk, acc) = search_tree (\<lambda>s. s \<le> target) (hi_sums ix)
          in
          res_bind
            (if length (hi_chunks ix) \<le> chunk
             then (if hi_chunks ix = [] then Panic
                   else Ok (length (hi_chunks ix) - 1, acc - hc_total (last (hi_chunks ix))))
             else Ok (chunk, acc)) (\<lambda>(chunk, acc).
          res_bind (elem_at (hi_chunks ix) chunk) (\<lambda>c.
          let ordinal = tree_prefix (hi_counts ix) chunk in
          case scan_slots target 0 acc (hc_heights c) of
            Some slot \<Rightarrow> Ok (ordinal + slot)
          | None \<Rightarrow> Ok (min (ordinal + (length (hc_heights c) - 1)) (hi_len ix - 1))))))"

definition visible_range ::
  "'h::{zero,plus,minus,linorder} height_index \<Rightarrow> 'h \<Rightarrow> 'h \<Rightarrow> 'h \<Rightarrow> (unit, nat \<times> nat) res" where
  "visible_range ix scroll_y viewport overscan =
     (if hi_len ix = 0 then Ok (0, 0)
      else
        res_bind (block_at_y ix (max (scroll_y - overscan) 0)) (\<lambda>start.
        res_map (\<lambda>b. (start, min (b + 1) (hi_len ix))) (block_at_y ix (scroll_y + viewport + overscan))))"

section \<open>Scroll anchors\<close>

text \<open>Of a block this reads its id and its \<open>height()\<close>; the visual hint of an anchor is not read.\<close>

record ('id, 'h) scroll_anchor =
  sa_block :: 'id
  sa_intra_y :: 'h

fun block_position :: "'id \<Rightarrow> ('id \<times> 'h) list \<Rightarrow> nat option" where
  "block_position b [] = None"
| "block_position b ((i, h) # bs) = (if i = b then Some 0 else map_option Suc (block_position b bs))"

definition anchored_scroll_y ::
  "('id, 'h::{zero,plus,linorder}) scroll_anchor \<Rightarrow> ('id \<times> 'h) list \<Rightarrow> 'h height_index \<Rightarrow> (unit, 'h option) res" where
  "anchored_scroll_y anchor blocks heights =
     (case block_position (sa_block anchor) blocks of
        None \<Rightarrow> Ok None
      | Some i \<Rightarrow>
          res_bind (prefix_sum heights i) (\<lambda>y.
          let h = snd (blocks ! i)
          in if h < 0 then Panic else Ok (Some (y + min (max (sa_intra_y anchor) 0) h))))"

end
