(* ===== verification/Fenwick_Facts.thy ===== *)
theory Fenwick_Facts
  imports Height_Index
begin

unbundle bit_operations_syntax

text \<open>
  What the Fenwick trees of the height index store.  Node \<open>i\<close> covers the elements
  \<open>x\<close> with \<open>i - lowest_one i < x \<le> i\<close>; everything is by halving \<open>i\<close>.
\<close>

section \<open>Covered elements\<close>

definition covers :: "nat \<Rightarrow> nat \<Rightarrow> bool" where
  "covers i x \<longleftrightarrow> i - lowest_one i < x \<and> x \<le> i"

lemma clear_lowest: "0 < i \<Longrightarrow> i AND (i - 1) = i - lowest_one i"
proof (induction i rule: less_induct)
  case (less i)
  show ?case
  proof (cases "even i")
    case True
    then obtain k where i: "i = 2 * k" by (elim evenE)
    have "(i - 1) div 2 = k - 1" using i less.prems by presburger
    then have "i AND (i - 1) = 2 * (k AND (k - 1))"
      using i by (subst and_rec) simp
    then show ?thesis using less.IH[of k] less.prems i by (simp add: lowest_one_even diff_mult_distrib2)
  next
    case False
    then obtain k where "i = 2 * k + 1" by (elim oddE)
    then show ?thesis by (subst and_rec) (simp add: lowest_one_odd)
  qed
qed

lemma covers_odd: "odd i \<Longrightarrow> covers i x \<longleftrightarrow> x = i"
  using odd_pos[of i] by (auto simp: covers_def lowest_one_odd)

lemma covers_even: "covers (2 * k) x \<longleftrightarrow> covers k ((x + 1) div 2)"
  by (auto simp: covers_def lowest_one_even)

lemma covers_refl: "0 < i \<Longrightarrow> covers i i"
  using lowest_one_pos[of i] by (auto simp: covers_def)

lemma next_even: "0 < x \<Longrightarrow> even (x + lowest_one x)"
  by (cases "even x") (auto simp: lowest_one_odd lowest_one_even elim!: evenE)

text \<open>Node \<open>i\<close> covers \<open>x\<close> exactly if it is reached from \<open>x\<close> by adding lowest ones.\<close>

lemma covers_next: "0 < x \<Longrightarrow> x < i \<Longrightarrow> covers i x \<longleftrightarrow> covers i (x + lowest_one x)"
proof (induction i arbitrary: x rule: less_induct)
  case (less i)
  show ?case
  proof (cases "even i")
    case False
    then show ?thesis using next_even[OF less.prems(1)] less.prems by (auto simp: covers_odd)
  next
    case True
    then obtain k where i: "i = 2 * k" by (elim evenE)
    show ?thesis
    proof (cases "even x")
      case True
      then obtain y where x: "x = 2 * y" by (elim evenE)
      have "(x + 1) div 2 = y" "(x + lowest_one x + 1) div 2 = y + lowest_one y"
        using x by (simp_all add: lowest_one_even)
      then show ?thesis using less.IH[of k y] less.prems i x by (simp add: covers_even)
    next
      case False
      then have "(x + 1) div 2 = (x + lowest_one x + 1) div 2" by (simp add: lowest_one_odd)
      then show ?thesis using i by (simp only: covers_even)
    qed
  qed
qed

lemma covers_child: "covers i x \<Longrightarrow> x < i \<Longrightarrow> \<exists>c < i. c + lowest_one c = i \<and> covers c x"
proof (induction i arbitrary: x rule: less_induct)
  case (less i)
  have "even i" using covers_odd[of i x] less.prems by auto
  then obtain k where i: "i = 2 * k" by (elim evenE)
  show ?case
  proof (cases "(x + 1) div 2 < k")
    case True
    then obtain c where "c < k" "c + lowest_one c = k" "covers c ((x + 1) div 2)"
      using less.IH[of k "(x + 1) div 2"] less.prems i by (auto simp: covers_even)
    then show ?thesis using i by (intro exI[of _ "2 * c"]) (simp add: lowest_one_even covers_even)
  next
    case False
    then have "2 * k \<le> x + 1" by (simp add: not_less less_eq_div_iff_mult_less_eq)
    then have x: "x = i - 1" using less.prems(2) i by simp
    have "odd x" using x less.prems(2) i by simp
    then show ?thesis using less.prems(2) x
      by (intro exI[of _ x]) (simp add: lowest_one_odd covers_odd)
  qed
qed

lemma covers_trans: "covers c x \<Longrightarrow> covers i c \<Longrightarrow> covers i x"
proof (induction i arbitrary: x c rule: less_induct)
  case (less i)
  show ?case
  proof (cases "even i")
    case False
    then show ?thesis using less.prems by (simp add: covers_odd)
  next
    case True
    then obtain k where i: "i = 2 * k" by (elim evenE)
    show ?thesis
    proof (cases "even c")
      case False
      then show ?thesis using less.prems by (simp add: covers_odd)
    next
      case True
      then obtain d where c: "c = 2 * d" by (elim evenE)
      have "covers k d" using less.prems(2) i c by (simp add: covers_even)
      moreover have "covers d ((x + 1) div 2)" using less.prems(1) c by (simp add: covers_even)
      moreover have "k < i" using less.prems(2) i by (auto simp: covers_def)
      ultimately show ?thesis using less.IH i by (simp add: covers_even)
    qed
  qed
qed

lemma covers_parent: "0 < c \<Longrightarrow> c + lowest_one c = i \<Longrightarrow> covers i c"
  using covers_next[of c i] lowest_one_pos[of c] covers_refl[of i] by simp

lemma covers_one_child:
  assumes "c + lowest_one c = i" and "d + lowest_one d = i" and "covers c x" and "covers d x"
  shows "c = d"
proof -
  have False if "c < d" "c + lowest_one c = i" "d + lowest_one d = i" "covers c x" "covers d x" for c d
  proof -
    have "0 < c" using that(4) by (auto simp: covers_def)
    moreover have "covers d c" using that by (auto simp: covers_def)
    ultimately have "covers d i" using covers_next[of c d] that(1,2) by simp
    then show False using that(1,3) lowest_one_pos[of d] by (auto simp: covers_def)
  qed
  then show ?thesis using assms by (cases c d rule: linorder_cases) blast+
qed

section \<open>Trees of a list\<close>

definition elem :: "'a list \<Rightarrow> nat \<Rightarrow> 'a" where
  "elem vs x = vs ! (x - 1)"

definition node_sum :: "'a::comm_monoid_add list \<Rightarrow> nat \<Rightarrow> 'a" where
  "node_sum vs i = (\<Sum>x | covers i x. elem vs x)"

definition tree_of :: "'a::comm_monoid_add list \<Rightarrow> 'a list \<Rightarrow> bool" where
  "tree_of vs t \<longleftrightarrow> length t = length vs + 1 \<and> (\<forall>i. 0 < i \<and> i \<le> length vs \<longrightarrow> t ! i = node_sum vs i)"

lemma finite_covers [simp]: "finite {x. covers i x \<and> P x}" "finite {x. covers i x}"
  by (rule finite_subset[of _ "{..i}"]; auto simp: covers_def)+

text \<open>After the nodes up to \<open>k\<close> have been added to their parents.\<close>

definition gathered :: "'a::comm_monoid_add list \<Rightarrow> nat \<Rightarrow> nat \<Rightarrow> 'a" where
  "gathered vs k i = (\<Sum>x | covers i x \<and> (x = i \<or> (\<exists>c \<le> k. c + lowest_one c = i \<and> covers c x)). elem vs x)"

lemma gathered_0: "0 < i \<Longrightarrow> gathered vs 0 i = elem vs i"
proof -
  assume "0 < i"
  then have "{x. covers i x \<and> (x = i \<or> (\<exists>c \<le> 0. c + lowest_one c = i \<and> covers c x))} = {i}"
    using covers_refl[of i] by auto
  then show ?thesis by (simp add: gathered_def)
qed

lemma gathered_all: "i \<le> k + 1 \<Longrightarrow> gathered vs k i = node_sum vs i"
proof -
  assume "i \<le> k + 1"
  then have "covers i x \<Longrightarrow> x = i \<or> (\<exists>c \<le> k. c + lowest_one c = i \<and> covers c x)" for x
    using covers_child[of i x] by (fastforce simp: covers_def)
  then show ?thesis unfolding gathered_def node_sum_def by (intro sum.cong) auto
qed

lemma gathered_other: "Suc k + lowest_one (Suc k) \<noteq> i \<Longrightarrow> gathered vs (Suc k) i = gathered vs k i"
  unfolding gathered_def by (intro sum.cong) (auto simp: le_Suc_eq)

lemma gathered_parent:
  assumes "Suc k + lowest_one (Suc k) = i"
  shows "gathered vs (Suc k) i = gathered vs k i + node_sum vs (Suc k)"
proof -
  let ?A = "{x. covers i x \<and> (x = i \<or> (\<exists>c \<le> k. c + lowest_one c = i \<and> covers c x))}"
  let ?B = "{x. covers (Suc k) x}"
  have pa: "covers i (Suc k)" and less: "Suc k < i"
    using covers_parent[OF _ assms] lowest_one_pos[of "Suc k"] assms by auto
  have "{x. covers i x \<and> (x = i \<or> (\<exists>c \<le> Suc k. c + lowest_one c = i \<and> covers c x))} = ?A \<union> ?B"
    using assms covers_trans[OF _ pa] by (auto simp: le_Suc_eq)
  moreover have "?A \<inter> ?B = {}"
    using covers_one_child[OF _ assms] less by (fastforce simp: covers_def)
  ultimately show ?thesis by (simp add: gathered_def node_sum_def sum.union_disjoint)
qed

lemma length_retree_step [simp]: "length (retree_step i t) = length t"
  by (simp add: retree_step_def Let_def)

lemma retree_steps:
  assumes "k \<le> length vs"
  shows "length (fold retree_step [1..<Suc k] (0 # vs)) = Suc (length vs) \<and>
    (\<forall>i. 0 < i \<and> i \<le> length vs \<longrightarrow> fold retree_step [1..<Suc k] (0 # vs) ! i = gathered vs k i)"
  using assms
proof (induction k)
  case 0
  then show ?case by (auto simp: gathered_0 elem_def nth_Cons')
next
  case (Suc k)
  let ?t = "fold retree_step [1..<Suc k] (0 # vs)"
  have t: "length ?t = Suc (length vs)" "\<And>i. 0 < i \<Longrightarrow> i \<le> length vs \<Longrightarrow> ?t ! i = gathered vs k i"
    using Suc by auto
  have s: "fold retree_step [1..<Suc (Suc k)] (0 # vs) = retree_step (Suc k) ?t" by simp
  have "retree_step (Suc k) ?t ! i = gathered vs (Suc k) i" if i: "0 < i" "i \<le> length vs" for i
  proof (cases "Suc k + lowest_one (Suc k) = i")
    case True
    then have "retree_step (Suc k) ?t ! i = ?t ! i + ?t ! Suc k" using i t(1) by (simp add: retree_step_def Let_def)
    then show ?thesis using gathered_parent[OF True, of vs] gathered_all[of "Suc k" k vs] t(2) i Suc.prems by simp
  next
    case False
    then have "retree_step (Suc k) ?t ! i = ?t ! i" by (simp add: retree_step_def Let_def)
    then show ?thesis using gathered_other[OF False, of vs] t(2) i by simp
  qed
  then show ?case using t(1) s by simp
qed

lemma tree_of_retree: "tree_of vs (retree_values vs)"
proof -
  have "[1..<length (0 # vs)] = [1..<Suc (length vs)]" by simp
  then show ?thesis using retree_steps[of "length vs" vs] gathered_all[of _ "length vs" vs]
    by (simp add: tree_of_def retree_values_def Let_def del: upt_Suc)
qed

section \<open>Prefixes\<close>

definition prefix_value :: "'a::comm_monoid_add list \<Rightarrow> nat \<Rightarrow> 'a" where
  "prefix_value vs i = sum_list (take i vs)"

lemma prefix_value_sum: "i \<le> length vs \<Longrightarrow> prefix_value vs i = (\<Sum>x \<in> {1..i}. elem vs x)"
proof (induction i)
  case (Suc i)
  then have "prefix_value vs (Suc i) = prefix_value vs i + vs ! i"
    by (simp add: prefix_value_def take_Suc_conv_app_nth)
  then show ?case using Suc by (simp add: elem_def)
qed (simp add: prefix_value_def)

lemma prefix_node:
  assumes "0 < i" and "i \<le> length vs"
  shows "prefix_value vs i = prefix_value vs (i - lowest_one i) + node_sum vs i"
proof -
  have "{1..i} = {1..i - lowest_one i} \<union> {x. covers i x}" using lowest_one_pos[OF assms(1)] by (auto simp: covers_def)
  moreover have "{1..i - lowest_one i} \<inter> {x. covers i x} = {}" by (auto simp: covers_def)
  ultimately show ?thesis using assms by (simp add: prefix_value_sum node_sum_def sum.union_disjoint)
qed

lemma prefix_loop_tree:
  "tree_of vs t \<Longrightarrow> i \<le> length vs \<Longrightarrow> prefix_loop t i acc = acc + prefix_value vs i"
proof (induction t i acc rule: prefix_loop.induct)
  case (1 t i acc)
  show ?case
  proof (cases "0 < i")
    case True
    then have "prefix_loop t (i AND (i - 1)) (acc + t ! i) = (acc + t ! i) + prefix_value vs (i - lowest_one i)"
      using 1 clear_lowest[OF True] by simp
    then show ?thesis using True 1(2,3) prefix_node[OF True 1(3)]
      by (subst prefix_loop.simps) (simp add: tree_of_def ac_simps)
  qed (subst prefix_loop.simps, simp add: prefix_value_def)
qed

lemma tree_prefix_value: "tree_of vs t \<Longrightarrow> i \<le> length vs \<Longrightarrow> tree_prefix t i = prefix_value vs i"
  using prefix_loop_tree[of vs t i 0] by (simp add: tree_prefix_def tree_of_def)

section \<open>Point updates\<close>

lemma length_add_sum_loop [simp]: "length (add_sum_loop d node t) = length t"
  by (induction d node t rule: add_sum_loop.induct) (subst add_sum_loop.simps, simp)

lemma add_sum_loop_nth:
  "0 < node \<Longrightarrow> i < length t \<Longrightarrow>
   add_sum_loop (d :: 'a::comm_monoid_add) node t ! i = t ! i + (if node \<le> i \<and> covers i node then d else 0)"
proof (induction d node t rule: add_sum_loop.induct)
  case (1 d node t)
  let ?t = "t[node := t ! node + d]" and ?next = "node + lowest_one node"
  show ?case
  proof (cases "node < length t")
    case True
    then have s: "add_sum_loop d node t = add_sum_loop d ?next ?t" using 1 by (subst add_sum_loop.simps) simp
    have ih: "add_sum_loop d ?next ?t ! i = ?t ! i + (if ?next \<le> i \<and> covers i ?next then d else 0)"
      using 1 True by simp
    have pos: "0 < lowest_one node" using lowest_one_pos 1(2) .
    consider "i < node" | "i = node" | "node < i" by linarith
    then show ?thesis
    proof cases
      case 3
      then show ?thesis using s ih covers_next[OF 1(2) 3] by (auto simp: covers_def)
    qed (use s ih pos True covers_refl[OF 1(2)] in auto)
  next
    case False
    then show ?thesis using 1 by (subst add_sum_loop.simps) simp
  qed
qed

lemma node_sum_update:
  assumes "c < length vs"
  shows "node_sum (vs[c := vs ! c + d]) i = node_sum vs i + (if covers i (c + 1) then d else 0)"
proof -
  have e: "elem (vs[c := vs ! c + d]) x = elem vs x + (if x = c + 1 then d else 0)" if "0 < x" for x
    using assms that by (cases x) (auto simp: elem_def nth_list_update)
  have "node_sum (vs[c := vs ! c + d]) i = (\<Sum>x | covers i x. elem vs x + (if x = c + 1 then d else 0))"
    unfolding node_sum_def using e by (intro sum.cong) (auto simp: covers_def)
  then show ?thesis by (simp add: node_sum_def sum.distrib sum.delta)
qed

lemma tree_of_add:
  assumes "tree_of vs t" and "c < length vs"
  shows "tree_of (vs[c := vs ! c + d]) (add_sum_loop d (c + 1) t)"
  using assms by (auto simp: tree_of_def add_sum_loop_nth node_sum_update covers_def)

section \<open>Descents\<close>

lemma lowest_one_step: "lowest_one (2 ^ (q + 1) * k + 2 ^ q) = 2 ^ q"
proof (induction q)
  case (Suc q)
  have "2 ^ (Suc q + 1) * k + 2 ^ Suc q = 2 * (2 ^ (q + 1) * k + 2 ^ q)" by simp
  then show ?case using Suc lowest_one_even by (metis power_Suc)
qed (simp add: lowest_one_odd)

lemma first_step_covers: "n \<le> 2 ^ (first_step n q + 1)"
  by (induction n q rule: first_step.induct) (subst first_step.simps, simp)

text \<open>\<open>fits\<close> holds of the prefixes up to some place.\<close>

definition fits_prefixes :: "('a::comm_monoid_add \<Rightarrow> bool) \<Rightarrow> 'a list \<Rightarrow> bool" where
  "fits_prefixes fits vs \<longleftrightarrow> fits 0 \<and>
     (\<forall>i j. i \<le> j \<and> j \<le> length vs \<and> fits (prefix_value vs j) \<longrightarrow> fits (prefix_value vs i))"

definition last_fit :: "('a::comm_monoid_add \<Rightarrow> bool) \<Rightarrow> 'a list \<Rightarrow> nat \<Rightarrow> bool" where
  "last_fit fits vs m \<longleftrightarrow> m \<le> length vs \<and> fits (prefix_value vs m) \<and>
     (\<forall>j. m < j \<and> j \<le> length vs \<longrightarrow> \<not> fits (prefix_value vs j))"

lemma descend_last_fit:
  assumes "tree_of vs t" and "fits_prefixes fits vs"
    and "2 ^ q dvd i" and "i \<le> length vs" and "fits (prefix_value vs i)"
    and "length vs < i + 2 ^ q \<or> \<not> fits (prefix_value vs (i + 2 ^ q))"
  shows "\<exists>m. descend fits t q (i, prefix_value vs i) = (m, prefix_value vs m) \<and> last_fit fits vs m"
  using assms(3-6)
proof (induction q arbitrary: i)
  case 0
  have "\<not> fits (prefix_value vs j)" if "i < j" "j \<le> length vs" for j
    using that 0 assms(2) unfolding fits_prefixes_def by (metis Suc_eq_plus1 Suc_leI leD power_0 order_trans)
  then show ?case using 0 by (simp add: last_fit_def)
next
  case (Suc q)
  let ?next = "i + 2 ^ q"
  obtain k where "i = 2 ^ (q + 1) * k" using Suc.prems(1) by (auto elim: dvdE)
  then have l: "lowest_one ?next = 2 ^ q" using lowest_one_step[of q k] by simp
  have d: "2 ^ q dvd i" using Suc.prems(1) by (rule dvd_trans[rotated]) (simp add: le_imp_power_dvd)
  have node: "prefix_value vs i + t ! ?next = prefix_value vs ?next" if "?next \<le> length vs"
    using prefix_node[of ?next vs] that l assms(1) by (simp add: tree_of_def)
  have len: "?next < length t \<longleftrightarrow> ?next \<le> length vs" using assms(1) by (auto simp: tree_of_def)
  show ?case
  proof (cases "?next \<le> length vs \<and> fits (prefix_value vs ?next)")
    case True
    have "2 ^ q dvd ?next" using d by simp
    moreover have "length vs < ?next + 2 ^ q \<or> \<not> fits (prefix_value vs (?next + 2 ^ q))"
      using Suc.prems(4) by (simp add: add.assoc mult_2)
    ultimately show ?thesis using Suc.IH[of ?next] True node len by (simp add: Let_def)
  next
    case False
    then show ?thesis using Suc.IH[of i] Suc.prems d node len by (auto simp: Let_def)
  qed
qed

lemma search_tree_last_fit:
  assumes "tree_of vs t" and "fits_prefixes fits vs"
  shows "\<exists>m. search_tree fits t = (m, prefix_value vs m) \<and> last_fit fits vs m"
proof -
  have "length vs < 2 ^ Suc (first_step (length t) 0)"
    using first_step_covers[of "length t" 0] assms(1) by (simp add: tree_of_def)
  then show ?thesis
    using descend_last_fit[OF assms, of "Suc (first_step (length t) 0)" 0] assms(2)
    by (simp add: search_tree_def prefix_value_def fits_prefixes_def del: descend.simps)
qed

end
