(* ===== verification/Height_Facts.thy ===== *)
theory Height_Facts
  imports Fenwick_Facts
begin

text \<open>
  The height index is the list of its heights: where an ordinal lies, what the operations
  do to the list, and, when addition is exact, what the sums and the search by height mean.
\<close>

section \<open>Lists of chunks\<close>

lemma concat_pieces [simp]: "0 < n \<Longrightarrow> concat (pieces n xs) = xs"
  by (induction n xs rule: pieces.induct) (subst pieces.simps, simp)

lemma pieces_sizes: "0 < n \<Longrightarrow> p \<in> set (pieces n xs) \<Longrightarrow> p \<noteq> [] \<and> length p \<le> n"
proof (induction n xs rule: pieces.induct)
  case (1 n xs)
  show ?case
  proof (cases "xs = []")
    case True
    then show ?thesis using 1(3) by (subst (asm) pieces.simps) simp
  next
    case False
    then have "p = take n xs \<or> p \<in> set (pieces n (drop n xs))"
      using 1(2,3) by (subst (asm) pieces.simps) simp
    then show ?thesis using 1 False by auto
  qed
qed

definition offset_of :: "'a list list \<Rightarrow> nat \<Rightarrow> nat" where
  "offset_of xss c = length (concat (take c xss))"

lemma split_chunk: "c < length xss \<Longrightarrow> concat xss = concat (take c xss) @ xss ! c @ concat (drop (Suc c) xss)"
  by (metis append_Cons append_Nil append_assoc concat.simps concat_append id_take_nth_drop)

lemma offset_Suc: "c < length xss \<Longrightarrow> offset_of xss (Suc c) = offset_of xss c + length (xss ! c)"
  by (simp add: offset_of_def take_Suc_conv_app_nth)

lemma concat_nth_at: "c < length xss \<Longrightarrow> s < length (xss ! c) \<Longrightarrow> concat xss ! (offset_of xss c + s) = xss ! c ! s"
  by (subst split_chunk, assumption) (simp add: offset_of_def nth_append)

lemma concat_update_at:
  "c < length xss \<Longrightarrow> s < length (xss ! c) \<Longrightarrow>
   concat (xss[c := (xss ! c)[s := v]]) = (concat xss)[offset_of xss c + s := v]"
  by (subst (2) split_chunk, assumption)
    (simp add: offset_of_def list_update_append upd_conv_take_nth_drop)

lemma concat_take_at:
  "c < length xss \<Longrightarrow> s \<le> length (xss ! c) \<Longrightarrow>
   take (offset_of xss c + s) (concat xss) = concat (take c xss) @ take s (xss ! c)"
  by (subst split_chunk, assumption) (simp add: offset_of_def)

lemma concat_drop_at:
  "c < length xss \<Longrightarrow> s \<le> length (xss ! c) \<Longrightarrow>
   drop (offset_of xss c + s) (concat xss) = drop s (xss ! c) @ concat (drop (Suc c) xss)"
  by (subst split_chunk, assumption) (simp add: offset_of_def)

lemma offset_less: "c < length xss \<Longrightarrow> s < length (xss ! c) \<Longrightarrow> offset_of xss c + s < length (concat xss)"
  by (subst split_chunk, assumption) (simp add: offset_of_def)

lemma prefix_value_lengths: "prefix_value (map length xss) c = offset_of xss c"
  by (simp add: prefix_value_def offset_of_def length_concat take_map)

lemma offset_mono: "i \<le> j \<Longrightarrow> offset_of xss i \<le> offset_of xss j"
proof -
  assume "i \<le> j"
  then have "take j xss = take i xss @ take (j - i) (drop i xss)" by (metis le_add_diff_inverse take_add)
  then show ?thesis by (simp add: offset_of_def)
qed

lemma fits_offsets: "fits_prefixes (\<lambda>n. n \<le> i) (map length xss)"
  using offset_mono[of _ _ xss] by (auto simp: fits_prefixes_def prefix_value_lengths intro: order_trans)

section \<open>Shape\<close>

definition chunk_lists :: "'h height_index \<Rightarrow> 'h list list" where
  "chunk_lists ix = map hc_heights (hi_chunks ix)"

definition heights_of :: "'h height_index \<Rightarrow> 'h list" where
  "heights_of ix = concat (chunk_lists ix)"

definition shape_ok :: "'h::{zero,linorder} height_index \<Rightarrow> bool" where
  "shape_ok ix \<longleftrightarrow> hi_len ix = length (heights_of ix) \<and>
     (\<forall>hs \<in> set (chunk_lists ix). hs \<noteq> [] \<and> length hs \<le> chunk_target) \<and>
     (\<forall>h \<in> set (heights_of ix). 0 \<le> h) \<and>
     tree_of (map length (chunk_lists ix)) (hi_counts ix)"

lemma chunk_target_pos [simp]: "0 < chunk_target"
  by (simp add: chunk_target_def)

lemma locate_None: "shape_ok ix \<Longrightarrow> length (heights_of ix) \<le> i \<Longrightarrow> locate ix i = None"
  by (simp add: locate_def shape_ok_def)

lemma search_counts_spec:
  assumes "shape_ok ix" and "i < length (heights_of ix)"
  shows "\<exists>c. search_counts ix i = (c, offset_of (chunk_lists ix) c) \<and> c < length (chunk_lists ix) \<and>
    offset_of (chunk_lists ix) c \<le> i \<and> i < offset_of (chunk_lists ix) (Suc c)"
proof -
  let ?xss = "chunk_lists ix"
  obtain m where m: "search_counts ix i = (m, prefix_value (map length ?xss) m)"
      "last_fit (\<lambda>n. n \<le> i) (map length ?xss) m"
    using search_tree_last_fit[OF _ fits_offsets, of "chunk_lists ix" "hi_counts ix" i] assms(1)
    unfolding shape_ok_def search_counts_def by blast
  have "offset_of ?xss (length ?xss) = length (heights_of ix)" by (simp add: offset_of_def heights_of_def)
  then have "m \<noteq> length ?xss" using m(2) assms(2) by (auto simp: last_fit_def prefix_value_lengths)
  then have "m < length ?xss" using m(2) by (simp add: last_fit_def)
  then show ?thesis using m by (auto simp: last_fit_def prefix_value_lengths not_le)
qed

lemma locate_spec:
  assumes "shape_ok ix" and "i < length (heights_of ix)"
  obtains c s where "locate ix i = Some (c, s)" and "c < length (chunk_lists ix)"
    and "s < length (chunk_lists ix ! c)" and "i = offset_of (chunk_lists ix) c + s"
proof -
  obtain c where "search_counts ix i = (c, offset_of (chunk_lists ix) c)" "c < length (chunk_lists ix)"
      "offset_of (chunk_lists ix) c \<le> i" "i < offset_of (chunk_lists ix) (Suc c)"
    using search_counts_spec[OF assms] by blast
  then show ?thesis using that[of c "i - offset_of (chunk_lists ix) c"] assms offset_Suc[of c "chunk_lists ix"]
    by (simp add: locate_def shape_ok_def)
qed

lemma chunk_at: "c < length (chunk_lists ix) \<Longrightarrow> get (hi_chunks ix) c = Some (hi_chunks ix ! c) \<and>
    chunk_lists ix ! c = hc_heights (hi_chunks ix ! c)"
  by (simp add: chunk_lists_def get_def)

lemma length_chunk_lists: "length (chunk_lists ix) = length (hi_chunks ix)"
  by (simp add: chunk_lists_def)

lemma elem_at_chunk:
  "c < length (chunk_lists ix) \<Longrightarrow> elem_at (hi_chunks ix) c = Ok (hi_chunks ix ! c)"
  by (simp add: elem_at_def chunk_at)

lemma height_at_list:
  assumes "shape_ok ix"
  shows "height_at ix i = Ok (get (heights_of ix) i)"
proof (cases "i < length (heights_of ix)")
  case True
  obtain c s where l: "locate ix i = Some (c, s)" "c < length (chunk_lists ix)" "s < length (chunk_lists ix ! c)"
      "i = offset_of (chunk_lists ix) c + s"
    using locate_spec[OF assms True] .
  have "heights_of ix ! i = chunk_lists ix ! c ! s" unfolding heights_of_def l(4) using l(2,3) by (rule concat_nth_at)
  then show ?thesis using l True chunk_at[OF l(2)] elem_at_chunk[OF l(2)]
    by (simp add: height_at_def elem_at_def get_def)
next
  case False
  then show ?thesis using locate_None[OF assms, of i] by (simp add: height_at_def)
qed

section \<open>Building and splicing\<close>

lemma retree_simps [simp]:
  "hi_chunks (retree ix) = hi_chunks ix" "hi_len (retree ix) = hi_len ix"
  "chunk_lists (retree ix) = chunk_lists ix" "heights_of (retree ix) = heights_of ix"
  by (simp_all add: retree_def chunk_lists_def heights_of_def)

lemma retree_counts: "tree_of (map length (chunk_lists ix)) (hi_counts (retree ix))"
  using tree_of_retree[of "map length (chunk_lists ix)"] by (simp add: retree_def chunk_lists_def comp_def)

lemma chunk_lists_new [simp]: "map hc_heights (map chunk_new xss) = xss"
  by (induction xss) (simp_all add: chunk_new_def)

lemma height_index_new_list:
  "shape_ok (height_index_new hs) \<and> heights_of (height_index_new hs) = map (\<lambda>h. max h 0) hs"
proof -
  let ?ix = "\<lparr>hi_chunks = map chunk_new (pieces chunk_target (map (\<lambda>h. max h 0) hs)), hi_sums = [], hi_counts = [],
              hi_len = length hs\<rparr>"
  have n: "height_index_new hs = retree ?ix" by (simp add: height_index_new_def Let_def)
  have c: "chunk_lists ?ix = pieces chunk_target (map (\<lambda>h. max h 0) hs)"
    unfolding chunk_lists_def using chunk_lists_new by simp
  then have h: "heights_of ?ix = map (\<lambda>h. max h 0) hs" by (simp add: heights_of_def)
  have "shape_ok (retree ?ix)"
    using retree_counts[of ?ix] h c pieces_sizes[OF chunk_target_pos] by (auto simp: shape_ok_def)
  then show ?thesis using n h by simp
qed

lemma locate_insert_spec:
  assumes "shape_ok ix" and "i \<le> length (heights_of ix)" and "chunk_lists ix \<noteq> []"
  obtains c s where "locate_insert ix i = (c, s)" and "c < length (chunk_lists ix)"
    and "s \<le> length (chunk_lists ix ! c)" and "i = offset_of (chunk_lists ix) c + s"
proof (cases "i < length (heights_of ix)")
  case True
  obtain c s where "locate ix i = Some (c, s)" "c < length (chunk_lists ix)" "s < length (chunk_lists ix ! c)"
      "i = offset_of (chunk_lists ix) c + s"
    using locate_spec[OF assms(1) True] .
  then show ?thesis using that[of c s] by (simp add: locate_insert_def)
next
  case False
  let ?c = "length (chunk_lists ix) - 1"
  have ne: "hi_chunks ix \<noteq> []" and c: "?c < length (chunk_lists ix)" using assms(3) by (auto simp: chunk_lists_def)
  then have "last_of (hi_chunks ix) = Some (hi_chunks ix ! ?c)"
    by (simp add: last_of_eq last_conv_nth chunk_lists_def)
  then have "locate_insert ix i = (?c, length (chunk_lists ix ! ?c))"
    using locate_None[OF assms(1), of i] False chunk_at[OF c] by (simp add: locate_insert_def chunk_lists_def)
  moreover have "i = offset_of (chunk_lists ix) ?c + length (chunk_lists ix ! ?c)"
    using offset_Suc[OF c] assms False c by (simp add: offset_of_def heights_of_def)
  ultimately show ?thesis using that c by simp
qed

definition splice_list :: "nat \<Rightarrow> nat \<Rightarrow> 'a list \<Rightarrow> 'a list \<Rightarrow> 'a list" where
  "splice_list start stop new xs = take start xs @ new @ drop stop xs"

text \<open>The chunk lists around a splice.\<close>

definition spliced_chunks ::
  "nat \<Rightarrow> nat \<Rightarrow> 'h::{zero,plus,linorder} list \<Rightarrow> 'h height_index \<Rightarrow> 'h height_chunk list" where
  "spliced_chunks start stop inserted ix =
     (let (first_chunk, first_slot) = locate_insert ix start;
          (last_chunk, last_slot) = locate_insert ix stop;
          before = (case get (hi_chunks ix) first_chunk of
                      Some c \<Rightarrow> take (min first_slot (length (hc_heights c))) (hc_heights c) | None \<Rightarrow> []);
          after = (case get (hi_chunks ix) last_chunk of
                     Some c \<Rightarrow> drop (min last_slot (length (hc_heights c))) (hc_heights c) | None \<Rightarrow> []);
          end_chunk = min (last_chunk + 1) (length (hi_chunks ix))
      in take (min first_chunk end_chunk) (hi_chunks ix) @ map chunk_new (pieces chunk_target (before @ inserted @ after))
           @ drop end_chunk (hi_chunks ix))"

lemma splice_heights_eq:
  "splice_heights start stop heights ix =
     (if \<not> (start \<le> stop \<and> stop \<le> hi_len ix) then Panic
      else Ok (retree (ix\<lparr>hi_chunks := spliced_chunks start stop (map (\<lambda>h. max h 0) heights) ix,
                          hi_len := hi_len ix - (stop - start) + length heights\<rparr>)))"
  by (simp add: splice_heights_def spliced_chunks_def Let_def split: prod.splits)

lemma locate_insert_pair:
  assumes "shape_ok ix" and "start \<le> stop" and "stop \<le> length (heights_of ix)" and "chunk_lists ix \<noteq> []"
  obtains c s d e where "locate_insert ix start = (c, s)" and "c < length (chunk_lists ix)"
    and "s \<le> length (chunk_lists ix ! c)" and "start = offset_of (chunk_lists ix) c + s"
    and "locate_insert ix stop = (d, e)" and "d < length (chunk_lists ix)"
    and "e \<le> length (chunk_lists ix ! d)" and "stop = offset_of (chunk_lists ix) d + e" and "c \<le> d"
proof -
  let ?xss = "chunk_lists ix"
  have start: "start \<le> length (heights_of ix)" using assms(2,3) by linarith
  obtain c s where a: "locate_insert ix start = (c, s)" "c < length ?xss" "s \<le> length (?xss ! c)"
      "start = offset_of ?xss c + s"
    using locate_insert_spec[OF assms(1) start assms(4)] .
  obtain d e where b: "locate_insert ix stop = (d, e)" "d < length ?xss" "e \<le> length (?xss ! d)"
      "stop = offset_of ?xss d + e"
    using locate_insert_spec[OF assms(1,3,4)] .
  have "c \<le> d"
  proof (rule ccontr)
    assume "\<not> c \<le> d"
    then have "offset_of ?xss (Suc d) \<le> offset_of ?xss c" by (intro offset_mono) simp
    then have "offset_of ?xss d + length (?xss ! d) \<le> offset_of ?xss c" using offset_Suc[OF b(2)] by simp
    then have "stop = start" "s = 0" using a(4) b(3,4) assms(2) by auto
    then have "(c, s) = (d, e)" using a(1) b(1) by simp
    then show False using \<open>\<not> c \<le> d\<close> by simp
  qed
  then show ?thesis using that a b by blast
qed

lemma spliced_chunks_ends:
  assumes "shape_ok ix" and "start \<le> stop" and "stop \<le> length (heights_of ix)"
  shows "\<exists>mid. spliced_chunks start stop new ix = take (fst (locate_insert ix start)) (hi_chunks ix) @ mid
    @ drop (Suc (fst (locate_insert ix stop))) (hi_chunks ix)"
proof (cases "chunk_lists ix = []")
  case True
  then have "hi_chunks ix = []" by (simp add: chunk_lists_def)
  then show ?thesis by simp
next
  case False
  obtain c s d e where l: "locate_insert ix start = (c, s)" "locate_insert ix stop = (d, e)" "d < length (chunk_lists ix)" "c \<le> d"
    using locate_insert_pair[OF assms False] by metis
  then show ?thesis
    by (simp add: spliced_chunks_def Let_def length_chunk_lists min_absorb1)
qed

lemma spliced_chunks_list:
  assumes "shape_ok ix" and "start \<le> stop" and "stop \<le> length (heights_of ix)"
  shows "concat (map hc_heights (spliced_chunks start stop new ix)) = splice_list start stop new (heights_of ix) \<and>
    (\<forall>hs \<in> set (map hc_heights (spliced_chunks start stop new ix)). hs \<noteq> [] \<and> length hs \<le> chunk_target)"
proof (cases "chunk_lists ix = []")
  case True
  then have "hi_chunks ix = []" by (simp add: chunk_lists_def)
  moreover have "locate ix i = None" for i using locate_None[OF assms(1), of i] True by (simp add: heights_of_def)
  ultimately show ?thesis
    using assms(3) pieces_sizes[OF chunk_target_pos, of _ new] True
    by (simp add: spliced_chunks_def locate_insert_def last_of_def splice_list_def heights_of_def
        chunk_lists_new[unfolded map_map])
next
  case False
  let ?xss = "chunk_lists ix"
  obtain c s d e where a: "locate_insert ix start = (c, s)" "c < length ?xss" "s \<le> length (?xss ! c)"
      "start = offset_of ?xss c + s"
    and b: "locate_insert ix stop = (d, e)" "d < length ?xss" "e \<le> length (?xss ! d)" "stop = offset_of ?xss d + e"
    and cd: "c \<le> d"
    using locate_insert_pair[OF assms False] .
  let ?m = "take s (?xss ! c) @ new @ drop e (?xss ! d)"
  have m: "map hc_heights (spliced_chunks start stop new ix) =
      take c ?xss @ pieces chunk_target ?m @ drop (Suc d) ?xss"
  proof -
    have "spliced_chunks start stop new ix = take c (hi_chunks ix) @ map chunk_new (pieces chunk_target ?m)
        @ drop (Suc d) (hi_chunks ix)"
      unfolding spliced_chunks_def a(1) b(1) Let_def prod.case chunk_at[OF a(2), THEN conjunct1]
        chunk_at[OF b(2), THEN conjunct1] option.case chunk_at[OF a(2), THEN conjunct2, symmetric]
        chunk_at[OF b(2), THEN conjunct2, symmetric]
      using a(2,3) b(2,3) cd by (simp add: min_absorb1 min_absorb2 length_chunk_lists)
    then show ?thesis
      using chunk_lists_new[of "pieces chunk_target ?m"] by (simp add: chunk_lists_def take_map drop_map)
  qed
  have "concat (take c ?xss) @ take s (?xss ! c) = take start (heights_of ix)"
    "drop e (?xss ! d) @ concat (drop (Suc d) ?xss) = drop stop (heights_of ix)"
    using concat_take_at[OF a(2,3)] concat_drop_at[OF b(2,3)] a(4) b(4) by (simp_all add: heights_of_def)
  then have "concat (map hc_heights (spliced_chunks start stop new ix)) = splice_list start stop new (heights_of ix)"
    unfolding m splice_list_def by simp
  moreover have "hs \<noteq> [] \<and> length hs \<le> chunk_target"
    if "hs \<in> set (map hc_heights (spliced_chunks start stop new ix))" for hs
    using that assms(1) pieces_sizes[OF chunk_target_pos] unfolding m shape_ok_def
    by (auto dest: in_set_takeD in_set_dropD)
  ultimately show ?thesis by blast
qed

lemma splice_heights_list:
  assumes "shape_ok ix" and "start \<le> stop" and "stop \<le> length (heights_of ix)"
  shows "\<exists>ix'. splice_heights start stop hs ix = Ok ix' \<and> shape_ok ix' \<and>
    heights_of ix' = splice_list start stop (map (\<lambda>h. max h 0) hs) (heights_of ix)"
proof -
  let ?new = "map (\<lambda>h. max h 0) hs"
  let ?ix = "ix\<lparr>hi_chunks := spliced_chunks start stop ?new ix, hi_len := hi_len ix - (stop - start) + length hs\<rparr>"
  have h: "heights_of ?ix = splice_list start stop ?new (heights_of ix)"
    and s: "\<forall>hs \<in> set (chunk_lists ?ix). hs \<noteq> [] \<and> length hs \<le> chunk_target"
    using spliced_chunks_list[OF assms, of ?new] by (simp_all add: heights_of_def chunk_lists_def)
  have "hi_len ?ix = length (heights_of ?ix)" unfolding h using assms by (simp add: splice_list_def shape_ok_def)
  moreover have "\<forall>x \<in> set (heights_of ?ix). 0 \<le> x" unfolding h using assms(1)
    by (auto simp: splice_list_def shape_ok_def dest: in_set_takeD in_set_dropD)
  ultimately have "shape_ok (retree ?ix)" using s retree_counts[of ?ix] by (simp add: shape_ok_def)
  moreover have "splice_heights start stop hs ix = Ok (retree ?ix)"
    using assms by (simp add: splice_heights_eq shape_ok_def)
  moreover have "heights_of (retree ?ix) = splice_list start stop ?new (heights_of ix)" using h by simp
  ultimately show ?thesis by blast
qed

section \<open>Updating\<close>

definition updated_index :: "nat \<Rightarrow> nat \<Rightarrow> 'h::{zero,plus,minus,linorder} \<Rightarrow> 'h height_index \<Rightarrow> 'h height_index" where
  "updated_index c s next ix =
     (let ch = hi_chunks ix ! c; delta = next - hc_heights ch ! s
      in add_sum c delta (ix\<lparr>hi_chunks := (hi_chunks ix)[c :=
           \<lparr>hc_heights = (hc_heights ch)[s := next], hc_total = hc_total ch + delta\<rparr>]\<rparr>))"

lemma updated_index_chunks:
  "c < length (chunk_lists ix) \<Longrightarrow> chunk_lists (updated_index c s next ix) =
     (chunk_lists ix)[c := (chunk_lists ix ! c)[s := next]] \<and>
   hi_counts (updated_index c s next ix) = hi_counts ix \<and> hi_len (updated_index c s next ix) = hi_len ix"
  by (simp add: updated_index_def Let_def add_sum_def chunk_lists_def map_update)

lemma update_height_eq:
  assumes "shape_ok ix" and "i < length (heights_of ix)"
  obtains c s where "update_height i h ix = Ok (updated_index c s (max h 0) ix)" and "c < length (chunk_lists ix)"
    and "s < length (chunk_lists ix ! c)" and "i = offset_of (chunk_lists ix) c + s"
proof -
  obtain c s where l: "locate ix i = Some (c, s)" "c < length (chunk_lists ix)" "s < length (chunk_lists ix ! c)"
      "i = offset_of (chunk_lists ix) c + s"
    using locate_spec[OF assms] .
  then show ?thesis using that[of c s] chunk_at[OF l(2)] elem_at_chunk[OF l(2)]
    by (simp add: update_height_def updated_index_def elem_at_def get_def Let_def)
qed

lemma updated_index_shape:
  assumes "shape_ok ix" and "c < length (chunk_lists ix)" and "s < length (chunk_lists ix ! c)" and "0 \<le> next"
  shows "shape_ok (updated_index c s next ix) \<and>
    heights_of (updated_index c s next ix) = (heights_of ix)[offset_of (chunk_lists ix) c + s := next]"
proof -
  note u = updated_index_chunks[OF assms(2), of s "next"]
  have h: "heights_of (updated_index c s next ix) = (heights_of ix)[offset_of (chunk_lists ix) c + s := next]"
    using u concat_update_at[OF assms(2,3)] by (simp add: heights_of_def)
  have "map length (chunk_lists (updated_index c s next ix)) = map length (chunk_lists ix)"
    using u assms(2) by (simp add: map_update list_update_same_conv)
  moreover have "(chunk_lists ix ! c)[s := next] \<noteq> [] \<and> length ((chunk_lists ix ! c)[s := next]) \<le> chunk_target"
    using assms by (auto simp: shape_ok_def)
  then have "\<forall>hs \<in> set (chunk_lists (updated_index c s next ix)). hs \<noteq> [] \<and> length hs \<le> chunk_target"
    using u assms(1) set_update_subset_insert[of "chunk_lists ix" c "(chunk_lists ix ! c)[s := next]"]
    unfolding shape_ok_def by (metis insert_iff subsetD)
  moreover have "\<forall>x \<in> set (heights_of (updated_index c s next ix)). 0 \<le> x"
    unfolding h using assms(1,4) set_update_subset_insert by (fastforce simp: shape_ok_def)
  ultimately show ?thesis using u h assms(1) by (simp add: shape_ok_def)
qed

lemma update_height_list:
  assumes "shape_ok ix" and "i < length (heights_of ix)"
  shows "\<exists>ix'. update_height i h ix = Ok ix' \<and> shape_ok ix' \<and> heights_of ix' = (heights_of ix)[i := max h 0]"
  using update_height_eq[OF assms, of h] updated_index_shape[OF assms(1), of _ _ "max h 0"]
  by (metis max.cobounded2)

lemma update_height_out_of_range:
  "shape_ok ix \<Longrightarrow> length (heights_of ix) \<le> i \<Longrightarrow> update_height i h ix = Panic"
  by (simp add: update_height_def locate_None Let_def)

end
