(* ===== verification/Height_Sums.thy ===== *)
theory Height_Sums
  imports Height_Facts
begin

text \<open>
  The sums of the height index over an ordered group, where addition is exact: every
  prefix sum is the sum of the heights before it, and the search by height finds the
  block under a position.
\<close>

lemma sum_heights_list: "sum_heights hs = sum_list (hs :: 'h::comm_monoid_add list)"
  by (induction hs rule: rev_induct) (simp_all add: sum_heights_def)

lemma sum_of_concat: "sum_list (concat xss) = sum_list (map sum_list (xss :: 'h::comm_monoid_add list list))"
  by (induction xss) simp_all

lemma sum_of_update: "s < length xs \<Longrightarrow> sum_list (xs[s := v]) = sum_list xs + (v - xs ! s)" for v :: "'h::ab_group_add"
proof (induction xs arbitrary: s)
  case (Cons x xs)
  then show ?case by (cases s) (simp_all add: algebra_simps)
qed simp

definition sums_ok :: "'h::comm_monoid_add height_index \<Rightarrow> bool" where
  "sums_ok ix \<longleftrightarrow> (\<forall>c \<in> set (hi_chunks ix). hc_total c = sum_list (hc_heights c)) \<and>
     tree_of (map hc_total (hi_chunks ix)) (hi_sums ix)"

definition index_ok :: "'h::linordered_ab_group_add height_index \<Rightarrow> bool" where
  "index_ok ix \<longleftrightarrow> shape_ok ix \<and> sums_ok ix"

lemma sums_ok_retree:
  "\<forall>c \<in> set (hi_chunks ix). hc_total c = sum_list (hc_heights c) \<Longrightarrow> sums_ok (retree ix)"
  using tree_of_retree[of "map hc_total (hi_chunks ix)"] by (simp add: sums_ok_def) (simp add: retree_def)

lemma chunk_new_total: "hc_total (chunk_new hs) = sum_list (hc_heights (chunk_new (hs :: 'h::comm_monoid_add list)))"
  by (simp add: chunk_new_def sum_heights_list)

lemma index_ok_new: "index_ok (height_index_new hs)"
proof -
  have "sums_ok (height_index_new hs)"
    unfolding height_index_new_def Let_def by (rule sums_ok_retree) (auto simp: chunk_new_total)
  then show ?thesis using height_index_new_list by (auto simp: index_ok_def)
qed

lemma index_ok_splice:
  assumes "index_ok ix" and "splice_heights start stop hs ix = Ok ix'"
  shows "index_ok ix'"
proof -
  have r: "start \<le> stop" "stop \<le> length (heights_of ix)"
    using assms by (auto simp: splice_heights_eq index_ok_def shape_ok_def split: if_splits)
  have "sums_ok ix'"
  proof -
    have "\<forall>c \<in> set (spliced_chunks start stop new ix). hc_total c = sum_list (hc_heights c)" for new
      using assms(1) unfolding index_ok_def sums_ok_def spliced_chunks_def Let_def
      by (auto simp: chunk_new_total split: prod.splits dest: in_set_takeD in_set_dropD)
    then show ?thesis using assms(2)
      by (auto simp: splice_heights_eq split: if_splits intro!: sums_ok_retree)
  qed
  moreover have "shape_ok ix'"
    using splice_heights_list[OF _ r, of hs] assms by (auto simp: index_ok_def)
  ultimately show ?thesis by (simp add: index_ok_def)
qed

lemma updated_index_sums:
  assumes "sums_ok ix" and "c < length (hi_chunks ix)" and "s < length (hc_heights (hi_chunks ix ! c))"
  shows "sums_ok (updated_index c s (v :: 'h::linordered_ab_group_add) ix)"
proof -
  let ?ch = "hi_chunks ix ! c"
  let ?d = "v - hc_heights ?ch ! s"
  let ?new = "\<lparr>hc_heights = (hc_heights ?ch)[s := v], hc_total = hc_total ?ch + ?d\<rparr>"
  have u: "hi_chunks (updated_index c s v ix) = (hi_chunks ix)[c := ?new]"
    "hi_sums (updated_index c s v ix) = add_sum_loop ?d (c + 1) (hi_sums ix)"
    by (simp_all add: updated_index_def Let_def add_sum_def)
  have "hc_total ?ch = sum_list (hc_heights ?ch)" using assms by (simp add: sums_ok_def)
  then have "hc_total ?new = sum_list (hc_heights ?new)"
    using assms(3) by (simp add: sum_of_update)
  then have "\<forall>x \<in> set (hi_chunks (updated_index c s v ix)). hc_total x = sum_list (hc_heights x)"
    using assms(1) u(1) by (auto simp: sums_ok_def dest!: set_update_subset_insert[THEN subsetD])
  moreover have "tree_of ((map hc_total (hi_chunks ix))[c := map hc_total (hi_chunks ix) ! c + ?d])
      (add_sum_loop ?d (c + 1) (hi_sums ix))"
    using assms by (intro tree_of_add) (simp_all add: sums_ok_def)
  ultimately show ?thesis using u assms(2) by (simp add: sums_ok_def map_update)
qed

lemma index_ok_update:
  assumes "index_ok ix" and "update_height i h ix = Ok ix'"
  shows "index_ok ix'"
proof -
  have shape: "shape_ok ix" and sums: "sums_ok ix" using assms(1) by (simp_all add: index_ok_def)
  have i: "i < length (heights_of ix)"
    using update_height_out_of_range[OF shape, of i h] assms(2) by (cases "i < length (heights_of ix)") auto
  obtain c s where u: "update_height i h ix = Ok (updated_index c s (max h 0) ix)" "c < length (chunk_lists ix)"
      "s < length (chunk_lists ix ! c)"
    using update_height_eq[OF shape i] by metis
  then have "sums_ok ix'" using updated_index_sums[OF sums, of c s "max h 0"] chunk_at[OF u(2)] assms(2)
    by (simp add: length_chunk_lists)
  moreover have "shape_ok ix'" using update_height_list[OF shape i, of h] assms(2) by auto
  ultimately show ?thesis by (simp add: index_ok_def)
qed

section \<open>Prefix sums\<close>

lemma prefix_totals:
  assumes "sums_ok ix"
  shows "prefix_value (map hc_total (hi_chunks ix)) c = prefix_value (heights_of ix) (offset_of (chunk_lists ix) c)"
proof -
  have "map hc_total (hi_chunks ix) = map sum_list (chunk_lists ix)"
    using assms by (simp add: sums_ok_def chunk_lists_def)
  moreover have "take (offset_of xss c) (concat xss) = concat (take c xss)" for xss :: "'a list list"
  proof -
    have "concat xss = concat (take c xss) @ concat (drop c xss)" by (metis append_take_drop_id concat_append)
    then show ?thesis by (simp add: offset_of_def)
  qed
  ultimately show ?thesis
    by (simp add: prefix_value_def heights_of_def take_map sum_of_concat)
qed

lemma tree_prefix_totals:
  "sums_ok ix \<Longrightarrow> c \<le> length (hi_chunks ix) \<Longrightarrow>
   tree_prefix (hi_sums ix) c = prefix_value (heights_of ix) (offset_of (chunk_lists ix) c)"
  using tree_prefix_value[of "map hc_total (hi_chunks ix)" "hi_sums ix" c] prefix_totals[of ix c]
  by (simp add: sums_ok_def)

lemma offset_all: "offset_of (chunk_lists ix) (length (hi_chunks ix)) = length (heights_of ix)"
  by (simp add: offset_of_def heights_of_def chunk_lists_def)

lemma prefix_value_in_chunk:
  assumes "c < length (chunk_lists ix)" and "s \<le> length (chunk_lists ix ! c)"
  shows "prefix_value (heights_of ix) (offset_of (chunk_lists ix) c + s) =
    prefix_value (heights_of ix) (offset_of (chunk_lists ix) c) + sum_list (take s (chunk_lists ix ! c))"
proof -
  have "take (offset_of (chunk_lists ix) c) (heights_of ix) = concat (take c (chunk_lists ix))"
    using concat_take_at[OF assms(1), of 0] by (simp add: heights_of_def)
  then show ?thesis using concat_take_at[OF assms] by (simp add: prefix_value_def heights_of_def)
qed

lemma prefix_sum_value:
  assumes "index_ok ix"
  shows "prefix_sum ix n = Ok (prefix_value (heights_of ix) n)"
proof (cases "n < length (heights_of ix)")
  case True
  have shape: "shape_ok ix" using assms by (simp add: index_ok_def)
  obtain c s where l: "locate ix n = Some (c, s)" "c < length (chunk_lists ix)" "s < length (chunk_lists ix ! c)"
      "n = offset_of (chunk_lists ix) c + s"
    using locate_spec[OF shape True] .
  have "min n (hi_len ix) = n" using True shape by (simp add: shape_ok_def)
  moreover have "prefix_value (heights_of ix) n = tree_prefix (hi_sums ix) c + sum_list (take s (chunk_lists ix ! c))"
    using prefix_value_in_chunk[OF l(2), of s] tree_prefix_totals[of ix c] l assms
    by (simp add: index_ok_def length_chunk_lists)
  ultimately show ?thesis using l chunk_at[OF l(2)] elem_at_chunk[OF l(2)]
    by (simp add: prefix_sum_def sum_heights_list)
next
  case False
  then have "locate ix (min n (hi_len ix)) = None" using assms by (simp add: locate_def index_ok_def shape_ok_def)
  then show ?thesis
    using False tree_prefix_totals[of ix "length (hi_chunks ix)"] assms offset_all[of ix]
    by (simp add: prefix_sum_def index_ok_def prefix_value_def)
qed

section \<open>The block under a position\<close>

lemma prefix_value_mono:
  fixes hs :: "'h::linordered_ab_group_add list"
  assumes "\<forall>h \<in> set hs. 0 \<le> h" and "i \<le> j"
  shows "prefix_value hs i \<le> prefix_value hs j"
proof -
  have "take j hs = take i hs @ take (j - i) (drop i hs)" using assms(2) by (metis le_add_diff_inverse take_add)
  moreover have "0 \<le> sum_list (take (j - i) (drop i hs))"
    using assms(1) by (intro sum_list_nonneg) (auto dest: in_set_takeD in_set_dropD)
  ultimately show ?thesis by (simp add: prefix_value_def)
qed

lemma scan_slots_Some:
  fixes target :: "'h::linordered_ab_group_add"
  shows "scan_slots target k acc hs = Some s \<Longrightarrow> acc \<le> target \<Longrightarrow>
    k \<le> s \<and> s - k < length hs \<and> acc + sum_list (take (s - k) hs) \<le> target \<and>
    target < acc + sum_list (take (Suc (s - k)) hs)"
proof (induction target k acc hs rule: scan_slots.induct)
  case (2 target k acc h hs)
  show ?case
  proof (cases "target < acc + h")
    case True
    then show ?thesis using 2(2,3) by simp
  next
    case False
    then have "k + 1 \<le> s \<and> s - (k + 1) < length hs \<and> acc + h + sum_list (take (s - (k + 1)) hs) \<le> target \<and>
        target < acc + h + sum_list (take (Suc (s - (k + 1))) hs)"
      using 2 by simp
    moreover from this obtain d where "s = k + 1 + d" using le_Suc_ex by blast
    ultimately show ?thesis by (simp add: add.assoc)
  qed
qed simp

lemma scan_slots_None:
  fixes target :: "'h::linordered_ab_group_add"
  shows "scan_slots target k acc hs = None \<Longrightarrow> acc \<le> target \<Longrightarrow> acc + sum_list hs \<le> target"
  by (induction target k acc hs rule: scan_slots.induct) (auto simp: add.assoc split: if_splits)

text \<open>The last block that starts at or above \<open>y\<close>.\<close>

definition block_under :: "'h::linordered_ab_group_add list \<Rightarrow> 'h \<Rightarrow> nat \<Rightarrow> bool" where
  "block_under hs y b \<longleftrightarrow> b < length hs \<and> prefix_value hs b \<le> y \<and>
     (\<forall>j. b < j \<and> j < length hs \<longrightarrow> y < prefix_value hs j)"

definition clamped :: "'h::linordered_ab_group_add list \<Rightarrow> 'h \<Rightarrow> 'h" where
  "clamped hs y = min (max y 0) (sum_list hs)"

lemma prefix_all: "prefix_value hs (length hs) = sum_list hs"
  by (simp add: prefix_value_def)

lemma block_of_chunk:
  assumes "index_ok ix" and "c < length (chunk_lists ix)"
    and "0 \<le> target" and "target \<le> sum_list (heights_of ix)"
    and acc: "acc = prefix_value (heights_of ix) (offset_of (chunk_lists ix) c)" and "acc \<le> target"
    and later: "Suc c = length (chunk_lists ix) \<or>
      target < prefix_value (heights_of ix) (offset_of (chunk_lists ix) (Suc c))"
  shows "\<exists>b. (case scan_slots target 0 acc (chunk_lists ix ! c) of
       Some slot \<Rightarrow> offset_of (chunk_lists ix) c + slot
     | None \<Rightarrow> min (offset_of (chunk_lists ix) c + (length (chunk_lists ix ! c) - 1)) (hi_len ix - 1)) = b \<and>
     block_under (heights_of ix) target b"
proof -
  let ?xss = "chunk_lists ix" and ?hs = "heights_of ix"
  let ?cs = "?xss ! c" and ?o = "offset_of ?xss c"
  have pos: "\<forall>h \<in> set ?hs. 0 \<le> h" and ne: "?cs \<noteq> []" and len: "hi_len ix = length ?hs"
    using assms(1,2) by (auto simp: index_ok_def shape_ok_def)
  show ?thesis
  proof (cases "scan_slots target 0 acc ?cs")
    case (Some s)
    then have s: "s < length ?cs" "acc + sum_list (take s ?cs) \<le> target" "target < acc + sum_list (take (Suc s) ?cs)"
      using scan_slots_Some[OF Some assms(6)] by simp_all
    have p: "prefix_value ?hs (?o + s) \<le> target" "target < prefix_value ?hs (?o + Suc s)"
      using s prefix_value_in_chunk[OF assms(2), of s] prefix_value_in_chunk[OF assms(2), of "Suc s"] acc by simp_all
    have "target < prefix_value ?hs j" if "?o + s < j" for j
      using p(2) prefix_value_mono[OF pos, of "?o + Suc s" j] that by simp
    then show ?thesis using Some p(1) offset_less[OF assms(2) s(1)] by (simp add: block_under_def heights_of_def)
  next
    case None
    then have n: "acc + sum_list ?cs \<le> target" using scan_slots_None assms(6) by blast
    then have "prefix_value ?hs (offset_of ?xss (Suc c)) \<le> target"
      using prefix_value_in_chunk[OF assms(2), of "length ?cs"] offset_Suc[OF assms(2)] acc by simp
    then have last: "Suc c = length ?xss" using later by auto
    then have all: "?o + length ?cs = length ?hs"
      using offset_Suc[OF assms(2)] by (simp add: offset_of_def heights_of_def)
    then have b: "?o + (length ?cs - 1) = length ?hs - 1" using ne by (cases ?cs) auto
    have "prefix_value ?hs (length ?hs - 1) \<le> prefix_value ?hs (length ?hs)" using prefix_value_mono[OF pos] by simp
    also have "\<dots> \<le> target" using n prefix_value_in_chunk[OF assms(2), of "length ?cs"] all acc by simp
    finally have "prefix_value ?hs (length ?hs - 1) \<le> target" .
    moreover have "length ?hs - 1 < length ?hs" using all ne by (cases ?hs) auto
    ultimately have "block_under ?hs target (length ?hs - 1)" unfolding block_under_def by auto
    then show ?thesis using None b len by simp
  qed
qed

lemma block_at_y_under:
  assumes "index_ok ix" and "heights_of ix \<noteq> []"
  shows "\<exists>b. block_at_y ix y = Ok b \<and> block_under (heights_of ix) (clamped (heights_of ix) y) b"
proof -
  let ?xss = "chunk_lists ix" and ?hs = "heights_of ix" and ?n = "length (hi_chunks ix)"
  let ?t = "clamped ?hs y"
  have shape: "shape_ok ix" and sums: "sums_ok ix" using assms(1) by (simp_all add: index_ok_def)
  have pos: "\<forall>h \<in> set ?hs. 0 \<le> h" and len: "hi_len ix = length ?hs" using shape by (auto simp: shape_ok_def)
  have whole: "total_height ix = Ok (sum_list ?hs)" using prefix_sum_value[OF assms(1), of "hi_len ix"] len
    by (simp add: total_height_def prefix_all)
  have total0: "0 \<le> sum_list ?hs" using pos by (intro sum_list_nonneg) auto
  have t: "0 \<le> ?t" "?t \<le> sum_list ?hs" using total0 by (simp_all add: clamped_def)
  have n: "?n \<noteq> 0" and ln: "length ?xss = ?n" using assms(2) by (auto simp: heights_of_def chunk_lists_def)
  have fits: "fits_prefixes (\<lambda>s. s \<le> ?t) (map hc_total (hi_chunks ix))"
    unfolding fits_prefixes_def prefix_totals[OF sums]
    using t(1) prefix_value_mono[OF pos offset_mono] order_trans by blast
  obtain m where m: "search_tree (\<lambda>s. s \<le> ?t) (hi_sums ix) = (m, prefix_value ?hs (offset_of ?xss m))"
      "m \<le> ?n" "prefix_value ?hs (offset_of ?xss m) \<le> ?t"
      "\<And>j. m < j \<Longrightarrow> j \<le> ?n \<Longrightarrow> ?t < prefix_value ?hs (offset_of ?xss j)"
    using search_tree_last_fit[OF _ fits, of "hi_sums ix"] sums
    by (auto simp: sums_ok_def last_fit_def prefix_totals[OF sums] not_le)
  have counts: "tree_prefix (hi_counts ix) c = offset_of ?xss c" if "c \<le> ?n" for c
    using tree_prefix_value[of "map length ?xss" "hi_counts ix" c] shape that
    by (simp add: shape_ok_def prefix_value_lengths ln)
  have last_total: "prefix_value ?hs (offset_of ?xss ?n) - hc_total (last (hi_chunks ix)) =
      prefix_value ?hs (offset_of ?xss (?n - 1))"
  proof -
    have c: "?n - 1 < length ?xss" using n ln by simp
    have "hc_total (last (hi_chunks ix)) = sum_list (?xss ! (?n - 1))"
      using sums n by (simp add: sums_ok_def last_conv_nth chunk_lists_def)
    then show ?thesis using prefix_value_in_chunk[OF c, of "length (?xss ! (?n - 1))"] offset_Suc[OF c] n by simp
  qed
  define p where "p = (if ?n \<le> m then (?n - 1, prefix_value ?hs (offset_of ?xss (?n - 1)))
                       else (m, prefix_value ?hs (offset_of ?xss m)))"
  have c: "fst p < length ?xss" using n ln by (auto simp: p_def)
  have "snd p = prefix_value ?hs (offset_of ?xss (fst p))" by (simp add: p_def)
  moreover have "snd p \<le> ?t"
    using m(2,3) prefix_value_mono[OF pos offset_mono[of "?n - 1" ?n ?xss]] by (auto simp: p_def)
  moreover have "Suc (fst p) = length ?xss \<or> ?t < prefix_value ?hs (offset_of ?xss (Suc (fst p)))"
    using m(2,4) n ln by (auto simp: p_def)
  ultimately obtain b where b: "(case scan_slots ?t 0 (snd p) (?xss ! fst p) of
       Some slot \<Rightarrow> offset_of ?xss (fst p) + slot
     | None \<Rightarrow> min (offset_of ?xss (fst p) + (length (?xss ! fst p) - 1)) (hi_len ix - 1)) = b"
      "block_under ?hs ?t b"
    using block_of_chunk[OF assms(1) c t] by blast
  have "block_at_y ix y = Ok b"
  proof -
    have "(if ?n \<le> m then (if hi_chunks ix = [] then Panic
             else Ok (?n - 1, prefix_value ?hs (offset_of ?xss m) - hc_total (last (hi_chunks ix))))
           else Ok (m, prefix_value ?hs (offset_of ?xss m))) = (Ok p :: (unit, _) res)"
      using n m(2) last_total by (auto simp: p_def)
    moreover have "elem_at (hi_chunks ix) (fst p) = Ok (hi_chunks ix ! fst p)" "?xss ! fst p = hc_heights (hi_chunks ix ! fst p)"
      using elem_at_chunk[OF c] chunk_at[OF c] by simp_all
    ultimately show ?thesis
      using b(1) whole total0 len assms(2) counts[of "fst p"] c ln m(1)
      unfolding block_at_y_def clamped_def
      by (cases p) (auto simp: Let_def split: option.splits)
  qed
  then show ?thesis using b(2) by blast
qed

text \<open>What a viewport shows.\<close>

lemma visible_range_blocks:
  assumes "index_ok ix" and "heights_of ix \<noteq> []"
  shows "\<exists>b e. visible_range ix y v o' = Ok (b, e) \<and> e \<le> length (heights_of ix) \<and>
    block_under (heights_of ix) (clamped (heights_of ix) (max (y - o') 0)) b \<and>
    block_under (heights_of ix) (clamped (heights_of ix) (y + v + o')) (e - 1) \<and> 0 < e"
proof -
  have len: "hi_len ix = length (heights_of ix)" using assms(1) by (simp add: index_ok_def shape_ok_def)
  obtain b where b: "block_at_y ix (max (y - o') 0) = Ok b"
      "block_under (heights_of ix) (clamped (heights_of ix) (max (y - o') 0)) b"
    using block_at_y_under[OF assms] by blast
  obtain e where e: "block_at_y ix (y + v + o') = Ok e" "block_under (heights_of ix) (clamped (heights_of ix) (y + v + o')) e"
    using block_at_y_under[OF assms] by blast
  have "min (e + 1) (hi_len ix) = e + 1" using e(2) len by (simp add: block_under_def)
  then show ?thesis using b e len assms(2) by (auto simp: visible_range_def block_under_def)
qed

end
