(* ===== verification/Height_Contract.thy ===== *)
theory Height_Contract
  imports Height_Sums
begin

text \<open>
  What a store of heights promises its client, as a locale: it is a list, a height is set
  or a range replaced as in the list, and an ordinal out of range panics.  The flat list
  and the chunked index both keep the promise.
\<close>

datatype 'h height_op = SetHeight nat 'h | SpliceHeights nat nat "'h list"

locale height_store =
  fixes ok :: "'s \<Rightarrow> bool"
    and abs_list :: "'s \<Rightarrow> 'h::{zero,linorder} list"
    and set_at :: "nat \<Rightarrow> 'h \<Rightarrow> 's \<Rightarrow> (unit, 's) res"
    and splice_at :: "nat \<Rightarrow> nat \<Rightarrow> 'h list \<Rightarrow> 's \<Rightarrow> (unit, 's) res"
  assumes set_in_range: "ok s \<Longrightarrow> i < length (abs_list s) \<Longrightarrow>
      \<exists>s'. set_at i h s = Ok s' \<and> ok s' \<and> abs_list s' = (abs_list s)[i := max h 0]"
    and set_out_of_range: "ok s \<Longrightarrow> length (abs_list s) \<le> i \<Longrightarrow> set_at i h s = Panic"
    and splice_in_range: "ok s \<Longrightarrow> start \<le> stop \<Longrightarrow> stop \<le> length (abs_list s) \<Longrightarrow>
      \<exists>s'. splice_at start stop hs s = Ok s' \<and> ok s' \<and>
        abs_list s' = splice_list start stop (map (\<lambda>h. max h 0) hs) (abs_list s)"
    and splice_out_of_range: "ok s \<Longrightarrow> \<not> (start \<le> stop \<and> stop \<le> length (abs_list s)) \<Longrightarrow> splice_at start stop hs s = Panic"
begin

fun step :: "'h height_op \<Rightarrow> 's \<Rightarrow> (unit, 's) res" where
  "step (SetHeight i h) s = set_at i h s"
| "step (SpliceHeights start stop hs) s = splice_at start stop hs s"

fun run :: "'h height_op list \<Rightarrow> 's \<Rightarrow> (unit, 's) res" where
  "run [] s = Ok s"
| "run (op # ops) s = res_bind (step op s) (run ops)"

lemma step_cases:
  assumes "ok s"
  shows "step op s = Panic \<or> (\<exists>s'. step op s = Ok s' \<and> ok s')"
proof (cases op)
  case (SetHeight i h)
  then show ?thesis using set_in_range[OF assms, of i h] set_out_of_range[OF assms, of i h]
    by (cases "i < length (abs_list s)") auto
next
  case (SpliceHeights a b hs)
  then show ?thesis using splice_in_range[OF assms, of a b hs] splice_out_of_range[OF assms, of a b hs]
    by (cases "a \<le> b \<and> b \<le> length (abs_list s)") auto
qed

end

section \<open>The flat list\<close>

definition list_set :: "nat \<Rightarrow> 'h::{zero,linorder} \<Rightarrow> 'h list \<Rightarrow> (unit, 'h list) res" where
  "list_set i h xs = (if i < length xs then Ok (xs[i := max h 0]) else Panic)"

definition list_splice :: "nat \<Rightarrow> nat \<Rightarrow> 'h::{zero,linorder} list \<Rightarrow> 'h list \<Rightarrow> (unit, 'h list) res" where
  "list_splice start stop hs xs =
     (if start \<le> stop \<and> stop \<le> length xs then Ok (splice_list start stop (map (\<lambda>h. max h 0) hs) xs) else Panic)"

interpretation flat: height_store "\<lambda>_. True" "\<lambda>xs. xs" list_set list_splice
  by unfold_locales (auto simp: list_set_def list_splice_def)

section \<open>The chunked index\<close>

lemma splice_heights_out_of_range:
  "shape_ok ix \<Longrightarrow> \<not> (start \<le> stop \<and> stop \<le> length (heights_of ix)) \<Longrightarrow> splice_heights start stop hs ix = Panic"
  by (auto simp: splice_heights_eq shape_ok_def)

interpretation chunked: height_store shape_ok heights_of update_height splice_heights
  by unfold_locales (simp_all only: update_height_list update_height_out_of_range splice_heights_list
      splice_heights_out_of_range not_False_eq_True)

lemma same_step:
  assumes "shape_ok ix"
  shows "(chunked.step op ix = Panic \<and> flat.step op (heights_of ix) = Panic) \<or>
    (\<exists>ix'. chunked.step op ix = Ok ix' \<and> shape_ok ix' \<and> flat.step op (heights_of ix) = Ok (heights_of ix'))"
proof (cases op)
  case (SetHeight i h)
  then show ?thesis
    using update_height_list[OF assms, of i h] update_height_out_of_range[OF assms, of i h]
    by (cases "i < length (heights_of ix)") (auto simp: list_set_def)
next
  case (SpliceHeights a b hs)
  then show ?thesis
    using splice_heights_list[OF assms, of a b hs] splice_heights_out_of_range[OF assms, of a b hs]
    by (cases "a \<le> b \<and> b \<le> length (heights_of ix)") (auto simp: list_splice_def)
qed

lemma same_run:
  "shape_ok ix \<Longrightarrow>
   (chunked.run ops ix = Panic \<and> flat.run ops (heights_of ix) = Panic) \<or>
   (\<exists>ix'. chunked.run ops ix = Ok ix' \<and> shape_ok ix' \<and> flat.run ops (heights_of ix) = Ok (heights_of ix'))"
proof (induction ops arbitrary: ix)
  case (Cons op ops)
  then show ?case using same_step[OF Cons.prems, of op] by fastforce
qed simp

lemma index_ok_run: "index_ok ix \<Longrightarrow> chunked.run ops ix = Ok ix' \<Longrightarrow> index_ok ix'"
proof (induction ops arbitrary: ix)
  case (Cons op ops)
  then obtain ix1 where s: "chunked.step op ix = Ok ix1" "chunked.run ops ix1 = Ok ix'"
    by (auto simp: res_bind_Ok_iff)
  have "index_ok ix1"
    using s(1) Cons.prems(1) index_ok_update index_ok_splice by (cases op) fastforce+
  then show ?case using Cons.IH s(2) by blast
qed simp

end
