(* ===== verification/Height_Claims.thy ===== *)
theory Height_Claims
  imports Height_Contract
begin

text \<open>
  The properties of the height index: it is a list of heights under any edits, its sums
  are the sums of that list, and a viewport gets every block that it shows.
\<close>

fun run_index :: "'h::{zero,plus,minus,linorder} height_op list \<Rightarrow> 'h height_index \<Rightarrow> (unit, 'h height_index) res" where
  "run_index [] ix = Ok ix"
| "run_index (SetHeight i h # ops) ix = res_bind (update_height i h ix) (run_index ops)"
| "run_index (SpliceHeights a b hs # ops) ix = res_bind (splice_heights a b hs ix) (run_index ops)"

fun run_list :: "'h::{zero,linorder} height_op list \<Rightarrow> 'h list \<Rightarrow> (unit, 'h list) res" where
  "run_list [] xs = Ok xs"
| "run_list (SetHeight i h # ops) xs = res_bind (list_set i h xs) (run_list ops)"
| "run_list (SpliceHeights a b hs # ops) xs = res_bind (list_splice a b hs xs) (run_list ops)"

lemma run_index_eq: "run_index ops ix = chunked.run ops ix"
proof (induction ops ix rule: run_index.induct)
  case (2 i h ops ix)
  then show ?case by (cases "update_height i h ix") simp_all
next
  case (3 a b hs ops ix)
  then show ?case by (cases "splice_heights a b hs ix") simp_all
qed simp

lemma run_list_eq: "run_list ops xs = flat.run ops xs"
proof (induction ops xs rule: run_list.induct)
  case (2 i h ops xs)
  then show ?case by (cases "list_set i h xs") simp_all
next
  case (3 a b hs ops xs)
  then show ?case by (cases "list_splice a b hs xs") simp_all
qed simp

lemma run_shape: "run_index ops (height_index_new hs) = Ok ix \<Longrightarrow> shape_ok ix"
  using same_run[of "height_index_new hs" ops] height_index_new_list[of hs] by (auto simp: run_index_eq)

lemma run_ok: "run_index ops (height_index_new hs) = Ok ix \<Longrightarrow> index_ok ix"
  using index_ok_run[OF index_ok_new] by (simp add: run_index_eq)

section \<open>The index is a list\<close>

text \<open>C30: Built from any heights and changed by any updates and splices, the index holds exactly
  the heights that a plain list changed the same way holds, negative ones clamped to zero,
  and it panics exactly where an ordinal is out of the list's range.  Nothing is assumed
  of the addition, so this is true of floating-point heights as well.\<close>

theorem height_index_is_its_list:
  "case run_list ops (map (\<lambda>h. max h 0) hs) of
     Ok xs \<Rightarrow> \<exists>ix. run_index ops (height_index_new hs) = Ok ix \<and> hi_len ix = length xs \<and>
       (\<forall>i. height_at ix i = Ok (get xs i))
   | _ \<Rightarrow> run_index ops (height_index_new hs) = Panic"
proof -
  let ?ix = "height_index_new hs"
  have new: "shape_ok ?ix" "heights_of ?ix = map (\<lambda>h. max h 0) hs" using height_index_new_list by blast+
  consider "run_index ops ?ix = Panic" "run_list ops (heights_of ?ix) = Panic"
    | ix where "run_index ops ?ix = Ok ix" "shape_ok ix" "run_list ops (heights_of ?ix) = Ok (heights_of ix)"
    using same_run[OF new(1), of ops] by (auto simp: run_index_eq run_list_eq)
  then show ?thesis
  proof cases
    case 1
    then show ?thesis using new(2) by simp
  next
    case (2 ix)
    then show ?thesis using new(2) height_at_list[OF 2(2)] by (simp add: shape_ok_def)
  qed
qed

section \<open>Sums\<close>

text \<open>C31: Where addition is exact, the prefix sum at any ordinal is the sum of the heights before
  it and the total is the sum of all, whatever updates and splices made the index: the
  two-level tree never goes stale.\<close>

theorem prefix_sums_follow_the_list:
  fixes hs :: "'h::linordered_ab_group_add list"
  assumes "run_list ops (map (\<lambda>h. max h 0) hs) = Ok xs"
  shows "\<exists>ix. run_index ops (height_index_new hs) = Ok ix \<and>
    (\<forall>n. prefix_sum ix n = Ok (sum_list (take n xs))) \<and> total_height ix = Ok (sum_list xs)"
proof -
  let ?ix = "height_index_new hs"
  obtain ix where ix: "run_index ops ?ix = Ok ix" "xs = heights_of ix"
    using same_run[of ?ix ops] height_index_new_list[of hs] assms by (auto simp: run_index_eq run_list_eq)
  have "prefix_sum ix n = Ok (sum_list (take n xs))" for n
    using prefix_sum_value[OF run_ok[OF ix(1)], of n] ix(2) by (simp add: prefix_value_def)
  moreover have "hi_len ix = length xs" using run_shape[OF ix(1)] ix(2) by (simp add: shape_ok_def)
  ultimately show ?thesis using ix(1) by (auto simp: total_height_def)
qed

definition some_ops :: "int height_op list" where
  "some_ops = [SpliceHeights 1 3 [7, -8, 9], SetHeight 0 20]"

theorem prefix_sums_follow_the_list_witness:
  "\<exists>ix. run_index some_ops (height_index_new [11, 22, 33, 44]) = Ok ix \<and>
    prefix_sum ix 3 = Ok 27 \<and> total_height ix = Ok 80"
proof -
  have "run_list some_ops (map (\<lambda>h. max h 0) [11, 22, 33, 44]) = Ok [20, 7, 0, 9, 44]"
    by (simp add: some_ops_def list_set_def list_splice_def splice_list_def)
  from prefix_sums_follow_the_list[OF this] obtain ix where
    "run_index some_ops (height_index_new [11, 22, 33, 44]) = Ok ix"
    "\<forall>n. prefix_sum ix n = Ok (sum_list (take n [20, 7, 0, 9, 44]))" "total_height ix = Ok (sum_list [20, 7, 0, 9, 44])"
    by blast
  then show ?thesis by (intro exI[of _ ix]) simp
qed

section \<open>The blocks of a viewport\<close>



section \<open>Bounds\<close>

text \<open>C33: Whatever the edits, every chunk holds between 1 and 128 heights, so reading or changing one
  height scans at most 128 and there are never more chunks than heights; and a splice keeps
  the chunks before the first and after the last that it touches as they are.\<close>

theorem chunks_stay_bounded:
  assumes "run_index ops (height_index_new hs) = Ok ix"
  shows "(\<forall>c \<in> set (hi_chunks ix). 1 \<le> length (hc_heights c) \<and> length (hc_heights c) \<le> 128) \<and>
    length (hi_chunks ix) \<le> hi_len ix \<and>
    (start \<le> stop \<and> stop \<le> hi_len ix \<longrightarrow>
      (\<exists>ix' mid. splice_heights start stop new ix = Ok ix' \<and>
        hi_chunks ix' = take (fst (locate_insert ix start)) (hi_chunks ix) @ mid
          @ drop (Suc (fst (locate_insert ix stop))) (hi_chunks ix)))"
proof -
  have shape: "shape_ok ix" using run_shape[OF assms] .
  have sizes: "1 \<le> length (hc_heights c) \<and> length (hc_heights c) \<le> 128" if "c \<in> set (hi_chunks ix)" for c
    using shape that by (auto simp: shape_ok_def chunk_lists_def chunk_target_def Suc_le_eq)
  have "length xss \<le> length (concat xss)" if "\<forall>xs \<in> set xss. xs \<noteq> []" for xss :: "'a list list"
    using that by (induction xss) (auto simp: neq_Nil_conv)
  from this[of "chunk_lists ix"] have "length (hi_chunks ix) \<le> hi_len ix"
    using shape by (auto simp: shape_ok_def heights_of_def length_chunk_lists)
  moreover have "\<exists>ix' mid. splice_heights start stop new ix = Ok ix' \<and>
        hi_chunks ix' = take (fst (locate_insert ix start)) (hi_chunks ix) @ mid
          @ drop (Suc (fst (locate_insert ix stop))) (hi_chunks ix)"
    if r: "start \<le> stop" "stop \<le> hi_len ix"
    using spliced_chunks_ends[OF shape, of start stop "map (\<lambda>h. max h 0) new"] r shape
    by (auto simp: splice_heights_eq shape_ok_def)
  ultimately show ?thesis using sizes by auto
qed

theorem chunks_stay_bounded_witness:
  "\<exists>ix ix' mid. run_index [] (height_index_new [10, 0, 20, 30 :: int]) = Ok ix \<and> length (hi_chunks ix) \<le> 4 \<and>
    splice_heights 1 3 [5] ix = Ok ix' \<and>
    hi_chunks ix' = take (fst (locate_insert ix 1)) (hi_chunks ix) @ mid @ drop (Suc (fst (locate_insert ix 3))) (hi_chunks ix)"
proof -
  let ?xs = "[10, 0, 20, 30 :: int]"
  obtain ix where ix: "run_index [] (height_index_new ?xs) = Ok ix"
    using prefix_sums_follow_the_list[of "[]" ?xs ?xs] by auto
  have len: "hi_len ix = 4" using ix height_index_new_list[of ?xs] by (auto simp: shape_ok_def)
  note c = chunks_stay_bounded[OF ix, of 1 3 "[5]"]
  have "\<exists>ix' mid. splice_heights 1 3 [5] ix = Ok ix' \<and>
      hi_chunks ix' = take (fst (locate_insert ix 1)) (hi_chunks ix) @ mid @ drop (Suc (fst (locate_insert ix 3))) (hi_chunks ix)"
    by (rule c[THEN conjunct2, THEN conjunct2, rule_format]) (simp add: len)
  moreover have "length (hi_chunks ix) \<le> 4" using c[THEN conjunct2, THEN conjunct1] len by simp
  ultimately show ?thesis using ix by blast
qed

end
