(* ===== verification/Calendar.thy ===== *)
theory Calendar
  imports Prelude "HOL-Library.Signed_Division"
begin

text \<open>
  The calendar arithmetic of the date badges (\<open>crates/session/src/date_badge.rs\<close>).  Years, months
  and days are \<open>int\<close>; the fields of a date are within \<open>i32\<close> and \<open>u32\<close>, and the sums of the
  code stay within \<open>i64\<close>.  \<open>sdiv\<close> is the division of the source, which truncates.
\<close>

section \<open>The calendar\<close>

record calendar_date =
  cd_year :: int
  cd_month :: int
  cd_day :: int

datatype badge_range = Today | ThisWeek | ThisMonth | ThisYear | OtherTime

definition is_leap_year :: "int \<Rightarrow> bool" where
  "is_leap_year year \<longleftrightarrow> (year mod 4 = 0 \<and> year mod 100 \<noteq> 0) \<or> year mod 400 = 0"

definition days_in_month :: "int \<Rightarrow> int \<Rightarrow> int" where
  "days_in_month year month =
     (if month \<in> {1, 3, 5, 7, 8, 10, 12} then 31
      else if month \<in> {4, 6, 9, 11} then 30
      else if month = 2 then (if is_leap_year year then 29 else 28)
      else 0)"

definition is_valid_calendar_date :: "int \<Rightarrow> int \<Rightarrow> int \<Rightarrow> bool" where
  "is_valid_calendar_date year month day \<longleftrightarrow>
     1 \<le> month \<and> month \<le> 12 \<and> 1 \<le> day \<and> day \<le> days_in_month year month"

definition calendar_date_new :: "int \<Rightarrow> int \<Rightarrow> int \<Rightarrow> calendar_date option" where
  "calendar_date_new year month day =
     (if is_valid_calendar_date year month day then Some \<lparr>cd_year = year, cd_month = month, cd_day = day\<rparr> else None)"

definition days_from_civil :: "int \<Rightarrow> int \<Rightarrow> int \<Rightarrow> int" where
  "days_from_civil year month day =
     (let y = year - (if month \<le> 2 then 1 else 0);
          era = (if 0 \<le> y then y else y - 399) sdiv 400;
          year_of_era = y - era * 400;
          month_index = (month + 9) mod 12;
          day_of_year = (153 * month_index + 2) sdiv 5 + day - 1;
          day_of_era = year_of_era * 365 + year_of_era sdiv 4 - year_of_era sdiv 100 + day_of_year
      in era * 146097 + day_of_era - 719468)"

definition try_i32 :: "int \<Rightarrow> int \<Rightarrow> int" where
  "try_i32 v fallback = (if - (2 ^ 31) \<le> v \<and> v < 2 ^ 31 then v else fallback)"

definition try_u32 :: "int \<Rightarrow> int \<Rightarrow> int" where
  "try_u32 v fallback = (if 0 \<le> v \<and> v < 2 ^ 32 then v else fallback)"

definition civil_from_days :: "int \<Rightarrow> calendar_date" where
  "civil_from_days days =
     (let z = days + 719468;
          era = (if 0 \<le> z then z else z - 146096) sdiv 146097;
          day_of_era = z - era * 146097;
          year_of_era = (day_of_era - day_of_era sdiv 1460 + day_of_era sdiv 36524 - day_of_era sdiv 146096) sdiv 365;
          year = year_of_era + era * 400;
          day_of_year = day_of_era - (365 * year_of_era + year_of_era sdiv 4 - year_of_era sdiv 100);
          month_index = (5 * day_of_year + 2) sdiv 153;
          day = day_of_year - (153 * month_index + 2) sdiv 5 + 1;
          month = (if month_index < 10 then month_index + 3 else month_index - 9);
          year = (if month \<le> 2 then year + 1 else year)
      in \<lparr>cd_year = try_i32 year 0, cd_month = try_u32 month 1, cd_day = try_u32 day 1\<rparr>)"

definition date_days :: "calendar_date \<Rightarrow> int" where
  "date_days d = days_from_civil (cd_year d) (cd_month d) (cd_day d)"

text \<open>\<open>rem_euclid\<close> is \<open>mod\<close>, so the conversion to \<open>usize\<close> cannot fail.\<close>

definition weekday_index :: "calendar_date \<Rightarrow> int" where
  "weekday_index d = (date_days d + 4) mod 7"

definition monday_week_start :: "calendar_date \<Rightarrow> int" where
  "monday_week_start d = date_days d - (weekday_index d + 6) mod 7"

definition date_badge_range :: "calendar_date \<Rightarrow> calendar_date \<Rightarrow> badge_range" where
  "date_badge_range d today =
     (if d = today then Today
      else if monday_week_start d = monday_week_start today then ThisWeek
      else if cd_year d = cd_year today \<and> cd_month d = cd_month today then ThisMonth
      else if cd_year d = cd_year today then ThisYear
      else OtherTime)"

text \<open>\<open>saturating_sub\<close> of the year.\<close>

definition one_calendar_month_before :: "calendar_date \<Rightarrow> calendar_date" where
  "one_calendar_month_before d =
     (let (year, month) = (if cd_month d = 1 then (max (cd_year d - 1) (- (2 ^ 31)), 12) else (cd_year d, cd_month d - 1))
      in \<lparr>cd_year = year, cd_month = month, cd_day = min (cd_day d) (days_in_month year month)\<rparr>)"

definition is_recent_past_date :: "calendar_date \<Rightarrow> calendar_date \<Rightarrow> bool" where
  "is_recent_past_date d today \<longleftrightarrow>
     date_days (one_calendar_month_before today) \<le> date_days d \<and> date_days d < date_days today"

end
