(* ===== verification/Date_Badge.thy ===== *)
theory Date_Badge
  imports Calendar Text_Codecs
begin

text \<open>
  Date badges of the sidebar (\<open>crates/session/src/date_badge.rs\<close>): the date found in a
  file name, and the label of a date relative to today.
\<close>

section \<open>The label\<close>

definition weekday_kanji :: str where
  "weekday_kanji = [26085, 26376, 28779, 27700, 26408, 37329, 22303]"

definition append_weekday :: "str \<Rightarrow> uchar option \<Rightarrow> str" where
  "append_weekday label weekday = (case weekday of Some w \<Rightarrow> label @ [40, w, 41] | None \<Rightarrow> label)"

definition show_int :: "int \<Rightarrow> str" where
  "show_int i = (if i < 0 then 45 # show_radix 10 (nat (- i)) else show_radix 10 (nat i))"

definition two_digits :: "int \<Rightarrow> str" where
  "two_digits i = (if 0 \<le> i \<and> i < 10 then 48 # show_int i else show_int i)"

definition format_relative_date_label :: "calendar_date \<Rightarrow> calendar_date \<Rightarrow> str" where
  "format_relative_date_label d today =
     (if d = today then [26412, 26085]
      else
        let weekday = (if is_recent_past_date d today then Some (weekday_kanji ! nat (weekday_index d)) else None)
        in if cd_year d \<noteq> cd_year today
           then append_weekday (39 # two_digits (cd_year d mod 100) @ 47 # show_int (cd_month d) @ 47 # show_int (cd_day d)) weekday
           else if cd_month d \<noteq> cd_month today
           then append_weekday (show_int (cd_month d) @ 47 # show_int (cd_day d)) weekday
           else append_weekday (show_int (cd_day d) @ [26085]) weekday)"

section \<open>The date in a file name\<close>

record date_match =
  dm_date :: calendar_date
  dm_start :: nat
  dm_end :: nat

definition digit_at :: "nat list \<Rightarrow> nat \<Rightarrow> bool" where
  "digit_at bytes i \<longleftrightarrow> i < length bytes \<and> is_ascii_digit (bytes ! i)"

text \<open>\<open>digit_at(bytes, start.wrapping_sub(1))\<close>: at 0 the index wraps past the end.\<close>

definition digit_before :: "nat list \<Rightarrow> nat \<Rightarrow> bool" where
  "digit_before bytes start \<longleftrightarrow> 0 < start \<and> digit_at bytes (start - 1)"

definition get_range :: "'a list \<Rightarrow> nat \<Rightarrow> nat \<Rightarrow> 'a list option" where
  "get_range xs a b = (if a \<le> b \<and> b \<le> length xs then Some (take (b - a) (drop a xs)) else None)"

text \<open>Every caller passes a non-empty run of ASCII digits that fits an \<open>i32\<close>.\<close>

definition parse_digits :: "nat list \<Rightarrow> nat \<Rightarrow> nat \<Rightarrow> int option" where
  "parse_digits bytes a b =
     Option.bind (get_range bytes a b) (\<lambda>seg.
       if seg \<noteq> [] \<and> (\<forall>c \<in> set seg. is_ascii_digit c) \<and> int (digits_value 10 seg) < 2 ^ 31
       then Some (int (digits_value 10 seg)) else None)"

definition has_digit_run_boundary :: "nat list \<Rightarrow> nat \<Rightarrow> nat \<Rightarrow> bool" where
  "has_digit_run_boundary bytes start stop \<longleftrightarrow> \<not> digit_before bytes start \<and> \<not> digit_at bytes stop"

definition match_compact :: "nat list \<Rightarrow> nat \<Rightarrow> date_match option" where
  "match_compact bytes start =
     Option.bind (get_range bytes start (start + 8)) (\<lambda>segment.
     if \<not> (\<forall>c \<in> set segment. is_ascii_digit c) \<or> \<not> has_digit_run_boundary bytes start (start + 8) then None
     else
       Option.bind (parse_digits bytes start (start + 4)) (\<lambda>year.
       Option.bind (parse_digits bytes (start + 4) (start + 6)) (\<lambda>month.
       Option.bind (parse_digits bytes (start + 6) (start + 8)) (\<lambda>day.
       map_option (\<lambda>d. \<lparr>dm_date = d, dm_start = start, dm_end = start + 8\<rparr>) (calendar_date_new year month day)))))"

definition match_field :: "nat list \<Rightarrow> nat \<Rightarrow> (nat option \<Rightarrow> bool) \<Rightarrow> (int \<times> nat) option" where
  "match_field bytes start terminator_ok =
     (case get_range bytes start (start + 2) of
        Some segment \<Rightarrow>
          if (\<forall>c \<in> set segment. is_ascii_digit c) \<and> terminator_ok (get bytes (start + 2))
          then map_option (\<lambda>v. (v, start + 2)) (parse_digits bytes start (start + 2))
          else if is_ascii_digit (bytes ! start) \<and> terminator_ok (get bytes (start + 1))
          then Some (int (bytes ! start - 48), start + 1) else None
      | None \<Rightarrow>
          Option.bind (get bytes start) (\<lambda>b.
          if is_ascii_digit b \<and> terminator_ok (get bytes (start + 1)) then Some (int (b - 48), start + 1) else None))"

definition match_hyphenated :: "nat list \<Rightarrow> nat \<Rightarrow> date_match option" where
  "match_hyphenated bytes start =
     Option.bind (get_range bytes start (start + 4)) (\<lambda>year_segment.
     if \<not> (\<forall>c \<in> set year_segment. is_ascii_digit c) \<or> digit_before bytes start then None
     else if get bytes (start + 4) \<noteq> Some 45 then None
     else
       Option.bind (match_field bytes (start + 5) (\<lambda>b. b = Some 45)) (\<lambda>(month, month_end).
       Option.bind (match_field bytes (month_end + 1) (\<lambda>b. case b of None \<Rightarrow> True | Some b \<Rightarrow> \<not> is_ascii_digit b)) (\<lambda>(day, stop).
       Option.bind (parse_digits bytes start (start + 4)) (\<lambda>year.
       map_option (\<lambda>d. \<lparr>dm_date = d, dm_start = start, dm_end = stop\<rparr>) (calendar_date_new year month day)))))"

definition match_date :: "nat list \<Rightarrow> nat \<Rightarrow> date_match option" where
  "match_date bytes start =
     (case match_hyphenated bytes start of Some m \<Rightarrow> Some m | None \<Rightarrow> match_compact bytes start)"

fun find_map :: "('a \<Rightarrow> 'b option) \<Rightarrow> 'a list \<Rightarrow> 'b option" where
  "find_map f [] = None"
| "find_map f (x # xs) = (case f x of Some y \<Rightarrow> Some y | None \<Rightarrow> find_map f xs)"

definition find_date :: "str \<Rightarrow> date_match option" where
  "find_date file_name =
     (let bytes = as_bytes file_name in find_map (match_date bytes) [0..<length bytes])"

record file_name_badge =
  fb_before :: str
  fb_date :: calendar_date
  fb_after :: str

definition is_badge_separator :: "uchar \<Rightarrow> bool" where
  "is_badge_separator c \<longleftrightarrow> c \<in> {95, 45, 32}"

definition trim_end_by :: "(uchar \<Rightarrow> bool) \<Rightarrow> str \<Rightarrow> str" where
  "trim_end_by P s = rev (dropWhile P (rev s))"

text \<open>Slicing a \<open>str\<close> off a char boundary panics.\<close>

definition split_file_name_for_badge :: "str \<Rightarrow> (unit, file_name_badge option) res" where
  "split_file_name_for_badge file_name =
     (case find_date file_name of
        None \<Rightarrow> Ok None
      | Some m \<Rightarrow>
          if \<not> is_boundary file_name (dm_start m) \<or> \<not> is_boundary file_name (dm_end m) then Panic
          else Ok (Some \<lparr>fb_before = trim_end_by is_badge_separator (byte_slice file_name 0 (dm_start m)),
                         fb_date = dm_date m,
                         fb_after = dropWhile is_badge_separator (byte_slice file_name (dm_end m) (str_len file_name))\<rparr>))"

definition badge_remainder :: "file_name_badge \<Rightarrow> str" where
  "badge_remainder b =
     (if fb_before b = [] \<or> fb_after b = [] \<or> take 1 (fb_after b) = [46] then fb_before b @ fb_after b
      else fb_before b @ 32 # fb_after b)"

end
