(* ===== verification/Calendar_Facts.thy ===== *)
theory Calendar_Facts
  imports Calendar
begin

text \<open>
  Facts on the calendar arithmetic: the day number in closed form, its step from one day
  to the next, and the recovery of the date.
\<close>

lemma sdiv_nonneg: "0 \<le> a \<Longrightarrow> 0 < b \<Longrightarrow> a sdiv b = a div (b :: int)"
  by (simp add: signed_divide_int_def sgn_if)

lemma div_between: "0 < b \<Longrightarrow> q * b \<le> a \<Longrightarrow> a < (q + 1) * b \<Longrightarrow> a div b = (q :: int)"
  by (intro int_div_pos_eq[of a b q "a - q * b"]) (auto simp: algebra_simps)

lemma era_div:
  assumes "0 < n" and "m = n - 1"
  shows "(if 0 \<le> y then y else y - m) sdiv n = y div (n :: int)"
proof (cases "0 \<le> y")
  case False
  define q r where "q = y div n" and "r = y mod n"
  have y: "y = q * n + r" and r: "0 \<le> r" "r < n" using assms(1) by (simp_all add: q_def r_def)
  have "(m - y) div n = - q"
    using assms r by (intro div_between) (simp_all add: y algebra_simps)
  then show ?thesis using False assms by (simp add: signed_divide_int_def q_def)
qed (use assms in \<open>simp add: sdiv_nonneg\<close>)

section \<open>The day number\<close>

text \<open>The years start in March; \<open>leaps y\<close> is the number of leap days before March of \<open>y\<close>.\<close>

definition march_year :: "int \<Rightarrow> int \<Rightarrow> int" where
  "march_year year month = year - (if month \<le> 2 then 1 else 0)"

definition month_index :: "int \<Rightarrow> int" where
  "month_index month = (month + 9) mod 12"

definition day_of_year :: "int \<Rightarrow> int \<Rightarrow> int" where
  "day_of_year month day = (153 * month_index month + 2) div 5 + day - 1"

definition leaps :: "int \<Rightarrow> int" where
  "leaps y = y div 4 - y div 100 + y div 400"

lemma div_block: "0 < n \<Longrightarrow> (n * k * e + a) div n = k * e + a div n" for n :: int
  by (simp add: mult.assoc)

lemma days_from_civil_eq:
  "days_from_civil year month day =
     365 * march_year year month + leaps (march_year year month) + day_of_year month day - 719468"
proof -
  define y where "y = march_year year month"
  define e yoe where "e = y div 400" and "yoe = y mod 400"
  have y: "y = 400 * e + yoe" and yoe: "0 \<le> yoe" by (simp_all add: e_def yoe_def)
  have era: "(if 0 \<le> y then y else y - 399) sdiv 400 = e" unfolding e_def by (rule era_div) simp_all
  have mi: "0 \<le> month_index month" by (simp add: month_index_def)
  have "days_from_civil year month day =
      e * 146097 + (yoe * 365 + yoe div 4 - yoe div 100 + day_of_year month day) - 719468"
  proof -
    have "y - e * 400 = yoe" using y by simp
    then show ?thesis
      unfolding days_from_civil_def march_year_def[symmetric] y_def[symmetric] month_index_def[symmetric] Let_def era
        day_of_year_def using yoe mi by (simp add: sdiv_nonneg)
  qed
  moreover have "y div 4 = 100 * e + yoe div 4" "y div 100 = 4 * e + yoe div 100"
    using div_block[of 4 100 e yoe] div_block[of 100 4 e yoe] y by simp_all
  ultimately show ?thesis unfolding y_def[symmetric] leaps_def e_def[symmetric] by (simp add: y)
qed

lemma div_step:
  fixes n :: int
  assumes "0 < n"
  shows "y div n = (y - 1) div n + (if n dvd y then 1 else 0)"
proof -
  define q r where "q = y div n" and "r = y mod n"
  have y: "y = q * n + r" and r: "0 \<le> r" "r < n" and z: "n dvd y \<longleftrightarrow> r = 0"
    using assms by (simp_all add: q_def r_def dvd_eq_mod_eq_0)
  have "(y - 1) div n = (if r = 0 then q - 1 else q)"
    using r assms by (intro div_between) (auto simp: y algebra_simps)
  then show ?thesis using z by (simp add: q_def)
qed

lemma hundreds: "100 dvd y \<Longrightarrow> 4 dvd y" "400 dvd y \<Longrightarrow> 100 dvd y" "400 dvd y \<Longrightarrow> 4 dvd y" for y :: int
  by (erule dvd_trans[rotated], simp)+

lemma is_leap_year_dvd: "is_leap_year y \<longleftrightarrow> 4 dvd y \<and> (100 dvd y \<longrightarrow> 400 dvd y)"
  unfolding is_leap_year_def dvd_eq_mod_eq_0[symmetric] using hundreds[of y] by blast

lemma leaps_step: "leaps y = leaps (y - 1) + (if is_leap_year y then 1 else 0)"
proof -
  have d: "y div 4 = (y - 1) div 4 + (if 4 dvd y then 1 else 0)"
    "y div 100 = (y - 1) div 100 + (if 100 dvd y then 1 else 0)"
    "y div 400 = (y - 1) div 400 + (if 400 dvd y then 1 else 0)"
    by (rule div_step, simp)+
  consider "\<not> 4 dvd y" "\<not> 100 dvd y" "\<not> 400 dvd y" | "4 dvd y" "\<not> 100 dvd y" "\<not> 400 dvd y"
    | "4 dvd y" "100 dvd y" "\<not> 400 dvd y" | "4 dvd y" "100 dvd y" "400 dvd y"
    using hundreds[of y] by blast
  then show ?thesis
    unfolding leaps_def is_leap_year_dvd d by cases simp_all
qed

text \<open>The twelve months.\<close>

lemma month_cases:
  assumes "1 \<le> month" and "month \<le> (12 :: int)"
  obtains "month = 1" | "month = 2" | "month = 3" | "month = 4" | "month = 5" | "month = 6"
    | "month = 7" | "month = 8" | "month = 9" | "month = 10" | "month = 11" | "month = 12"
proof -
  have "month = 1 \<or> month = 2 \<or> month = 3 \<or> month = 4 \<or> month = 5 \<or> month = 6 \<or>
      month = 7 \<or> month = 8 \<or> month = 9 \<or> month = 10 \<or> month = 11 \<or> month = 12"
    using assms by presburger
  then show ?thesis using that by blast
qed

definition valid_date :: "calendar_date \<Rightarrow> bool" where
  "valid_date d \<longleftrightarrow> is_valid_calendar_date (cd_year d) (cd_month d) (cd_day d)"

definition next_day :: "calendar_date \<Rightarrow> calendar_date" where
  "next_day d =
     (if cd_day d < days_in_month (cd_year d) (cd_month d) then d\<lparr>cd_day := cd_day d + 1\<rparr>
      else if cd_month d < 12 then d\<lparr>cd_month := cd_month d + 1, cd_day := 1\<rparr>
      else \<lparr>cd_year = cd_year d + 1, cd_month = 1, cd_day = 1\<rparr>)"

lemmas civil_evals = date_days_def days_from_civil_eq march_year_def day_of_year_def month_index_def days_in_month_def

lemma date_days_next:
  assumes "valid_date d"
  shows "date_days (next_day d) = date_days d + 1"
proof (cases "cd_day d < days_in_month (cd_year d) (cd_month d)")
  case True
  then show ?thesis by (simp add: next_day_def civil_evals)
next
  case False
  then have day: "cd_day d = days_in_month (cd_year d) (cd_month d)" and m: "1 \<le> cd_month d" "cd_month d \<le> 12"
    using assms by (auto simp: valid_date_def is_valid_calendar_date_def)
  show ?thesis
    by (rule month_cases[OF m]) (use day leaps_step[of "cd_year d"] in \<open>auto simp: next_day_def civil_evals\<close>)
qed

lemma days_in_month_bounds: "1 \<le> m \<Longrightarrow> m \<le> 12 \<Longrightarrow> 28 \<le> days_in_month y m \<and> days_in_month y m \<le> 31"
  by (erule (1) month_cases) (simp_all add: days_in_month_def)

lemma next_day_valid: "valid_date d \<Longrightarrow> valid_date (next_day d)"
  using days_in_month_bounds[of "cd_month d + 1" "cd_year d"] days_in_month_bounds[of 1 "cd_year d + 1"]
  by (auto simp: valid_date_def is_valid_calendar_date_def next_day_def)

lemma epoch: "date_days \<lparr>cd_year = 1970, cd_month = 1, cd_day = 1\<rparr> = 0"
  by (simp add: civil_evals leaps_def)

section \<open>The way back\<close>

lemma day_of_year_bounds:
  assumes "is_valid_calendar_date year month day"
  shows "0 \<le> day_of_year month day" and "day_of_year month day \<le> 365"
    and "day_of_year month day = 365 \<Longrightarrow> is_leap_year (march_year year month + 1)"
    and "(5 * day_of_year month day + 2) div 153 = month_index month"
proof -
  have m: "1 \<le> month" "month \<le> 12" and d: "1 \<le> day" "day \<le> days_in_month year month"
    using assms by (auto simp: is_valid_calendar_date_def)
  show "0 \<le> day_of_year month day" by (rule month_cases[OF m]) (use d in \<open>auto simp: civil_evals\<close>)
  show "day_of_year month day \<le> 365" by (rule month_cases[OF m]) (use d in \<open>auto simp: civil_evals split: if_splits\<close>)
  show "day_of_year month day = 365 \<Longrightarrow> is_leap_year (march_year year month + 1)"
    by (rule month_cases[OF m]) (use d in \<open>auto simp: civil_evals split: if_splits\<close>)
  have "month_index month * 153 \<le> 5 * day_of_year month day + 2"
    by (rule month_cases[OF m]) (use d in \<open>auto simp: civil_evals\<close>)
  moreover have "5 * day_of_year month day + 2 < (month_index month + 1) * 153"
    by (rule month_cases[OF m]) (use d in \<open>auto simp: civil_evals split: if_splits\<close>)
  ultimately show "(5 * day_of_year month day + 2) div 153 = month_index month"
    by (intro div_between) auto
qed

lemma year_of_era:
  fixes yoe doy :: int
  assumes "0 \<le> yoe" and "yoe < 400" and "0 \<le> doy" and "doy \<le> 365" and "doy = 365 \<Longrightarrow> is_leap_year (yoe + 1)"
  defines "doe \<equiv> 365 * yoe + yoe div 4 - yoe div 100 + doy"
  shows "(doe - doe div 1460 + doe div 36524 - doe div 146096) div 365 = yoe" and "0 \<le> doe" and "doe < 146097"
proof -
  define c m where "c = yoe div 100" and "m = yoe mod 100"
  define q r where "q = m div 4" and "r = m mod 4"
  have m: "yoe = 100 * c + m" "0 \<le> m" "m < 100" and r: "m = 4 * q + r" "0 \<le> r" "r < 4"
    by (simp_all add: c_def m_def q_def r_def)
  have c: "0 \<le> c" "c \<le> 3" and q: "0 \<le> q" "q \<le> 24" using assms(1,2) m r by linarith+
  have b: "0 \<le> c" "c \<le> 3" "0 \<le> q" "q \<le> 24" "0 \<le> r" "r \<le> 3" using c q r by simp_all
  have yoe: "yoe = 100 * c + 4 * q + r" using m r by simp
  have y4: "yoe div 4 = 25 * c + q" using r(2,3) yoe by (intro div_between) auto
  have doe: "doe = 36524 * c + 1461 * q + 365 * r + doy"
    unfolding doe_def y4 c_def[symmetric] by (subst yoe) simp
  have leap: "r = 3 \<and> (q = 24 \<longrightarrow> c = 3)" if "doy = 365"
  proof -
    have "is_leap_year (4 * (25 * c + q) + (r + 1))" using assms(5)[OF that] yoe by (simp add: algebra_simps)
    then have l: "4 dvd 4 * (25 * c + q) + (r + 1)"
        "100 dvd 4 * (25 * c + q) + (r + 1) \<Longrightarrow> 400 dvd 4 * (25 * c + q) + (r + 1)"
      unfolding is_leap_year_dvd by blast+
    have "4 dvd r + 1" using l(1) dvd_add_right_iff[OF dvd_triv_left] by blast
    then have r: "r = 3" using b by presburger
    moreover have "c = 3" if "q = 24"
    proof -
      have "4 * (25 * c + q) + (r + 1) = 100 * (c + 1)" using r that by simp
      then have "400 dvd 100 * (c + 1)" using l(2) by (metis dvd_triv_left)
      then have "4 dvd c + 1" using dvd_mult_cancel_left[of 100 4 "c + 1"] by simp
      then show ?thesis using b by presburger
    qed
    ultimately show ?thesis by blast
  qed
  let ?last = "if c = 3 \<and> q = 24 \<and> r = 3 \<and> doy = 365 then 1 else 0 :: int"
  let ?over = "if 1460 \<le> 24 * c + q + 365 * r + doy then 1 else 0 :: int"
  have d1: "doe div 1460 = 25 * c + q + ?over" using b assms(3,4) unfolding doe by (intro div_between) auto
  have small: "1461 * q + 365 * r + doy \<le> 36524" using b assms(4) by linarith
  have whole: "q = 24 \<and> r = 3 \<and> doy = 365" if "1461 * q + 365 * r + doy = 36524"
    using b assms(4) that by linarith
  have last: "c = 3" if "q = 24 \<and> r = 3 \<and> doy = 365" using leap that by blast
  have d2: "doe div 36524 = c + ?last"
  proof (cases "q = 24 \<and> r = 3 \<and> doy = 365")
    case True
    then show ?thesis using last unfolding doe by simp
  next
    case False
    then have "1461 * q + 365 * r + doy < 36524" using small whole by linarith
    then have "doe div 36524 = c" using b assms(3) unfolding doe by (intro div_between) simp_all
    then show ?thesis using False by auto
  qed
  have d3: "doe div 146096 = ?last"
  proof (cases "q = 24 \<and> r = 3 \<and> doy = 365")
    case True
    then show ?thesis using last unfolding doe by simp
  next
    case False
    then have "1461 * q + 365 * r + doy < 36524" using small whole by linarith
    then have "doe div 146096 = 0" using b assms(3) unfolding doe by (intro div_between) simp_all
    then show ?thesis using False by auto
  qed
  have sum: "doe - doe div 1460 + doe div 36524 - doe div 146096 = 365 * yoe + (doy - ?over)"
    unfolding d1 d2 d3 by (subst doe, subst yoe) simp
  have "0 \<le> doy - ?over \<and> doy - ?over < 365"
  proof (cases "doy = 365")
    case True
    then show ?thesis using leap b by auto
  next
    case False
    then show ?thesis using b assms(3,4) by auto
  qed
  then show "(doe - doe div 1460 + doe div 36524 - doe div 146096) div 365 = yoe"
    unfolding sum by (intro div_between) auto
  show "0 \<le> doe" using b assms(3) unfolding doe by simp
  show "doe < 146097" using b assms(4) small leap unfolding doe by linarith
qed

lemma leap_mod_400: "is_leap_year (y mod 400 + 1) = is_leap_year (y + 1)"
proof -
  have "(y mod 400 + 1) mod n = (y + 1) mod n" if "n dvd 400" for n
    using that by (metis mod_add_left_eq mod_mod_cancel)
  then show ?thesis by (simp add: is_leap_year_def)
qed

lemma civil_from_days_inverse:
  assumes "valid_date d" and "- (2 ^ 31) \<le> cd_year d" and "cd_year d < 2 ^ 31"
  shows "civil_from_days (date_days d) = d"
proof -
  have v: "is_valid_calendar_date (cd_year d) (cd_month d) (cd_day d)" using assms(1) by (simp add: valid_date_def)
  define y mi doy where "y = march_year (cd_year d) (cd_month d)" and "mi = month_index (cd_month d)"
    and "doy = day_of_year (cd_month d) (cd_day d)"
  define e yoe where "e = y div 400" and "yoe = y mod 400"
  have y: "y = 400 * e + yoe" and yoe: "0 \<le> yoe" "yoe < 400" by (simp_all add: e_def yoe_def)
  note b = day_of_year_bounds[OF v, folded doy_def y_def mi_def]
  define doe where "doe = 365 * yoe + yoe div 4 - yoe div 100 + doy"
  have leap: "is_leap_year (yoe + 1)" if "doy = 365" using b(3)[OF that] leap_mod_400[of y] by (simp add: yoe_def)
  have r: "(doe - doe div 1460 + doe div 36524 - doe div 146096) div 365 = yoe" "0 \<le> doe" "doe < 146097"
    using year_of_era[OF yoe b(1,2) leap] by (simp_all add: doe_def)
  have z: "date_days d + 719468 = e * 146097 + doe"
  proof -
    have "y div 4 = 100 * e + yoe div 4" "y div 100 = 4 * e + yoe div 100"
      using div_block[of 4 100 e yoe] div_block[of 100 4 e yoe] y by simp_all
    then show ?thesis
      by (simp add: date_days_def days_from_civil_eq y_def[symmetric] doy_def[symmetric] leaps_def e_def[symmetric] doe_def)
        (simp add: y)
  qed
  have era: "(if 0 \<le> date_days d + 719468 then date_days d + 719468 else date_days d + 719468 - 146096) sdiv 146097 = e"
    using era_div[of 146097 146096 "date_days d + 719468"] r(2,3) div_between[of 146097 e "date_days d + 719468"]
    by (simp add: z)
  have doe0: "date_days d + 719468 - e * 146097 = doe" by (simp add: z)
  have m: "1 \<le> cd_month d" "cd_month d \<le> 12" and day: "1 \<le> cd_day d" "cd_day d \<le> 31"
    using v days_in_month_bounds[of "cd_month d" "cd_year d"] by (auto simp: is_valid_calendar_date_def)
  have doy0: "doe - (365 * yoe + yoe div 4 - yoe div 100) = doy" by (simp add: doe_def)
  have mi: "0 \<le> mi" "(if mi < 10 then mi + 3 else mi - 9) = cd_month d"
    unfolding mi_def month_index_def by (rule month_cases[OF m]; simp)+
  have day0: "doy - (153 * mi + 2) div 5 + 1 = cd_day d" by (simp add: doy_def day_of_year_def mi_def)
  have y0: "(if cd_month d \<le> 2 then y + 1 else y) = cd_year d" by (simp add: y_def march_year_def)
  have nonneg: "0 \<le> doe - doe div 1460 + doe div 36524 - doe div 146096"
  proof (rule ccontr)
    assume "\<not> ?thesis"
    then have "(doe - doe div 1460 + doe div 36524 - doe div 146096) div 365 < 0" by (simp add: neg_imp_zdiv_neg_iff)
    then show False using r(1) yoe by simp
  qed
  have d: "doe sdiv 1460 = doe div 1460" "doe sdiv 36524 = doe div 36524" "doe sdiv 146096 = doe div 146096"
    using r(2) by (simp_all only: sdiv_nonneg zero_less_numeral)
  have yd: "yoe sdiv 4 = yoe div 4" "yoe sdiv 100 = yoe div 100"
    using yoe(1) by (simp_all only: sdiv_nonneg zero_less_numeral)
  have s1: "(doe - doe sdiv 1460 + doe sdiv 36524 - doe sdiv 146096) sdiv 365 = yoe"
    unfolding d sdiv_nonneg[OF nonneg zero_less_numeral] by (rule r(1))
  have s2: "doe - (365 * yoe + yoe sdiv 4 - yoe sdiv 100) = doy" unfolding yd by (rule doy0)
  have "0 \<le> 5 * doy + 2" "0 \<le> 153 * mi + 2" using b(1) mi(1) by linarith+
  then have s3: "(5 * doy + 2) sdiv 153 = mi" "doy - (153 * mi + 2) sdiv 5 + 1 = cd_day d"
    using b(4) day0 by (simp_all only: sdiv_nonneg zero_less_numeral)
  have s4: "yoe + e * 400 = y" using y by linarith
  note s = s1 s2 s3 s4
  show ?thesis
    unfolding civil_from_days_def Let_def era doe0 s mi(2) y0
    using assms(2,3) m day by (simp add: try_i32_def try_u32_def)
qed

end
