(* ===== verification/Date_Facts.thy ===== *)
theory Date_Facts
  imports Date_Badge Calendar_Facts
begin

text \<open>
  What the search for a date in a file name finds: exactly the dates that are written out
  and not part of a longer run of digits.
\<close>

section \<open>Bytes of a text\<close>

lemma encode_char_high: "128 \<le> c \<Longrightarrow> b \<in> set (encode_char c) \<Longrightarrow> 128 \<le> b"
  by (auto simp: encode_char_def split: if_splits)

lemma as_bytes_ascii_id: "\<forall>b \<in> set (as_bytes s). b < 128 \<Longrightarrow> as_bytes s = s"
proof (induction s)
  case (Cons c s)
  have "c < 128"
  proof (rule ccontr)
    assume "\<not> c < 128"
    have h: "hd (encode_char c) \<in> set (encode_char c)" by (simp add: encode_char_def)
    then have "128 \<le> hd (encode_char c)" using encode_char_high[of c] \<open>\<not> c < 128\<close> by (simp add: not_less)
    moreover have "hd (encode_char c) < 128" using Cons.prems h by simp
    ultimately show False by simp
  qed
  then have "encode_char c = [c]" by (simp add: encode_char_def)
  moreover have "as_bytes s = s" using Cons.prems by (intro Cons.IH) simp
  ultimately show ?case by simp
qed simp

lemma ascii_byte_boundary:
  "i < length (as_bytes s) \<Longrightarrow> as_bytes s ! i < 128 \<Longrightarrow> is_boundary s i \<and> is_boundary s (Suc i)"
proof (induction s arbitrary: i)
  case (Cons c s)
  show ?case
  proof (cases "i < len_utf8 c")
    case True
    then have "encode_char c ! i < 128" using Cons.prems by (simp add: nth_append)
    moreover have "encode_char c ! i \<in> set (encode_char c)" using True by simp
    ultimately have "c < 128" using encode_char_high[of c "encode_char c ! i"] by (meson not_le)
    then have l: "len_utf8 c = 1" by (simp add: len_utf8_def)
    then have "i = 0" using True by simp
    then show ?thesis using l is_boundary_prefix[of "[c]" s] by simp
  next
    case False
    then have "is_boundary s (i - len_utf8 c) \<and> is_boundary s (Suc (i - len_utf8 c))"
      using Cons.IH[of "i - len_utf8 c"] Cons.prems by (simp add: nth_append)
    then show ?thesis
      using False is_boundary_append_iff[of "[c]" i s] is_boundary_append_iff[of "[c]" "Suc i" s]
      by (simp add: Suc_diff_le)
  qed
qed simp

text \<open>A text cut at two boundaries around a run of ASCII bytes.\<close>

lemma ascii_range:
  assumes "a < b" and "b \<le> length (as_bytes s)" and "\<forall>i. a \<le> i \<and> i < b \<longrightarrow> as_bytes s ! i < 128"
  shows "is_boundary s a" and "is_boundary s b"
    and "s = byte_slice s 0 a @ take (b - a) (drop a (as_bytes s)) @ byte_slice s b (str_len s)"
    and "as_bytes (byte_slice s 0 a) = take a (as_bytes s)"
proof -
  show a: "is_boundary s a" using ascii_byte_boundary[of a s] assms by simp
  have "is_boundary s (Suc (b - 1))" using ascii_byte_boundary[of "b - 1" s] assms by simp
  then show b: "is_boundary s b" using assms(1) by simp
  obtain xs ys zs where s: "s = xs @ ys @ zs" "a = str_len xs" "b = str_len xs + str_len ys"
    using boundary_range_split[OF a b] assms(1) by auto
  have mid: "take (b - a) (drop a (as_bytes s)) = as_bytes ys" using s by simp
  have "as_bytes ys ! j < 128" if "j < length (as_bytes ys)" for j
  proof -
    have "as_bytes s ! (a + j) = as_bytes ys ! j" using s that by (simp add: nth_append)
    then show ?thesis using assms(3)[rule_format, of "a + j"] that s by simp
  qed
  then have "as_bytes ys = ys" by (intro as_bytes_ascii_id) (auto simp: in_set_conv_nth)
  moreover have "byte_slice s 0 a = xs" using byte_slice_middle[of "[]" xs "ys @ zs"] s by simp
  moreover have "byte_slice s b (str_len s) = zs" using byte_slice_middle[of "xs @ ys" zs "[]"] s
    by (simp add: add.assoc)
  ultimately show "s = byte_slice s 0 a @ take (b - a) (drop a (as_bytes s)) @ byte_slice s b (str_len s)"
    and "as_bytes (byte_slice s 0 a) = take a (as_bytes s)"
    using s mid by simp_all
qed

section \<open>Written dates\<close>

definition digits :: "nat list \<Rightarrow> bool" where
  "digits s \<longleftrightarrow> s \<noteq> [] \<and> (\<forall>c \<in> set s. is_ascii_digit c)"

definition date_of :: "nat list \<Rightarrow> nat list \<Rightarrow> nat list \<Rightarrow> calendar_date" where
  "date_of y m d = \<lparr>cd_year = int (digits_value 10 y), cd_month = int (digits_value 10 m), cd_day = int (digits_value 10 d)\<rparr>"

definition written :: "nat list \<Rightarrow> calendar_date \<Rightarrow> bool" where
  "written s date \<longleftrightarrow> (\<exists>y m d. digits y \<and> length y = 4 \<and> digits m \<and> digits d \<and> date = date_of y m d \<and>
     (s = y @ m @ d \<and> length m = 2 \<and> length d = 2 \<or>
      s = y @ 45 # m @ 45 # d \<and> length m \<in> {1, 2} \<and> length d \<in> {1, 2}))"

definition isolated_at :: "nat list \<Rightarrow> nat \<Rightarrow> nat \<Rightarrow> bool" where
  "isolated_at bytes a b \<longleftrightarrow> \<not> digit_before bytes a \<and> \<not> digit_at bytes b"

lemma get_range_Some: "get_range xs a b = Some s \<longleftrightarrow> a \<le> b \<and> b \<le> length xs \<and> s = take (b - a) (drop a xs)"
  by (auto simp: get_range_def)

lemma parse_digits_Some:
  "parse_digits bytes a b = Some v \<Longrightarrow>
   a \<le> b \<and> b \<le> length bytes \<and> digits (take (b - a) (drop a bytes)) \<and> v = int (digits_value 10 (take (b - a) (drop a bytes)))"
  by (auto simp: parse_digits_def bind_eq_Some_conv get_range_Some digits_def split: if_splits)

lemma calendar_date_new_Some:
  "calendar_date_new y m d = Some c \<longleftrightarrow> c = \<lparr>cd_year = y, cd_month = m, cd_day = d\<rparr> \<and> valid_date c"
  by (auto simp: calendar_date_new_def valid_date_def)

lemma take_drop_split: "a \<le> b \<Longrightarrow> b \<le> c \<Longrightarrow> take (c - a) (drop a xs) = take (b - a) (drop a xs) @ take (c - b) (drop b xs)"
proof -
  assume "a \<le> b" "b \<le> c"
  then have "take (c - a) (drop a xs) = take ((b - a) + (c - b)) (drop a xs)" by simp
  then show ?thesis using \<open>a \<le> b\<close> by (simp only: take_add) simp
qed

lemma take_1_drop: "get xs a = Some x \<Longrightarrow> take 1 (drop a xs) = [x]"
  by (auto simp: get_Some_iff take_Suc_conv_app_nth hd_drop_conv_nth take_Suc)

lemma match_compact_sound:
  assumes "match_compact bytes start = Some m"
  shows "dm_start m = start \<and> start < dm_end m \<and> dm_end m \<le> length bytes \<and> isolated_at bytes start (dm_end m) \<and>
    valid_date (dm_date m) \<and> written (take (dm_end m - start) (drop start bytes)) (dm_date m)"
proof -
  obtain y mo d where p: "parse_digits bytes start (start + 4) = Some y" "parse_digits bytes (start + 4) (start + 6) = Some mo"
      "parse_digits bytes (start + 6) (start + 8) = Some d" and iso: "has_digit_run_boundary bytes start (start + 8)"
    and m: "dm_start m = start" "dm_end m = start + 8" "dm_date m = \<lparr>cd_year = y, cd_month = mo, cd_day = d\<rparr>"
      "valid_date (dm_date m)"
    using assms by (auto simp: match_compact_def bind_eq_Some_conv calendar_date_new_Some split: if_splits)
  note d = p[THEN parse_digits_Some]
  let ?y = "take 4 (drop start bytes)" and ?m = "take 2 (drop (start + 4) bytes)" and ?d = "take 2 (drop (start + 6) bytes)"
  have "take 8 (drop start bytes) = ?y @ ?m @ ?d"
    using take_drop_split[of start "start + 4" "start + 8" bytes] take_drop_split[of "start + 4" "start + 6" "start + 8" bytes]
    by simp
  moreover have "start + 8 \<le> length bytes" using d by auto
  then have "length ?y = 4" "length ?m = 2" "length ?d = 2" by simp_all
  moreover have "digits ?y" "digits ?m" "digits ?d" "dm_date m = date_of ?y ?m ?d"
    using d m by (simp_all add: date_of_def)
  ultimately have "written (take (dm_end m - start) (drop start bytes)) (dm_date m)"
    unfolding written_def using m by (intro exI[of _ ?y] exI[of _ ?m] exI[of _ ?d]) simp
  then show ?thesis using m iso d by (simp add: isolated_at_def has_digit_run_boundary_def)
qed

lemma digits_single: "is_ascii_digit b \<Longrightarrow> digits [b] \<and> digits_value 10 [b] = b - 48"
  by (auto simp: digits_def digits_value_def to_digit_def is_ascii_digit_def Let_def)

lemma match_field_sound:
  assumes "match_field bytes start ok = Some (v, stop)"
  shows "start < stop \<and> stop \<le> length bytes \<and> stop - start \<in> {1, 2} \<and> digits (take (stop - start) (drop start bytes)) \<and>
    v = int (digits_value 10 (take (stop - start) (drop start bytes))) \<and> ok (get bytes stop)"
proof -
  have one: ?thesis if "start < length bytes" "is_ascii_digit (bytes ! start)" "ok (get bytes (start + 1))"
      "v = int (bytes ! start - 48)" "stop = start + 1"
    using that digits_single[of "bytes ! start"] take_1_drop[of bytes start "bytes ! start"] by (simp add: get_def)
  show ?thesis
  proof (cases "get_range bytes start (start + 2)")
    case None
    then show ?thesis using assms one
      by (auto simp: match_field_def bind_eq_Some_conv get_Some_iff split: if_splits)
  next
    case (Some seg)
    then have l: "start + 2 \<le> length bytes" by (simp add: get_range_Some)
    show ?thesis
    proof (cases "(\<forall>c \<in> set seg. is_ascii_digit c) \<and> ok (get bytes (start + 2))")
      case True
      then show ?thesis using assms Some parse_digits_Some[of bytes start "start + 2" v]
        by (auto simp: match_field_def)
    next
      case False
      then show ?thesis using assms Some one l by (auto simp: match_field_def split: if_splits)
    qed
  qed
qed

lemma match_hyphenated_sound:
  assumes "match_hyphenated bytes start = Some m"
  shows "dm_start m = start \<and> start < dm_end m \<and> dm_end m \<le> length bytes \<and> isolated_at bytes start (dm_end m) \<and>
    valid_date (dm_date m) \<and> written (take (dm_end m - start) (drop start bytes)) (dm_date m)"
proof -
  obtain y mo me d stop where p: "parse_digits bytes start (start + 4) = Some y" "get bytes (start + 4) = Some 45"
      "match_field bytes (start + 5) (\<lambda>b. b = Some 45) = Some (mo, me)"
      "match_field bytes (me + 1) (\<lambda>b. case b of None \<Rightarrow> True | Some b \<Rightarrow> \<not> is_ascii_digit b) = Some (d, stop)"
      "\<not> digit_before bytes start"
    and m: "dm_start m = start" "dm_end m = stop" "dm_date m = \<lparr>cd_year = y, cd_month = mo, cd_day = d\<rparr>"
      "valid_date (dm_date m)"
    using assms by (auto simp: match_hyphenated_def bind_eq_Some_conv calendar_date_new_Some split: if_splits)
  note y = parse_digits_Some[OF p(1)] and f = match_field_sound[OF p(3)] and g = match_field_sound[OF p(4)]
  let ?y = "take 4 (drop start bytes)" and ?m = "take (me - (start + 5)) (drop (start + 5) bytes)"
    and ?d = "take (stop - (me + 1)) (drop (me + 1) bytes)"
  have "take (stop - start) (drop start bytes) = ?y @ 45 # ?m @ 45 # ?d"
    using take_drop_split[of start "start + 4" stop bytes] take_drop_split[of "start + 4" "start + 5" stop bytes]
      take_drop_split[of "start + 5" me stop bytes] take_drop_split[of me "me + 1" stop bytes]
      take_1_drop[OF p(2)] take_1_drop[of bytes me 45] f g by simp
  moreover have "digits ?y" "digits ?m" "digits ?d" "length ?y = 4" "length ?m \<in> {1, 2}" "length ?d \<in> {1, 2}"
    "dm_date m = date_of ?y ?m ?d" using y f g m by (auto simp: date_of_def)
  ultimately have "written (take (dm_end m - start) (drop start bytes)) (dm_date m)"
    unfolding written_def using m by (intro exI[of _ ?y] exI[of _ ?m] exI[of _ ?d]) simp
  moreover have "\<not> digit_at bytes stop" using g by (auto simp: digit_at_def get_def)
  ultimately show ?thesis using m p(5) y f g by (auto simp: isolated_at_def)
qed

lemma match_date_sound:
  assumes "match_date bytes start = Some m"
  shows "dm_start m = start \<and> start < dm_end m \<and> dm_end m \<le> length bytes \<and> isolated_at bytes start (dm_end m) \<and>
    valid_date (dm_date m) \<and> written (take (dm_end m - start) (drop start bytes)) (dm_date m)"
  using assms match_compact_sound match_hyphenated_sound by (auto simp: match_date_def split: option.splits)

section \<open>Every written date is found\<close>

lemma digits_value_bound: "\<forall>c \<in> set s. is_ascii_digit c \<Longrightarrow> digits_value 10 s < 10 ^ length s"
proof (induction s rule: rev_induct)
  case (snoc c s)
  have "the (to_digit 10 c) < 10" using snoc.prems by (auto simp: to_digit_def is_ascii_digit_def Let_def)
  then show ?case using snoc by (simp add: digits_value_append)
qed (simp add: digits_value_def)

lemma parse_digits_take:
  assumes "digits f" and "length f \<le> 4" and "take (length f) (drop a bytes) = f" and "a + length f \<le> length bytes"
  shows "parse_digits bytes a (a + length f) = Some (int (digits_value 10 f))"
proof -
  have "digits_value 10 f < 10 ^ length f" using assms(1) digits_value_bound[of f] by (simp add: digits_def)
  also have "(10 :: nat) ^ length f \<le> 10 ^ 4" using assms(2) by (intro power_increasing) simp_all
  finally have "int (digits_value 10 f) < 2 ^ 31" by simp
  then show ?thesis using assms by (simp add: parse_digits_def get_range_def digits_def)
qed

lemma match_field_complete:
  assumes "digits f" and "length f \<in> {1, 2}" and "take (length f) (drop start bytes) = f" and "start + length f \<le> length bytes"
    and "ok (get bytes (start + length f))" and "\<And>b. ok (Some b) \<Longrightarrow> \<not> is_ascii_digit b"
  shows "match_field bytes start ok = Some (int (digits_value 10 f), start + length f)"
proof (cases "length f = 2")
  case True
  then have "get_range bytes start (start + 2) = Some f" using assms by (simp add: get_range_def)
  then show ?thesis using True assms parse_digits_take[of f start bytes] by (simp add: match_field_def digits_def)
next
  case False
  then have l: "length f = 1" using assms(2) by simp
  then obtain c where f: "f = [c]" by (cases f) auto
  have c: "start < length bytes" "bytes ! start = c" "is_ascii_digit c"
    using assms(1,3,4) f by (auto simp: digits_def take_Suc hd_drop_conv_nth)
  have "\<not> (\<forall>x \<in> set seg. is_ascii_digit x)" if "get_range bytes start (start + 2) = Some seg" for seg
  proof -
    have seg: "start + 2 \<le> length bytes" "seg = take 2 (drop start bytes)" using that by (simp_all add: get_range_Some)
    then have "bytes ! (start + 1) \<in> set seg"
      by (intro in_set_conv_nth[THEN iffD2] exI[of _ 1]) simp
    moreover have "get bytes (start + 1) = Some (bytes ! (start + 1))" using seg by (simp add: get_def)
    then have "\<not> is_ascii_digit (bytes ! (start + 1))" using assms(5,6) l by simp
    ultimately show ?thesis by blast
  qed
  then show ?thesis
    using c assms(5) l f digits_single[of c]
    by (auto simp: match_field_def get_def split: option.splits)
qed

lemma take_append_at: "take (b - a) (drop a bytes) = u @ v \<Longrightarrow> a + length u + length v \<le> length bytes \<Longrightarrow>
    take (length u) (drop a bytes) = u \<and> take (b - (a + length u)) (drop (a + length u) bytes) = v"
proof -
  assume t: "take (b - a) (drop a bytes) = u @ v" "a + length u + length v \<le> length bytes"
  have "length (take (b - a) (drop a bytes)) = length u + length v" using t(1) by simp
  then have l: "length u \<le> b - a" by simp
  have "take (length u) (take (b - a) (drop a bytes)) = u" using t(1) by simp
  moreover have "drop (length u) (take (b - a) (drop a bytes)) = v" using t(1) by simp
  ultimately show ?thesis using l by (simp add: min_def drop_take add.commute)
qed

lemma get_of_take: "take 1 (drop i xs) = [x] \<Longrightarrow> get xs i = Some x"
proof -
  assume "take 1 (drop i xs) = [x]"
  then obtain r where r: "drop i xs = x # r" by (cases "drop i xs") auto
  then have "\<not> length xs \<le> i" by auto
  then show ?thesis using r hd_drop_conv_nth[of i xs] by (simp add: get_def)
qed

lemma match_date_complete:
  assumes "written (take (b - a) (drop a bytes)) date" and "a < b" and "b \<le> length bytes"
    and "isolated_at bytes a b" and "valid_date date"
  shows "match_date bytes a \<noteq> None"
proof -
  let ?s = "take (b - a) (drop a bytes)"
  obtain y m d where w: "digits y" "length y = 4" "digits m" "digits d" "date = date_of y m d"
      and sh: "?s = y @ m @ d \<and> length m = 2 \<and> length d = 2 \<or>
               ?s = y @ 45 # m @ 45 # d \<and> length m \<in> {1, 2} \<and> length d \<in> {1, 2}"
    using assms(1) unfolding written_def by blast
  have ls: "length ?s = b - a" using assms(2,3) by simp
  have new: "calendar_date_new (int (digits_value 10 y)) (int (digits_value 10 m)) (int (digits_value 10 d)) = Some date"
    using assms(5) w(5) by (simp add: calendar_date_new_Some date_of_def)
  from sh show ?thesis
  proof
    assume c: "?s = y @ m @ d \<and> length m = 2 \<and> length d = 2"
    then have b: "b = a + 8" using ls w(2) assms(2) by simp
    have 1: "take 4 (drop a bytes) = y" "take (b - (a + 4)) (drop (a + 4) bytes) = m @ d"
      using take_append_at[of b a bytes y "m @ d"] c w(2) b assms(3) by simp_all
    have 2: "take 2 (drop (a + 4) bytes) = m" "take (b - (a + 6)) (drop (a + 6) bytes) = d"
      using take_append_at[of b "a + 4" bytes m d] c 1(2) b assms(3) by (simp_all add: add.commute)
    have "parse_digits bytes a (a + 4) = Some (int (digits_value 10 y))"
      "parse_digits bytes (a + 4) (a + 6) = Some (int (digits_value 10 m))"
      "parse_digits bytes (a + 6) (a + 8) = Some (int (digits_value 10 d))"
      using parse_digits_take[of y a bytes] parse_digits_take[of m "a + 4" bytes] parse_digits_take[of d "a + 6" bytes]
        w 1 2 c b assms(3) by (simp_all add: add.commute)
    moreover have "get_range bytes a (a + 8) = Some (y @ m @ d)" using c b assms(3) by (simp add: get_range_def)
    moreover have "\<forall>x \<in> set (y @ m @ d). is_ascii_digit x" using w by (auto simp: digits_def)
    ultimately have "match_compact bytes a \<noteq> None"
      using new assms(4) b by (simp add: match_compact_def has_digit_run_boundary_def isolated_at_def)
    then show ?thesis by (simp add: match_date_def split: option.splits)
  next
    assume h: "?s = y @ 45 # m @ 45 # d \<and> length m \<in> {1, 2} \<and> length d \<in> {1, 2}"
    let ?me = "a + 5 + length m"
    have b: "b = ?me + 1 + length d" using h ls w(2) assms(2) by auto
    have 1: "take 4 (drop a bytes) = y" "take (b - (a + 4)) (drop (a + 4) bytes) = [45] @ m @ 45 # d"
      using take_append_at[of b a bytes y "45 # m @ 45 # d"] h w(2) b assms(3) by simp_all
    have 2: "take 1 (drop (a + 4) bytes) = [45]" "take (b - (a + 5)) (drop (a + 5) bytes) = m @ [45] @ d"
      using take_append_at[OF 1(2)] b assms(3) by (simp_all add: add.commute)
    have 3: "take (length m) (drop (a + 5) bytes) = m" "take (b - ?me) (drop ?me bytes) = [45] @ d"
      using take_append_at[OF 2(2)] b assms(3) by (simp_all add: add.commute)
    have 4: "take 1 (drop ?me bytes) = [45]" "take (b - (?me + 1)) (drop (?me + 1) bytes) = d"
      using take_append_at[OF 3(2)] b assms(3) by (simp_all add: add.commute)
    note at = get_of_take
    have "match_field bytes (a + 5) (\<lambda>b. b = Some 45) = Some (int (digits_value 10 m), ?me)"
      using h w 3(1) at[OF 4(1)] b assms(3) by (intro match_field_complete) (auto simp: is_ascii_digit_def)
    moreover have "match_field bytes (?me + 1) (\<lambda>b. case b of None \<Rightarrow> True | Some b \<Rightarrow> \<not> is_ascii_digit b) =
        Some (int (digits_value 10 d), b)"
    proof -
      have "take (length d) (drop (?me + 1) bytes) = d" using 4(2) b by simp
      moreover have "case get bytes b of None \<Rightarrow> True | Some b \<Rightarrow> \<not> is_ascii_digit b"
        using assms(4) by (auto simp: isolated_at_def digit_at_def get_def)
      moreover have e: "?me + 1 + length d = b" using b by simp
      ultimately show ?thesis
        using match_field_complete[of d "?me + 1" bytes "\<lambda>b. case b of None \<Rightarrow> True | Some b \<Rightarrow> \<not> is_ascii_digit b",
            unfolded e] h w(4) assms(3) by simp
    qed
    moreover have "parse_digits bytes a (a + 4) = Some (int (digits_value 10 y))"
      using parse_digits_take[of y a bytes] w(1,2) 1(1) b assms(3) by simp
    moreover have "get_range bytes a (a + 4) = Some y" using 1(1) b assms(3) by (simp add: get_range_def)
    ultimately have "match_hyphenated bytes a \<noteq> None"
      using new assms(4) w(1) at[OF 2(1)] by (simp add: match_hyphenated_def isolated_at_def digits_def)
    then show ?thesis by (auto simp: match_date_def)
  qed
qed

lemma find_map_Some: "find_map f xs = Some y \<Longrightarrow> \<exists>x \<in> set xs. f x = Some y"
  by (induction xs) (auto split: option.splits)

lemma find_map_None: "find_map f xs = None \<longleftrightarrow> (\<forall>x \<in> set xs. f x = None)"
  by (induction xs) (auto split: option.splits)

end
