(* ===== verification/Date_Claims.thy ===== *)
theory Date_Claims
  imports Date_Facts
begin

text \<open>
  The properties of the date badges: day numbers follow the calendar and lead back to the
  date, and the badge of a file name is a date that is written in it.
\<close>

section \<open>Day numbers\<close>

definition the_epoch :: calendar_date where
  "the_epoch = \<lparr>cd_year = 1970, cd_month = 1, cd_day = 1\<rparr>"

text \<open>C35: The day number follows the calendar: 1970-01-01 is day 0 and a Thursday, and from every
  valid date of every year, through month ends, leap days and year ends, the number goes
  up by one and the weekday by one to the next valid date.\<close>

theorem day_numbers_follow_the_calendar:
  assumes "valid_date d"
  shows "valid_date (next_day d) \<and> date_days (next_day d) = date_days d + 1 \<and>
    weekday_index (next_day d) = (weekday_index d + 1) mod 7 \<and> date_days the_epoch = 0 \<and> weekday_index the_epoch = 4"
  using next_day_valid[OF assms] date_days_next[OF assms] epoch
  by (simp add: weekday_index_def the_epoch_def mod_simps algebra_simps)

theorem day_numbers_follow_the_calendar_witness:
  "date_days \<lparr>cd_year = 2000, cd_month = 3, cd_day = 1\<rparr> = date_days \<lparr>cd_year = 2000, cd_month = 2, cd_day = 29\<rparr> + 1"
  using day_numbers_follow_the_calendar[of "\<lparr>cd_year = 2000, cd_month = 2, cd_day = 29\<rparr>"]
  by (simp add: valid_date_def is_valid_calendar_date_def next_day_def days_in_month_def is_leap_year_def)

text \<open>C36: \<open>civil_from_days\<close> is the inverse of \<open>days_from_civil\<close> on every valid date whose year fits an
  \<open>i32\<close>, before and after the epoch; so two dates never share a day number, and two dates
  are in the same week of the badge exactly if the same Monday starts both weeks.\<close>

theorem day_numbers_lead_back:
  assumes "valid_date d" and "- (2 ^ 31) \<le> cd_year d" and "cd_year d < 2 ^ 31"
    and "valid_date e" and "- (2 ^ 31) \<le> cd_year e" and "cd_year e < 2 ^ 31"
  shows "civil_from_days (date_days d) = d \<and> (date_days d = date_days e \<longleftrightarrow> d = e) \<and>
    (date_badge_range d e = ThisWeek \<longleftrightarrow> d \<noteq> e \<and> (date_days d + 3) div 7 = (date_days e + 3) div 7)"
proof -
  have d: "civil_from_days (date_days d) = d" using civil_from_days_inverse[OF assms(1-3)] .
  have "civil_from_days (date_days e) = e" using civil_from_days_inverse[OF assms(4-6)] .
  then have "date_days d = date_days e \<longleftrightarrow> d = e" using d by metis
  moreover have "monday_week_start x = 7 * ((date_days x + 3) div 7) - 3" for x
  proof -
    have "(weekday_index x + 6) mod 7 = (date_days x + 3) mod 7"
      unfolding weekday_index_def by presburger
    moreover have "date_days x + 3 = 7 * ((date_days x + 3) div 7) + (date_days x + 3) mod 7" by simp
    ultimately show ?thesis unfolding monday_week_start_def by linarith
  qed
  then have "date_badge_range d e = ThisWeek \<longleftrightarrow> d \<noteq> e \<and> (date_days d + 3) div 7 = (date_days e + 3) div 7"
    by (auto simp: date_badge_range_def)
  ultimately show ?thesis using d by blast
qed

theorem day_numbers_lead_back_witness:
  "civil_from_days (date_days \<lparr>cd_year = -4, cd_month = 2, cd_day = 29\<rparr>) = \<lparr>cd_year = -4, cd_month = 2, cd_day = 29\<rparr>"
  using day_numbers_lead_back[of "\<lparr>cd_year = -4, cd_month = 2, cd_day = 29\<rparr>" the_epoch]
  by (simp add: valid_date_def is_valid_calendar_date_def days_in_month_def is_leap_year_def the_epoch_def)

section \<open>The badge of a file name\<close>

text \<open>A file name with a valid date written out at bytes \<open>a..b\<close>, not part of a longer run of digits.\<close>

definition has_date_at :: "str \<Rightarrow> nat \<Rightarrow> nat \<Rightarrow> calendar_date \<Rightarrow> bool" where
  "has_date_at name a b date \<longleftrightarrow> a < b \<and> b \<le> str_len name \<and> valid_date date \<and> isolated_at (as_bytes name) a b \<and>
     written (take (b - a) (drop a (as_bytes name))) date"

lemma written_ascii: "written s date \<Longrightarrow> \<forall>c \<in> set s. c < 128"
proof -
  have "c < 128" if "digits t" "c \<in> set t" for t c using that by (auto simp: digits_def is_ascii_digit_def)
  then show "written s date \<Longrightarrow> \<forall>c \<in> set s. c < 128" by (auto simp: written_def)
qed

text \<open>C37: Splitting a file name never panics, whatever characters it has.  It finds a badge exactly
  if a valid date is written in the name, as YYYYMMDD or YYYY-M-D with one or two digits each,
  apart from other digits; and the name is then the text before, separators, that date as
  written, separators, and the text after.\<close>

theorem badge_is_a_written_date:
  "(split_file_name_for_badge name = Ok None \<longleftrightarrow> (\<nexists>a b date. has_date_at name a b date)) \<and>
   (split_file_name_for_badge name = Ok None \<or>
     (\<exists>before after date a b u v.
       split_file_name_for_badge name = Ok (Some \<lparr>fb_before = before, fb_date = date, fb_after = after\<rparr>) \<and>
       has_date_at name a b date \<and> list_all is_badge_separator (u @ v) \<and>
       name = before @ u @ take (b - a) (drop a (as_bytes name)) @ v @ after))"
proof -
  let ?bs = "as_bytes name"
  have found: "has_date_at name (dm_start m) (dm_end m) (dm_date m)" if "find_date name = Some m" for m
  proof -
    from that obtain i where "match_date ?bs i = Some m" unfolding find_date_def Let_def by (blast dest: find_map_Some)
    then show ?thesis using match_date_sound[of ?bs i m] by (auto simp: has_date_at_def)
  qed
  have complete: "find_date name \<noteq> None" if "has_date_at name a b date" for a b date
  proof -
    have "match_date ?bs a \<noteq> None" using that match_date_complete[of b a ?bs date] by (simp add: has_date_at_def)
    moreover have "a \<in> set [0..<length ?bs]" using that by (simp add: has_date_at_def)
    ultimately show ?thesis by (metis find_date_def find_map_None)
  qed
  have split: "\<exists>before after date a b u v.
       split_file_name_for_badge name = Ok (Some \<lparr>fb_before = before, fb_date = date, fb_after = after\<rparr>) \<and>
       has_date_at name a b date \<and> list_all is_badge_separator (u @ v) \<and>
       name = before @ u @ take (b - a) (drop a (as_bytes name)) @ v @ after"
    if "find_date name = Some m" for m
  proof -
    let ?a = "dm_start m" and ?b = "dm_end m"
    let ?l = "byte_slice name 0 ?a" and ?r = "byte_slice name ?b (str_len name)"
    have h: "has_date_at name ?a ?b (dm_date m)" using found[OF that] .
    have ascii: "?bs ! i < 128" if i: "?a \<le> i" "i < ?b" for i
    proof -
      have "?bs ! i = take (?b - ?a) (drop ?a ?bs) ! (i - ?a)" using h i by (simp add: has_date_at_def)
      moreover have "i - ?a < length (take (?b - ?a) (drop ?a ?bs))" using h i by (auto simp: has_date_at_def)
      ultimately show ?thesis using written_ascii[of "take (?b - ?a) (drop ?a ?bs)" "dm_date m"] h
        by (metis has_date_at_def nth_mem)
    qed
    have r: "is_boundary name ?a" "is_boundary name ?b" "name = ?l @ take (?b - ?a) (drop ?a ?bs) @ ?r"
      using ascii_range[of ?a ?b name] ascii h by (simp_all add: has_date_at_def)
    let ?u = "rev (takeWhile is_badge_separator (rev ?l))" and ?v = "takeWhile is_badge_separator ?r"
    have l: "?l = trim_end_by is_badge_separator ?l @ ?u"
      unfolding trim_end_by_def by (metis rev_append rev_rev_ident takeWhile_dropWhile_id)
    have "name = trim_end_by is_badge_separator ?l @ ?u @ take (?b - ?a) (drop ?a ?bs) @ ?v @ dropWhile is_badge_separator ?r"
      using r(3) l by (metis append_assoc takeWhile_dropWhile_id)
    moreover have "list_all is_badge_separator (?u @ ?v)" by (auto simp: list_all_iff dest: set_takeWhileD)
    moreover have "split_file_name_for_badge name = Ok (Some \<lparr>fb_before = trim_end_by is_badge_separator ?l,
        fb_date = dm_date m, fb_after = dropWhile is_badge_separator ?r\<rparr>)"
      using that r(1,2) by (simp add: split_file_name_for_badge_def)
    ultimately show ?thesis using h by blast
  qed
  show ?thesis
  proof (cases "find_date name")
    case None
    then have "split_file_name_for_badge name = Ok None" by (simp add: split_file_name_for_badge_def)
    then show ?thesis using complete None by blast
  next
    case (Some m)
    then show ?thesis using split[OF Some] found[OF Some] by fastforce
  qed
qed

end
