(* ===== verification/Naming.thy ===== *)
theory Naming
  imports Text_Codecs
begin

text \<open>
  File names from headings (\<open>crates/session/src/naming.rs\<close>): the title of a document, the
  stem made of it, a free name, and what a title does to the file of a session.
\<close>

section \<open>The title of a document\<close>

definition trim_start :: "str \<Rightarrow> str" where
  "trim_start s = dropWhile is_whitespace s"

definition trim_end :: "str \<Rightarrow> str" where
  "trim_end s = rev (dropWhile is_whitespace (rev s))"

definition starts_with :: "str \<Rightarrow> str \<Rightarrow> bool" where
  "starts_with s p \<longleftrightarrow> take (length p) s = p"

definition fence_open :: "str \<Rightarrow> str option" where
  "fence_open line =
     (if starts_with line (lit ''```'') then Some (lit ''```'')
      else if starts_with line (lit ''~~~'') then Some (lit ''~~~'') else None)"

definition is_fence_close :: "str \<Rightarrow> str \<Rightarrow> bool" where
  "is_fence_close line fence = starts_with line fence"

definition blank_char :: "uchar \<Rightarrow> bool" where
  "blank_char c \<longleftrightarrow> c \<in> {32, 9}"

definition strip_trailing_atx_close :: "str \<Rightarrow> str" where
  "strip_trailing_atx_close content =
     (let without_hashes = rev (dropWhile (\<lambda>c. c = 35) (rev content)) in
      if str_len without_hashes = str_len content \<or> without_hashes = [] then content
      else if blank_char (last without_hashes) then trim_end without_hashes else content)"

definition atx_h1_text :: "str \<Rightarrow> str option" where
  "atx_h1_text line =
     Option.bind (strip_prefix_char 35 line) (\<lambda>rest.
     if starts_with rest [35] then None
     else
       Option.bind (case rest of [] \<Rightarrow> Some [] | c # r \<Rightarrow> if blank_char c then Some r else None) (\<lambda>content.
       Some (trim (strip_trailing_atx_close (trim content)))))"

fun h1_of_lines :: "str list \<Rightarrow> str option \<Rightarrow> str option" where
  "h1_of_lines [] in_fence = None"
| "h1_of_lines (line # ls) in_fence =
     (let trimmed = trim_start line in
      case in_fence of
        Some fence \<Rightarrow> h1_of_lines ls (if is_fence_close trimmed fence then None else in_fence)
      | None \<Rightarrow>
          (case fence_open trimmed of
             Some fence \<Rightarrow> h1_of_lines ls (Some fence)
           | None \<Rightarrow>
               (case atx_h1_text trimmed of
                  Some title \<Rightarrow> if title \<noteq> [] then Some title else h1_of_lines ls None
                | None \<Rightarrow> h1_of_lines ls None)))"

definition extract_h1_title :: "str \<Rightarrow> str option" where
  "extract_h1_title text = h1_of_lines (text_lines text) None"

section \<open>The stem\<close>

definition max_title_chars :: nat where
  "max_title_chars = 100"

definition unsafe_char :: "uchar \<Rightarrow> bool" where
  "unsafe_char c \<longleftrightarrow> is_control c \<or> c \<in> {47, 92, 58, 42, 63, 34, 60, 62, 124}"

text \<open>\<open>split_whitespace\<close>.\<close>

function whitespace_words :: "str \<Rightarrow> str list" where
  "whitespace_words s =
     (let t = dropWhile is_whitespace s in
      if t = [] then []
      else takeWhile (\<lambda>c. \<not> is_whitespace c) t # whitespace_words (dropWhile (\<lambda>c. \<not> is_whitespace c) t))"
  by auto
termination
proof (relation "measure length")
  fix s t :: str
  assume t: "t = dropWhile is_whitespace s" "t \<noteq> []"
  then have "\<not> is_whitespace (hd t)" by (metis hd_dropWhile)
  then have "length (dropWhile (\<lambda>c. \<not> is_whitespace c) t) < length t"
    using t(2) by (cases t) (auto intro: le_imp_less_Suc length_dropWhile_le)
  also have "\<dots> \<le> length s" unfolding t(1) by (rule length_dropWhile_le)
  finally show "(dropWhile (\<lambda>c. \<not> is_whitespace c) t, s) \<in> measure length" by simp
qed simp

declare whitespace_words.simps [simp del]

definition truncate_chars :: "str \<Rightarrow> nat \<Rightarrow> str" where
  "truncate_chars text max_chars = (if length text \<le> max_chars then text else take max_chars text)"

definition sanitize_title :: "str \<Rightarrow> str option" where
  "sanitize_title title =
     (let replaced = map (\<lambda>c. if unsafe_char c then 32 else c) (trim title);
          collapsed = join_with 32 (whitespace_words replaced);
          trimmed = trim (truncate_chars collapsed max_title_chars)
      in if trimmed = [] \<or> trimmed = [46] \<or> trimmed = [46, 46] then None else Some trimmed)"

section \<open>A free name\<close>

text \<open>The suffix is a \<open>u32\<close>; adding to the last one panics under overflow checks.\<close>

function unique_loop :: "(nat \<Rightarrow> str) \<Rightarrow> (str \<Rightarrow> bool) \<Rightarrow> nat \<Rightarrow> (unit, str) res" where
  "unique_loop candidate taken suffix =
     (if \<not> taken (candidate suffix) then Ok (candidate suffix)
      else if suffix + 1 < 2 ^ 32 then unique_loop candidate taken (suffix + 1)
      else Panic)"
  by auto
termination by (relation "measure (\<lambda>(c, t, n). 2 ^ 32 - n)") auto

declare unique_loop.simps [simp del]

definition numbered_markdown :: "str \<Rightarrow> nat \<Rightarrow> str" where
  "numbered_markdown stem suffix = stem @ 32 # show_radix 10 suffix @ lit ''.md''"

definition unique_markdown_filename :: "str \<Rightarrow> (str \<Rightarrow> bool) \<Rightarrow> (unit, str) res" where
  "unique_markdown_filename stem taken =
     (let candidate = stem @ lit ''.md'' in
      if \<not> taken candidate then Ok candidate else unique_loop (numbered_markdown stem) taken 2)"

definition unique_folder_name :: "str \<Rightarrow> (str \<Rightarrow> bool) \<Rightarrow> (unit, str) res" where
  "unique_folder_name stem taken =
     (if \<not> taken stem then Ok stem else unique_loop (\<lambda>suffix. stem @ 32 # show_radix 10 suffix) taken 2)"

section \<open>What a title does\<close>

datatype title_sync_action = CreateNamed str | RenameTo str | StopTracking | NoAction

definition decide_title_sync :: "str option \<Rightarrow> str option \<Rightarrow> str option \<Rightarrow> title_sync_action" where
  "decide_title_sync auto_title current_stem extracted_title =
     (case Option.bind extracted_title sanitize_title of
        None \<Rightarrow> NoAction
      | Some sanitized \<Rightarrow>
          (case current_stem of
             None \<Rightarrow> CreateNamed sanitized
           | Some stem \<Rightarrow>
               (case auto_title of
                  None \<Rightarrow> NoAction
                | Some tracked \<Rightarrow>
                    let tracked_stem = (case sanitize_title tracked of Some s \<Rightarrow> s | None \<Rightarrow> []) in
                    if stem \<noteq> tracked_stem then StopTracking
                    else if sanitized = stem then NoAction
                    else RenameTo sanitized)))"

section \<open>Sanitized titles\<close>

lemma whitespace_words_Nil [simp]: "whitespace_words [] = []"
  by (subst whitespace_words.simps) simp

definition is_word :: "str \<Rightarrow> bool" where
  "is_word w \<longleftrightarrow> w \<noteq> [] \<and> (\<forall>c \<in> set w. \<not> is_whitespace c)"

lemma whitespace_words_Cons:
  "dropWhile is_whitespace s \<noteq> [] \<Longrightarrow> whitespace_words s =
     takeWhile (\<lambda>c. \<not> is_whitespace c) (dropWhile is_whitespace s) #
     whitespace_words (dropWhile (\<lambda>c. \<not> is_whitespace c) (dropWhile is_whitespace s))"
  by (subst whitespace_words.simps) (simp only: Let_def if_False)

lemma whitespace_words_blank: "dropWhile is_whitespace s = [] \<Longrightarrow> whitespace_words s = []"
  by (subst whitespace_words.simps) (simp only: Let_def simp_thms if_True)

lemma words_are_words: "w \<in> set (whitespace_words s) \<Longrightarrow> is_word w \<and> set w \<subseteq> set s"
proof (induction s rule: whitespace_words.induct)
  case (1 s)
  let ?t = "dropWhile is_whitespace s"
  show ?case
  proof (cases "?t = []")
    case True
    then show ?thesis using 1(2) whitespace_words_blank by simp
  next
    case False
    then have "\<not> is_whitespace (hd ?t)" by (metis hd_dropWhile)
    then have "is_word (takeWhile (\<lambda>c. \<not> is_whitespace c) ?t)"
      using False by (cases ?t) (auto simp: is_word_def dest: set_takeWhileD)
    moreover have "set (takeWhile (\<lambda>c. \<not> is_whitespace c) ?t) \<subseteq> set s"
      "set (dropWhile (\<lambda>c. \<not> is_whitespace c) ?t) \<subseteq> set s"
      by (auto dest!: set_takeWhileD set_dropWhileD)
    ultimately show ?thesis
      using 1(1)[OF refl False] 1(2) unfolding whitespace_words_Cons[OF False] by auto
  qed
qed

lemma space_is_whitespace [simp]: "is_whitespace 32"
  by (simp add: is_whitespace_def)

lemma words_of_word: "is_word w \<Longrightarrow> whitespace_words (w @ 32 # r) = w # whitespace_words r"
proof -
  assume w: "is_word w"
  then have "dropWhile is_whitespace (w @ 32 # r) = w @ 32 # r" by (cases w) (auto simp: is_word_def)
  moreover have "takeWhile (\<lambda>c. \<not> is_whitespace c) (w @ 32 # r) = w"
    "dropWhile (\<lambda>c. \<not> is_whitespace c) (w @ 32 # r) = 32 # r"
    using w by (auto simp: is_word_def takeWhile_append dropWhile_append)
  ultimately have "whitespace_words (w @ 32 # r) = w # whitespace_words (32 # r)"
    using whitespace_words_Cons[of "w @ 32 # r"] by simp
  moreover have "whitespace_words (32 # r) = whitespace_words r"
    using whitespace_words_Cons[of "32 # r"] whitespace_words_Cons[of r]
      whitespace_words_blank[of "32 # r"] whitespace_words_blank[of r]
    by (cases "dropWhile is_whitespace r = []") (simp_all only: dropWhile.simps space_is_whitespace if_True simp_thms)
  ultimately show ?thesis by simp
qed

lemma words_of_single: "is_word w \<Longrightarrow> whitespace_words w = [w]"
proof -
  assume w: "is_word w"
  then have "dropWhile is_whitespace w = w" by (cases w) (auto simp: is_word_def)
  moreover have "takeWhile (\<lambda>c. \<not> is_whitespace c) w = w" "dropWhile (\<lambda>c. \<not> is_whitespace c) w = []"
    using w by (auto simp: is_word_def takeWhile_eq_all_conv dropWhile_eq_Nil_conv)
  moreover have "w \<noteq> []" using w by (simp add: is_word_def)
  ultimately show ?thesis using whitespace_words_Cons[of w] by (simp only: whitespace_words_Nil simp_thms)
qed

lemma words_of_join: "\<forall>w \<in> set ws. is_word w \<Longrightarrow> whitespace_words (join_with 32 ws) = ws"
proof (induction "32 :: uchar" ws rule: join_with.induct)
  case (3 p q ps)
  then show ?case using words_of_word[of p "join_with 32 (q # ps)"] by simp
qed (simp_all add: words_of_single)

text \<open>Trimming what is left of a joined list after a cut.\<close>

lemma trim_end_append: "trim_end (u @ v) = (if trim_end v = [] then trim_end u else u @ trim_end v)"
  by (auto simp: trim_end_def dropWhile_append dropWhile_eq_Nil_conv)

lemma trim_end_word: "(\<forall>c \<in> set w. \<not> is_whitespace c) \<Longrightarrow> trim_end w = w"
  by (simp add: trim_end_def dropWhile_none)

lemma trim_end_space: "trim_end (32 # v) = (if trim_end v = [] then [] else 32 # trim_end v)"
  using trim_end_append[of "[32]" v] by (simp add: trim_end_def)

lemma trim_end_take_join:
  "\<forall>w \<in> set ws. is_word w \<Longrightarrow> \<exists>ws'. trim_end (take k (join_with 32 ws)) = join_with 32 ws' \<and> (\<forall>w \<in> set ws'. is_word w)"
proof (induction "32 :: uchar" ws arbitrary: k rule: join_with.induct)
  case 1
  then show ?case by (intro exI[of _ "[]"]) (simp add: trim_end_def)
next
  case (2 p)
  then have "trim_end (take k p) = take k p" by (intro trim_end_word) (auto simp: is_word_def dest: in_set_takeD)
  then show ?case using 2
    by (intro exI[of _ "if take k p = [] then [] else [take k p]"]) (auto simp: is_word_def dest: in_set_takeD)
next
  case (3 p q ps)
  have p: "is_word p" using 3(2) by simp
  show ?case
  proof (cases "k \<le> length p")
    case True
    then have "take k (join_with 32 (p # q # ps)) = take k p" by simp
    moreover have "trim_end (take k p) = take k p"
      using p by (intro trim_end_word) (auto simp: is_word_def dest: in_set_takeD)
    ultimately show ?thesis using p
      by (intro exI[of _ "if take k p = [] then [] else [take k p]"]) (auto simp: is_word_def dest: in_set_takeD)
  next
    case False
    let ?r = "take (k - length p - 1) (join_with 32 (q # ps))"
    obtain ws' where ws: "trim_end ?r = join_with 32 ws'" "\<forall>w \<in> set ws'. is_word w"
      using 3(1)[of "k - length p - 1"] 3(2) by auto
    have "take k (join_with 32 (p # q # ps)) = p @ 32 # ?r"
      using False by (simp add: take_Cons' not_le)
    then have e: "trim_end (take k (join_with 32 (p # q # ps))) = (if trim_end ?r = [] then p else p @ 32 # trim_end ?r)"
      using trim_end_append[of p "32 # ?r"] trim_end_space[of ?r] trim_end_word[of p] p by (auto simp: is_word_def)
    show ?thesis
    proof (cases "trim_end ?r = []")
      case True
      then show ?thesis using e p by (intro exI[of _ "[p]"]) simp
    next
      case False
      then have "ws' \<noteq> []" using ws(1) by auto
      then have "join_with 32 (p # ws') = p @ 32 # join_with 32 ws'" by (cases ws') auto
      then show ?thesis using e False ws p by (intro exI[of _ "p # ws'"]) simp
    qed
  qed
qed

lemma trim_is_trim_end: "s = [] \<or> \<not> is_whitespace (hd s) \<Longrightarrow> trim s = trim_end s"
  by (cases s) (auto simp: trim_def trim_end_def)

lemma join_hd: "\<forall>w \<in> set ws. is_word w \<Longrightarrow> join_with 32 ws = [] \<or> \<not> is_whitespace (hd (join_with 32 ws))"
  by (induction "32 :: uchar" ws rule: join_with.induct) (auto simp: is_word_def neq_Nil_conv)

lemma join_last: "\<forall>w \<in> set ws. is_word w \<Longrightarrow> trim_end (join_with 32 ws) = join_with 32 ws"
proof (induction "32 :: uchar" ws rule: join_with.induct)
  case (3 p q ps)
  then have "join_with 32 (q # ps) \<noteq> []" by (cases ps) (auto simp: is_word_def)
  then show ?case using 3 trim_end_append[of p "32 # join_with 32 (q # ps)"] trim_end_space[of "join_with 32 (q # ps)"] by simp
qed (auto simp: trim_end_word is_word_def)

end
