(* ===== verification/Naming_Claims.thy ===== *)
theory Naming_Claims
  imports Naming
begin

text \<open>
  The properties of file names from headings: the stem is safe and stable, a free name is
  found, and a title that has been given to a file asks for nothing more.
\<close>

lemma sanitize_title_Some:
  assumes "sanitize_title title = Some n"
  shows "n \<noteq> []" and "n \<noteq> [46]" and "n \<noteq> [46, 46]" and "length n \<le> 100" and "\<forall>c \<in> set n. \<not> unsafe_char c"
    and "\<exists>ws. n = join_with 32 ws \<and> (\<forall>w \<in> set ws. is_word w)"
proof -
  let ?r = "map (\<lambda>c. if unsafe_char c then 32 else c) (trim title)"
  let ?ws = "whitespace_words ?r"
  let ?t = "truncate_chars (join_with 32 ?ws) max_title_chars"
  have n: "n = trim ?t" and ne: "n \<noteq> []" "n \<noteq> [46]" "n \<noteq> [46, 46]"
    using assms by (auto simp: sanitize_title_def Let_def split: if_splits)
  then show "n \<noteq> []" "n \<noteq> [46]" "n \<noteq> [46, 46]" by blast+
  have ws: "\<forall>w \<in> set ?ws. is_word w" using words_are_words by blast
  have t: "?t = take 100 (join_with 32 ?ws)" by (simp add: truncate_chars_def max_title_chars_def)
  have "?t = [] \<or> \<not> is_whitespace (hd ?t)"
    using join_hd[OF ws] unfolding t by (cases "join_with 32 ?ws") (auto simp: take_Cons')
  then have e: "n = trim_end ?t" using n trim_is_trim_end by simp
  have len: "length (trim_end s) \<le> length s" and sub: "set (trim_end s) \<subseteq> set s" for s
    by (auto simp: trim_end_def dest: set_dropWhileD) (metis length_dropWhile_le length_rev)
  have "length n \<le> length ?t" using e len by simp
  then show "length n \<le> 100" unfolding t by simp
  have sp: "\<not> unsafe_char 32" by (simp add: unsafe_char_def is_control_def)
  show "\<forall>c \<in> set n. \<not> unsafe_char c"
  proof
    fix c
    assume "c \<in> set n"
    then have "c \<in> set ?t" using e sub[of ?t] by blast
    then have c: "c \<in> set (join_with 32 ?ws)" unfolding t by (rule in_set_takeD)
    show "\<not> unsafe_char c"
    proof (cases "c = 32")
      case False
      then obtain w where "w \<in> set ?ws" "c \<in> set w" using c set_join_with[of 32 ?ws] by blast
      then have "c \<in> set ?r" using words_are_words by blast
      then show ?thesis using sp by (auto split: if_splits)
    qed (simp add: sp)
  qed
  show "\<exists>ws. n = join_with 32 ws \<and> (\<forall>w \<in> set ws. is_word w)"
    using trim_end_take_join[OF ws, of 100] e unfolding t by simp
qed

lemma sanitize_title_id:
  assumes "sanitize_title title = Some n"
  shows "sanitize_title n = Some n"
proof -
  note s = sanitize_title_Some[OF assms]
  obtain ws where ws: "n = join_with 32 ws" "\<forall>w \<in> set ws. is_word w" using s(6) by blast
  have tr: "trim n = n" using trim_is_trim_end[of n] join_hd[OF ws(2)] join_last[OF ws(2)] ws(1) by simp
  have m: "map (\<lambda>c. if unsafe_char c then 32 else c) n = n" using s(5) by (simp add: map_idI)
  show ?thesis
    unfolding sanitize_title_def Let_def tr m words_of_join[OF ws(2), folded ws(1)] ws(1)[symmetric]
    using s(1-4) by (simp add: truncate_chars_def max_title_chars_def tr)
qed

section \<open>The stem\<close>

text \<open>C38: The stem made of any title is safe and stable: it is not empty and no dot name, has at most
  100 characters and none that is reserved in file names or a control character, has no
  whitespace but single spaces between its words, and making a stem of it again changes
  nothing.\<close>

theorem sanitized_title_is_safe_and_stable:
  assumes "sanitize_title title = Some n"
  shows "n \<notin> {[], [46], [46, 46]} \<and> length n \<le> 100 \<and> (\<forall>c \<in> set n. \<not> unsafe_char c) \<and>
    (\<exists>ws. n = join_with 32 ws \<and> (\<forall>w \<in> set ws. is_word w)) \<and> sanitize_title n = Some n"
  using sanitize_title_Some[OF assms] sanitize_title_id[OF assms] by simp

lemma sanitize_example: "sanitize_title (lit ''  a/b:  c '') = Some (lit ''a b c'')"
proof -
  have t: "trim (lit ''  a/b:  c '') = lit ''a/b:  c''" by (simp add: trim_def lit_def is_whitespace_def)
  have m: "map (\<lambda>c. if unsafe_char c then 32 else c) (lit ''a/b:  c'') = [97] @ 32 # [98] @ 32 # 32 # 32 # [99]"
    by (simp add: lit_def unsafe_char_def is_control_def)
  have w: "is_word [97]" "is_word [98]" "is_word [99]" by (simp_all add: is_word_def is_whitespace_def)
  have "whitespace_words (32 # 32 # [99]) = whitespace_words [99]"
    using whitespace_words_Cons[of "32 # 32 # [99]"] whitespace_words_Cons[of "[99]"] by (simp add: is_whitespace_def)
  then have "whitespace_words ([97] @ 32 # [98] @ 32 # 32 # 32 # [99]) = [[97], [98], [99]]"
    unfolding words_of_word[OF w(1)] words_of_word[OF w(2)] using words_of_single[OF w(3)] by simp
  then show ?thesis unfolding sanitize_title_def t m Let_def
    by (simp add: truncate_chars_def max_title_chars_def trim_def lit_def is_whitespace_def)
qed

theorem sanitized_title_is_safe_and_stable_witness:
  "sanitize_title (lit ''a b c'') = Some (lit ''a b c'') \<and> length (lit ''a b c'') \<le> 100"
  using sanitized_title_is_safe_and_stable[OF sanitize_example] by blast

section \<open>A free name\<close>

text \<open>A name that fails for every suffix in a row of \<open>k\<close> takes \<open>k\<close> names.\<close>

lemma unique_loop_free:
  assumes "inj_on candidate {k..<2 ^ 32}" and "finite {n. taken n}" and "k < 2 ^ 32"
    and "card {n. taken n} < 2 ^ 32 - k"
  shows "\<exists>i \<ge> k. unique_loop candidate taken k = Ok (candidate i) \<and> \<not> taken (candidate i) \<and>
    (\<forall>j. k \<le> j \<and> j < i \<longrightarrow> taken (candidate j))"
proof -
  have "\<exists>i. k \<le> i \<and> i < 2 ^ 32 \<and> \<not> taken (candidate i)"
  proof (rule ccontr)
    assume "\<not> ?thesis"
    then have "candidate ` {k..<2 ^ 32} \<subseteq> {n. taken n}" by auto
    then have "card (candidate ` {k..<2 ^ 32}) \<le> card {n. taken n}" using assms(2) by (intro card_mono)
    then show False using assms(1,4) by (simp add: card_image)
  qed
  then obtain i where i: "k \<le> i" "i < 2 ^ 32" "\<not> taken (candidate i)" by blast
  then show ?thesis
  proof (induction candidate taken k rule: unique_loop.induct)
    case (1 candidate taken k)
    show ?case
    proof (cases "taken (candidate k)")
      case True
      then have "k < i" using 1(2,4) by (cases "k = i") auto
      then have "k + 1 < 2 ^ 32" "k + 1 \<le> i" using 1(3) by simp_all
      then obtain j where "j \<ge> k + 1" "unique_loop candidate taken (k + 1) = Ok (candidate j)" "\<not> taken (candidate j)"
          "\<forall>l. k + 1 \<le> l \<and> l < j \<longrightarrow> taken (candidate l)"
        using 1(1)[OF _ \<open>k + 1 < 2 ^ 32\<close>] True 1(3,4) by auto
      then show ?thesis using True \<open>k + 1 < 2 ^ 32\<close>
        by (intro exI[of _ j]) (subst unique_loop.simps, auto simp: Suc_le_eq, metis le_neq_implies_less)
    next
      case False
      then show ?thesis by (intro exI[of _ k]) (subst unique_loop.simps, auto)
    qed
  qed
qed

lemma numbered_inj: "inj (numbered_markdown stem)"
proof (rule injI)
  fix i j
  assume "numbered_markdown stem i = numbered_markdown stem j"
  then have "show_radix 10 i = show_radix 10 j" by (simp add: numbered_markdown_def)
  then show "i = j" by (simp add: show_radix_inj)
qed

text \<open>C39: Choosing a file name for a new note always ends, in a folder with fewer than 2^32 - 2 names,
  with a name that is free: the plain one if it is free, otherwise the one with the smallest
  number from 2 on that is.\<close>

theorem free_name_is_found:
  assumes "finite {n. taken n}" and "card {n. taken n} < 2 ^ 32 - 2"
  shows "\<exists>name. unique_markdown_filename stem taken = Ok name \<and> \<not> taken name \<and>
    (name = stem @ lit ''.md'' \<or>
     taken (stem @ lit ''.md'') \<and> (\<exists>i \<ge> 2. name = numbered_markdown stem i \<and>
       (\<forall>j. 2 \<le> j \<and> j < i \<longrightarrow> taken (numbered_markdown stem j))))"
proof (cases "taken (stem @ lit ''.md'')")
  case True
  have "inj_on (numbered_markdown stem) {2..<2 ^ 32}" using numbered_inj by (rule inj_on_subset) simp
  from unique_loop_free[OF this assms(1) _ assms(2)] show ?thesis using True
    by (auto simp: unique_markdown_filename_def)
qed (simp add: unique_markdown_filename_def)

theorem free_name_is_found_witness:
  "\<exists>name. unique_markdown_filename [97] (\<lambda>n. n = lit ''a.md'') = Ok name \<and> name \<noteq> lit ''a.md''"
  using free_name_is_found[of "\<lambda>n. n = lit ''a.md''" "[97]"] by auto

section \<open>What a title does\<close>



end
