(* ===== verification/Spec2Isabelle.thy ===== *)
theory Spec2Isabelle
  imports Document_Claims Session_Set_Claims Network_Claims Install_Claims Pins_Claims Height_Claims Date_Claims Naming_Claims
begin

text \<open>
  A verification library for Hane, a Markdown editor written in Rust.
\<close>

end
